(* ===== verification/Prelude.thy ===== *)
theory Prelude
  imports Main "HOL-Library.Multiset"
begin

text \<open>
  Shared vocabulary of the development: the zero-value lookup of a Go map, signed 64-bit
  wrap-around, the simplification collections, and the list and map lemmas that several
  components use.

  Conventions used in every theory.
  \<^item> A Go map that the code only looks up is a HOL map; an index expression on a missing
    key yields the zero value, written \<open>go_get\<close>.
  \<^item> A Go map that the code ranges over is an association list. Go leaves the iteration
    order open, so the list order is one order the run may take, and a theorem about every
    such list is a theorem about every iteration order.
  \<^item> A run-time panic is the value \<open>None\<close>.
\<close>

section \<open>Collections\<close>

named_theorems go_simps "unfoldings of the run-time vocabulary of the source"

section \<open>Go maps\<close>

definition go_get :: "'v \<Rightarrow> ('k \<rightharpoonup> 'v) \<Rightarrow> 'k \<Rightarrow> 'v" where
  "go_get zero m k = (case m k of None \<Rightarrow> zero | Some v \<Rightarrow> v)"

lemma go_get_upd [simp]: "go_get z (m(k \<mapsto> v)) k' = (if k' = k then v else go_get z m k')"
  by (simp add: go_get_def)

lemma go_get_del [simp]: "go_get z (m(k := None)) k' = (if k' = k then z else go_get z m k')"
  by (simp add: go_get_def)

lemma go_get_empty [simp]: "go_get z Map.empty k = z"
  by (simp add: go_get_def)

section \<open>Signed 64-bit integers\<close>

text \<open>Go's \<open>int\<close> is 64 bits wide on the supported platforms and wraps around.\<close>

definition wrap64 :: "int \<Rightarrow> int" where
  "wrap64 x = (x + 2 ^ 63) mod 2 ^ 64 - 2 ^ 63"

definition int64 :: "int \<Rightarrow> bool" where
  "int64 x \<longleftrightarrow> - (2 ^ 63) \<le> x \<and> x < 2 ^ 63"

lemma wrap64_id [simp]: "int64 x \<Longrightarrow> wrap64 x = x"
  by (simp add: wrap64_def int64_def)

lemma int64_wrap64 [simp]: "int64 (wrap64 x)"
  by (simp add: wrap64_def int64_def)

lemma wrap64_add_left [simp]: "wrap64 (wrap64 x + y) = wrap64 (x + y)"
proof -
  have "(wrap64 x + y + 2 ^ 63) mod 2 ^ 64 = ((x + 2 ^ 63) mod 2 ^ 64 + y) mod 2 ^ 64"
    by (simp add: wrap64_def)
  also have "\<dots> = (x + y + 2 ^ 63) mod 2 ^ 64"
    by (simp only: mod_add_left_eq) (simp only: add.assoc add.commute [of "2 ^ 63" y])
  finally show ?thesis by (simp add: wrap64_def)
qed

section \<open>Lists\<close>

text \<open>Exchanging two cells of a slice.\<close>

definition swap :: "'a list \<Rightarrow> nat \<Rightarrow> nat \<Rightarrow> 'a list" where
  "swap xs i j = xs[i := xs ! j, j := xs ! i]"

lemma length_swap [simp]: "length (swap xs i j) = length xs"
  by (simp add: swap_def)

lemma nth_swap:
  "i < length xs \<Longrightarrow> j < length xs \<Longrightarrow> k < length xs \<Longrightarrow>
   swap xs i j ! k = (if k = i then xs ! j else if k = j then xs ! i else xs ! k)"
  by (simp add: swap_def nth_list_update)

lemma mset_swap_cells [simp]:
  "i < length xs \<Longrightarrow> j < length xs \<Longrightarrow> mset (swap xs i j) = mset xs"
  by (simp add: swap_def mset_swap)

lemma set_swap_cells [simp]:
  "i < length xs \<Longrightarrow> j < length xs \<Longrightarrow> set (swap xs i j) = set xs"
  by (metis mset_swap_cells set_mset_mset)

end
