(* ===== verification/Go_Heap.thy ===== *)
theory Go_Heap
  imports Prelude
begin

text \<open>
  The binary heap of Go's \<^verbatim>\<open>container/heap\<close> (Go 1.8, the version the build names), as the
  priority queues of the evaluation broker and of the plan queue use it: a slice with the
  sift-up of \<open>heap.Push\<close> and the sift-down of \<open>heap.Pop\<close>, over the queue's own \<open>Less\<close>.
  The order is a locale: \<open>Less\<close> need only be a strict weak order on the sets of elements
  that a queue can hold together, which is what the broker's \<open>Less\<close> is.
\<close>

section \<open>Sifting\<close>

definition parent :: "nat \<Rightarrow> nat" where
  "parent j = (j - 1) div 2"

lemma parent_less: "0 < j \<Longrightarrow> parent j < j"
  unfolding parent_def by arith

lemma parent_le: "parent j \<le> j"
  unfolding parent_def by arith

lemma parent_fix: "parent j = j \<longleftrightarrow> j = 0"
  using parent_less [of j] by (cases "j = 0") (auto simp: parent_def)

lemma parent_eq: "0 < k \<Longrightarrow> parent k = i \<longleftrightarrow> k = 2 * i + 1 \<or> k = 2 * i + 2"
  unfolding parent_def by arith

function heap_up :: "('a \<Rightarrow> 'a \<Rightarrow> bool) \<Rightarrow> nat \<Rightarrow> 'a list \<Rightarrow> 'a list" where
  "heap_up lt j xs =
     (if parent j = j \<or> \<not> lt (xs ! j) (xs ! parent j) then xs
      else heap_up lt (parent j) (swap xs (parent j) j))"
  by pat_completeness auto
termination
proof (relation "measure (\<lambda>(lt, j, xs). j)", goal_cases)
  case (2 lt j xs)
  then have "parent j < j" by (simp add: parent_fix parent_less)
  then show ?case by simp
qed simp

text \<open>The child that is sifted up: the right one unless the left one is smaller.\<close>

definition heap_child :: "('a \<Rightarrow> 'a \<Rightarrow> bool) \<Rightarrow> nat \<Rightarrow> nat \<Rightarrow> 'a list \<Rightarrow> nat" where
  "heap_child lt n j1 xs =
     (if j1 + 1 < n \<and> \<not> lt (xs ! j1) (xs ! (j1 + 1)) then j1 + 1 else j1)"

lemma heap_child_bounds:
  "j1 < n \<Longrightarrow> heap_child lt n j1 xs < n \<and> j1 \<le> heap_child lt n j1 xs \<and> heap_child lt n j1 xs \<le> j1 + 1"
  by (simp add: heap_child_def)

function heap_down :: "('a \<Rightarrow> 'a \<Rightarrow> bool) \<Rightarrow> nat \<Rightarrow> nat \<Rightarrow> 'a list \<Rightarrow> 'a list" where
  "heap_down lt i n xs =
     (let j1 = 2 * i + 1; j = heap_child lt n j1 xs in
      if n \<le> j1 then xs
      else if \<not> lt (xs ! j) (xs ! i) then xs
      else heap_down lt j n (swap xs i j))"
  by pat_completeness auto
termination
proof (relation "measure (\<lambda>(lt, i, n, xs). n - i)", goal_cases)
  case (2 lt i n xs j1 j)
  then have "i < j" "j < n" using heap_child_bounds [of j1 n lt xs] by auto
  then show ?case by simp
qed simp

declare heap_up.simps [simp del] heap_down.simps [simp del]

definition heap_push :: "('a \<Rightarrow> 'a \<Rightarrow> bool) \<Rightarrow> 'a \<Rightarrow> 'a list \<Rightarrow> 'a list" where
  "heap_push lt x xs = heap_up lt (length xs) (xs @ [x])"

text \<open>Popping an empty heap indexes the slice at -1 and panics.\<close>

definition heap_pop :: "('a \<Rightarrow> 'a \<Rightarrow> bool) \<Rightarrow> 'a list \<Rightarrow> ('a \<times> 'a list) option" where
  "heap_pop lt xs =
     (if xs = [] then None
      else let n = length xs - 1; ys = heap_down lt 0 n (swap xs 0 n)
           in Some (ys ! n, take n ys))"

section \<open>Sifting permutes\<close>

lemma heap_up_perm:
  "j < length xs \<Longrightarrow> mset (heap_up lt j xs) = mset xs \<and> length (heap_up lt j xs) = length xs"
proof (induction lt j xs rule: heap_up.induct)
  case (1 lt j xs)
  show ?case
  proof (cases "parent j = j \<or> \<not> lt (xs ! j) (xs ! parent j)")
    case True
    then show ?thesis by (simp add: heap_up.simps [of lt j xs])
  next
    case False
    have "parent j < length xs" using "1.prems" parent_le [of j] by simp
    with "1.IH" [OF False] "1.prems" False show ?thesis
      by (simp add: heap_up.simps [of lt j xs])
  qed
qed

lemma heap_up_stop:
  "parent j = j \<or> \<not> lt (xs ! j) (xs ! parent j) \<Longrightarrow> heap_up lt j xs = xs"
  by (simp add: heap_up.simps [of lt j xs])

lemma heap_up_step:
  "parent j \<noteq> j \<Longrightarrow> lt (xs ! j) (xs ! parent j) \<Longrightarrow>
   heap_up lt j xs = heap_up lt (parent j) (swap xs (parent j) j)"
  by (simp add: heap_up.simps [of lt j xs])

lemma heap_down_stop:
  "n \<le> 2 * i + 1 \<or> \<not> lt (xs ! heap_child lt n (2 * i + 1) xs) (xs ! i) \<Longrightarrow> heap_down lt i n xs = xs"
  by (auto simp: heap_down.simps [of lt i n xs] Let_def)

lemma heap_down_step:
  "2 * i + 1 < n \<Longrightarrow> lt (xs ! heap_child lt n (2 * i + 1) xs) (xs ! i) \<Longrightarrow>
   heap_down lt i n xs =
     heap_down lt (heap_child lt n (2 * i + 1) xs) n (swap xs i (heap_child lt n (2 * i + 1) xs))"
  by (subst heap_down.simps) (simp add: Let_def)

text \<open>One induction rule for both outcomes of a sift-down step.\<close>

lemma heap_down_induct [case_names stop step]:
  assumes stop: "\<And>i xs. n \<le> 2 * i + 1 \<or> \<not> lt (xs ! heap_child lt n (2 * i + 1) xs) (xs ! i) \<Longrightarrow> P i xs"
    and step: "\<And>i xs j. 2 * i + 1 < n \<Longrightarrow> j = heap_child lt n (2 * i + 1) xs \<Longrightarrow>
      lt (xs ! j) (xs ! i) \<Longrightarrow> i < j \<Longrightarrow> j < n \<Longrightarrow> P j (swap xs i j) \<Longrightarrow> P i xs"
  shows "P i xs"
proof (induction "n - i" arbitrary: i xs rule: less_induct)
  case (less i xs)
  let ?j = "heap_child lt n (2 * i + 1) xs"
  show ?case
  proof (cases "n \<le> 2 * i + 1 \<or> \<not> lt (xs ! ?j) (xs ! i)")
    case True
    then show ?thesis by (rule stop)
  next
    case False
    then have j: "i < ?j" "?j < n" using heap_child_bounds [of "2 * i + 1" n lt xs] by auto
    then have "P ?j (swap xs i ?j)" by (intro less.hyps) arith
    with False j show ?thesis by (auto intro: step [where i = i and xs = xs, OF _ refl])
  qed
qed

lemma heap_down_perm:
  "n \<le> length xs \<Longrightarrow> i < length xs \<Longrightarrow>
   mset (heap_down lt i n xs) = mset xs \<and> length (heap_down lt i n xs) = length xs \<and>
   (\<forall>k. n \<le> k \<longrightarrow> k < length xs \<longrightarrow> heap_down lt i n xs ! k = xs ! k)"
proof (induction i xs rule: heap_down_induct [where n = n and lt = lt])
  case (stop i xs)
  then show ?case by (simp add: heap_down_stop)
next
  case (step i xs j)
  then have "heap_down lt i n xs = heap_down lt j n (swap xs i j)"
    by (simp add: heap_down_step)
  with step show ?case by (auto simp: nth_swap)
qed

section \<open>The order a queue needs\<close>

text \<open>
  \<open>compat S\<close> says that the elements of \<open>S\<close> may sit in one queue together; on such a set
  \<open>lt\<close> is asymmetric and its complement is transitive, so \<open>\<not> lt y x\<close> is a total preorder.
\<close>

locale heap_order =
  fixes lt :: "'a \<Rightarrow> 'a \<Rightarrow> bool"
    and compat :: "'a set \<Rightarrow> bool"
  assumes lt_asym: "compat S \<Longrightarrow> x \<in> S \<Longrightarrow> y \<in> S \<Longrightarrow> lt x y \<Longrightarrow> \<not> lt y x"
    and not_lt_trans: "compat S \<Longrightarrow> x \<in> S \<Longrightarrow> y \<in> S \<Longrightarrow> z \<in> S \<Longrightarrow>
      \<not> lt y x \<Longrightarrow> \<not> lt z y \<Longrightarrow> \<not> lt z x"
begin

definition heap_inv :: "'a list \<Rightarrow> bool" where
  "heap_inv xs \<longleftrightarrow> (\<forall>k < length xs. 0 < k \<longrightarrow> \<not> lt (xs ! k) (xs ! parent k))"

text \<open>The order fails at most between \<open>j\<close> and its parent.\<close>

definition up_inv :: "nat \<Rightarrow> 'a list \<Rightarrow> bool" where
  "up_inv j xs \<longleftrightarrow> (\<forall>k < length xs. 0 < k \<longrightarrow> k \<noteq> j \<longrightarrow> \<not> lt (xs ! k) (xs ! parent k)) \<and>
     (\<forall>k < length xs. 0 < k \<longrightarrow> parent k = j \<longrightarrow> 0 < j \<longrightarrow> \<not> lt (xs ! k) (xs ! parent j))"

text \<open>Among the first \<open>n\<close> cells the order fails at most between \<open>i\<close> and its children.\<close>

definition down_inv :: "nat \<Rightarrow> nat \<Rightarrow> 'a list \<Rightarrow> bool" where
  "down_inv i n xs \<longleftrightarrow> (\<forall>k < n. 0 < k \<longrightarrow> parent k \<noteq> i \<longrightarrow> \<not> lt (xs ! k) (xs ! parent k)) \<and>
     (\<forall>k < n. 0 < k \<longrightarrow> parent k = i \<longrightarrow> 0 < i \<longrightarrow> \<not> lt (xs ! k) (xs ! parent i))"

lemma le_trans_nth:
  "compat (set xs) \<Longrightarrow> i < length xs \<Longrightarrow> j < length xs \<Longrightarrow> k < length xs \<Longrightarrow>
   \<not> lt (xs ! j) (xs ! i) \<Longrightarrow> \<not> lt (xs ! k) (xs ! j) \<Longrightarrow> \<not> lt (xs ! k) (xs ! i)"
  by (rule not_lt_trans [of "set xs" "xs ! i" "xs ! j" "xs ! k"]) auto

lemma asym_nth:
  "compat (set xs) \<Longrightarrow> i < length xs \<Longrightarrow> j < length xs \<Longrightarrow> lt (xs ! i) (xs ! j) \<Longrightarrow> \<not> lt (xs ! j) (xs ! i)"
  by (rule lt_asym [of "set xs"]) auto

lemma up_inv_swap:
  assumes ok: "compat (set xs)" and j: "j < length xs" "parent j \<noteq> j"
    and bad: "lt (xs ! j) (xs ! parent j)" and inv: "up_inv j xs"
  shows "up_inv (parent j) (swap xs (parent j) j)"
proof -
  let ?p = "parent j" and ?ys = "swap xs (parent j) j"
  have p: "?p < j" "?p < length xs" "0 < j"
    using j parent_less [of j] by (auto simp: parent_fix)
  note nth = nth_swap [OF p(2) j(1)]
  have le: "\<not> lt (xs ! ?p) (xs ! j)" using asym_nth [OF ok j(1) p(2) bad] .
  have A: "\<not> lt (?ys ! k) (?ys ! parent k)" if k: "k < length xs" "0 < k" "k \<noteq> ?p" for k
  proof -
    have pk: "parent k < length xs" "parent k \<noteq> k" using k parent_less [of k] by auto
    consider "k = j" | "k \<noteq> j" "parent k = j" | "k \<noteq> j" "parent k = ?p" | "k \<noteq> j" "parent k \<noteq> j" "parent k \<noteq> ?p"
      by blast
    then show ?thesis
    proof cases
      case 1
      with le p j show ?thesis by (simp add: nth)
    next
      case 2
      with inv k p have "\<not> lt (xs ! k) (xs ! ?p)" by (auto simp: up_inv_def)
      with 2 k pk j show ?thesis by (simp add: nth)
    next
      case 3
      with inv k have "\<not> lt (xs ! k) (xs ! ?p)" by (auto simp: up_inv_def)
      then have "\<not> lt (xs ! k) (xs ! j)"
        using le_trans_nth [OF ok j(1) p(2) k(1)] le by blast
      with 3 k pk p show ?thesis by (simp add: nth)
    next
      case 4
      with inv k pk show ?thesis by (auto simp: nth up_inv_def)
    qed
  qed
  have B: "\<not> lt (?ys ! k) (?ys ! parent ?p)" if k: "k < length xs" "0 < k" "parent k = ?p" "0 < ?p" for k
  proof -
    have pp: "parent ?p < length xs" "parent ?p \<noteq> ?p" "parent ?p \<noteq> j"
      using k p parent_less [of ?p] by auto
    have gp: "\<not> lt (xs ! ?p) (xs ! parent ?p)" using inv k(4) p by (auto simp: up_inv_def)
    have "k \<noteq> ?p" using k by (auto simp: parent_fix)
    show ?thesis
    proof (cases "k = j")
      case True
      with gp pp j show ?thesis by (simp add: nth)
    next
      case False
      with inv k have "\<not> lt (xs ! k) (xs ! ?p)" by (auto simp: up_inv_def)
      then have "\<not> lt (xs ! k) (xs ! parent ?p)"
        using le_trans_nth [OF ok pp(1) p(2) k(1) gp] by blast
      with False \<open>k \<noteq> ?p\<close> pp k show ?thesis by (simp add: nth)
    qed
  qed
  from A B show ?thesis by (simp add: up_inv_def)
qed

lemma heap_up_inv:
  "compat (set xs) \<Longrightarrow> j < length xs \<Longrightarrow> up_inv j xs \<Longrightarrow> heap_inv (heap_up lt j xs)"
proof (induction j arbitrary: xs rule: less_induct)
  case (less j xs)
  show ?case
  proof (cases "parent j = j \<or> \<not> lt (xs ! j) (xs ! parent j)")
    case True
    then have "heap_up lt j xs = xs" by (rule heap_up_stop)
    moreover have "heap_inv xs"
      using less.prems True unfolding heap_inv_def up_inv_def parent_fix by blast
    ultimately show ?thesis by simp
  next
    case False
    then have p: "parent j < j" "parent j < length xs"
      using less.prems parent_less [of j] by (auto simp: parent_fix)
    from False have "heap_up lt j xs = heap_up lt (parent j) (swap xs (parent j) j)"
      by (simp add: heap_up_step)
    moreover have "up_inv (parent j) (swap xs (parent j) j)"
      by (rule up_inv_swap) (use less.prems False in auto)
    ultimately show ?thesis
      using less.IH [of "parent j" "swap xs (parent j) j"] less.prems p by simp
  qed
qed

text \<open>The sifted child is the smaller one.\<close>

lemma heap_child_min:
  assumes "compat (set xs)" "n \<le> length xs" "2 * i + 1 < n" "k < n" "0 < k" "parent k = i"
  shows "\<not> lt (xs ! k) (xs ! heap_child lt n (2 * i + 1) xs)"
proof -
  have refl: "\<not> lt (xs ! m) (xs ! m)" if "m < length xs" for m
    using asym_nth [OF assms(1) that that] by blast
  from assms consider "k = 2 * i + 1" | "k = 2 * i + 2" by (auto simp: parent_eq)
  then show ?thesis
  proof cases
    case 1
    with assms show ?thesis by (simp add: heap_child_def refl)
  next
    case 2
    with assms show ?thesis
      using asym_nth [OF assms(1), of "2 * i + 1" "2 * i + 2"] by (auto simp: heap_child_def refl)
  qed
qed

lemma heap_child_parent: "2 * i + 1 < n \<Longrightarrow> parent (heap_child lt n (2 * i + 1) xs) = i"
  by (simp add: heap_child_def parent_def)

lemma down_inv_swap:
  assumes ok: "compat (set xs)" and n: "n \<le> length xs" "2 * i + 1 < n"
    and j: "j = heap_child lt n (2 * i + 1) xs" "i < j" "j < n"
    and bad: "lt (xs ! j) (xs ! i)" and inv: "down_inv i n xs"
  shows "down_inv j n (swap xs i j)"
proof -
  let ?ys = "swap xs i j"
  have len: "i < length xs" "j < length xs" using n j by auto
  note nth = nth_swap [OF len]
  have pj: "parent j = i" using heap_child_parent n(2) j(1) by simp
  have le: "\<not> lt (xs ! i) (xs ! j)" using asym_nth [OF ok len(2,1) bad] .
  have A: "\<not> lt (?ys ! k) (?ys ! parent k)" if k: "k < n" "0 < k" "parent k \<noteq> j" for k
  proof -
    have pk: "parent k < length xs" "k < length xs" "parent k < k" using k n parent_less [of k] by auto
    consider "k = j" | "k \<noteq> j" "parent k = i" | "k = i" | "k \<noteq> j" "k \<noteq> i" "parent k \<noteq> i" by blast
    then show ?thesis
    proof cases
      case 1
      with le pj len j(2) show ?thesis by (simp add: nth)
    next
      case 2
      then have "\<not> lt (xs ! k) (xs ! j)"
        unfolding j(1) using heap_child_min [OF ok n k(1,2)] by simp
      with 2 pk show ?thesis by (simp add: nth)
    next
      case 3
      then have "\<not> lt (xs ! j) (xs ! parent i)"
        using inv j(2,3) pj k unfolding down_inv_def by blast
      with 3 pk k show ?thesis by (simp add: nth)
    next
      case 4
      with inv k pk show ?thesis by (auto simp: nth down_inv_def)
    qed
  qed
  have B: "\<not> lt (?ys ! k) (?ys ! parent j)" if k: "k < n" "0 < k" "parent k = j" for k
  proof -
    have kk: "k < length xs" "k \<noteq> j" "k \<noteq> i" using k n j(2) parent_less [of k] by auto
    have "\<not> lt (xs ! k) (xs ! j)" using inv k j(2) by (auto simp: down_inv_def)
    with kk pj len show ?thesis by (simp add: nth)
  qed
  from A B show ?thesis by (simp add: down_inv_def)
qed

lemma down_inv_done:
  assumes ok: "compat (set xs)" and n: "n \<le> length xs" and inv: "down_inv i n xs"
    and stop: "n \<le> 2 * i + 1 \<or> \<not> lt (xs ! heap_child lt n (2 * i + 1) xs) (xs ! i)"
    and k: "k < n" "0 < k"
  shows "\<not> lt (xs ! k) (xs ! parent k)"
proof (cases "parent k = i")
  case False
  with inv k show ?thesis by (auto simp: down_inv_def)
next
  case True
  with k have i: "2 * i + 1 < n" "i < k" by (auto simp: parent_eq)
  let ?c = "heap_child lt n (2 * i + 1) xs"
  have c: "?c < length xs" using heap_child_bounds [of "2 * i + 1" n lt xs] i n by auto
  have "\<not> lt (xs ! k) (xs ! ?c)" by (rule heap_child_min) (use ok n i k True in auto)
  moreover have "\<not> lt (xs ! ?c) (xs ! i)" using stop i by auto
  ultimately show ?thesis
    using le_trans_nth [OF ok _ c, of i k] True i k n by auto
qed

lemma heap_down_inv:
  "compat (set xs) \<Longrightarrow> n \<le> length xs \<Longrightarrow> down_inv i n xs \<Longrightarrow> k < n \<Longrightarrow> 0 < k \<Longrightarrow>
   \<not> lt (heap_down lt i n xs ! k) (heap_down lt i n xs ! parent k)"
proof (induction i xs rule: heap_down_induct [where n = n and lt = lt])
  case (stop i xs)
  then show ?case using down_inv_done [of xs n i k] by (simp add: heap_down_stop)
next
  case (step i xs j)
  then have "down_inv j n (swap xs i j)" by (intro down_inv_swap) auto
  moreover have "heap_down lt i n xs = heap_down lt j n (swap xs i j)"
    using step by (simp add: heap_down_step)
  ultimately show ?case using step by simp
qed

section \<open>The queue operations\<close>

lemma heap_inv_Nil: "heap_inv []"
  by (simp add: heap_inv_def)

lemma heap_push_mset: "mset (heap_push lt x xs) = add_mset x (mset xs)"
  by (simp add: heap_push_def heap_up_perm)

lemma heap_push_inv:
  assumes "compat (insert x (set xs))" "heap_inv xs"
  shows "heap_inv (heap_push lt x xs)"
proof -
  have old: "parent k < length xs" if "k < length xs" for k
    using parent_le [of k] that by simp
  have "up_inv (length xs) (xs @ [x])"
    unfolding up_inv_def
  proof (intro conjI allI impI)
    fix k assume "k < length (xs @ [x])" "0 < k" "k \<noteq> length xs"
    then show "\<not> lt ((xs @ [x]) ! k) ((xs @ [x]) ! parent k)"
      using assms(2) old [of k] by (simp add: nth_append heap_inv_def)
  next
    fix k assume "k < length (xs @ [x])" "0 < k" "parent k = length xs"
    then show "\<not> lt ((xs @ [x]) ! k) ((xs @ [x]) ! parent (length xs))"
      using parent_less [of k] by simp
  qed
  then show ?thesis
    unfolding heap_push_def by (intro heap_up_inv) (use assms in auto)
qed

text \<open>The root of a heap is minimal.\<close>

lemma heap_root_min:
  assumes ok: "compat (set xs)" and inv: "heap_inv xs"
  shows "k < length xs \<Longrightarrow> \<not> lt (xs ! k) (xs ! 0)"
proof (induction k rule: less_induct)
  case (less k)
  show ?case
  proof (cases "k = 0")
    case True
    with less.prems show ?thesis using asym_nth [OF ok, of 0 0] by blast
  next
    case False
    then have p: "parent k < k" by (simp add: parent_less)
    with less have "\<not> lt (xs ! parent k) (xs ! 0)" by simp
    moreover have "\<not> lt (xs ! k) (xs ! parent k)" using inv less.prems False by (simp add: heap_inv_def)
    ultimately show ?thesis
      using le_trans_nth [OF ok, of 0 "parent k" k] less.prems p by fastforce
  qed
qed

lemma heap_pop_None: "heap_pop lt xs = None \<longleftrightarrow> xs = []"
  by (simp add: heap_pop_def Let_def)

lemma heap_pop_perm:
  assumes "heap_pop lt xs = Some (x, ys)"
  shows "x = xs ! 0" "mset xs = add_mset x (mset ys)"
proof -
  let ?n = "length xs - 1" and ?zs = "heap_down lt 0 (length xs - 1) (swap xs 0 (length xs - 1))"
  from assms have ne: "xs \<noteq> []" and x: "x = ?zs ! ?n" and ys: "ys = take ?n ?zs"
    by (auto simp: heap_pop_def Let_def split: if_splits)
  from ne have perm: "mset ?zs = mset xs" "length ?zs = length xs" "?zs ! ?n = swap xs 0 ?n ! ?n"
    using heap_down_perm [of ?n "swap xs 0 ?n" 0 lt] by auto
  with x ne show "x = xs ! 0" by (simp add: nth_swap)
  have "take ?n ?zs @ [?zs ! ?n] = ?zs"
    using take_Suc_conv_app_nth [of ?n ?zs] perm(2) ne by (simp add: Suc_leI)
  then have "mset ?zs = add_mset (?zs ! ?n) (mset (take ?n ?zs))"
    by (metis add_mset_add_single mset.simps(1,2) mset_append)
  with perm(1) x ys show "mset xs = add_mset x (mset ys)" by simp
qed

lemma heap_pop_inv:
  assumes ok: "compat (set xs)" and inv: "heap_inv xs" and pop: "heap_pop lt xs = Some (x, ys)"
  shows "heap_inv ys"
proof -
  let ?n = "length xs - 1"
  let ?ws = "swap xs 0 ?n" 
  from pop have ne: "xs \<noteq> []" and ys: "ys = take ?n (heap_down lt 0 ?n ?ws)"
    by (auto simp: heap_pop_def Let_def split: if_splits)
  from ne have n: "?n < length xs" "0 < length xs" by auto
  have len: "length (heap_down lt 0 ?n ?ws) = length xs"
    using heap_down_perm [of ?n ?ws 0 lt] ne by simp
  have "down_inv 0 ?n ?ws"
  proof (unfold down_inv_def, intro conjI allI impI)
    fix k assume k: "k < ?n" "0 < k" "parent k \<noteq> 0"
    then have "parent k < ?n" using parent_less [of k] by simp
    with k n inv show "\<not> lt (?ws ! k) (?ws ! parent k)"
      by (auto simp: nth_swap heap_inv_def)
  qed simp
  then have "\<not> lt (heap_down lt 0 ?n ?ws ! k) (heap_down lt 0 ?n ?ws ! parent k)"
    if "k < ?n" "0 < k" for k
    using heap_down_inv [of ?ws ?n 0 k] that ok n by simp
  then show ?thesis
    unfolding ys heap_inv_def using len n by (auto dest: parent_less)
qed

theorem heap_pop_min:
  assumes "compat (set xs)" "heap_inv xs" "heap_pop lt xs = Some (x, ys)" "y \<in> set ys"
  shows "\<not> lt y x"
proof -
  from heap_pop_perm [OF assms(3)] assms(4) have "y \<in> set xs" "x = xs ! 0"
    by (metis insert_iff set_mset_add_mset_insert set_mset_mset)+
  then show ?thesis
    using heap_root_min [OF assms(1,2)] by (auto simp: in_set_conv_nth)
qed

end

end
