(* ===== verification/Bitmap.thy ===== *)
theory Bitmap
  imports Prelude "HOL-Library.Word"
begin

text \<open>
  \<^verbatim>\<open>nomad/structs/bitmap.go\<close>: the uncompressed bitmap used for port collision checks, a
  slice of bytes with shift-and-mask access. A read or write past the slice panics and is
  \<open>None\<close>. The bitmap implements the finite-set interface \<open>bitset\<close>, through which the
  network index reasons about it. A \<open>uint\<close> index is a natural number.
\<close>

unbundle bit_operations_syntax

section \<open>Operations\<close>

type_synonym bitmap = "8 word list"

datatype bitmap_error = NotPositive | NotByteAligned | CopyNil

definition NewBitmap :: "nat \<Rightarrow> bitmap_error + bitmap" where
  "NewBitmap sz =
     (if sz = 0 then Inl NotPositive
      else if sz AND 7 \<noteq> 0 then Inl NotByteAligned
      else Inr (replicate (drop_bit 3 sz) 0))"

text \<open>A nil slice is \<open>None\<close>.\<close>

definition bm_Copy :: "bitmap option \<Rightarrow> bitmap_error + bitmap" where
  "bm_Copy b = (case b of None \<Rightarrow> Inl CopyNil | Some raw \<Rightarrow> Inr raw)"

definition bm_Size :: "bitmap \<Rightarrow> nat" where
  "bm_Size b = push_bit 3 (length b)"

definition bm_Set :: "bitmap \<Rightarrow> nat \<Rightarrow> bitmap option" where
  "bm_Set b idx =
     (let bucket = drop_bit 3 idx; mask = push_bit (idx AND 7) 1 in
      if bucket < length b then Some (b[bucket := (b ! bucket) OR mask]) else None)"

definition bm_Unset :: "bitmap \<Rightarrow> nat \<Rightarrow> bitmap option" where
  "bm_Unset b idx =
     (let bucket = drop_bit 3 idx; offset = push_bit (idx AND 7) 1; mask = offset XOR 0xff in
      if bucket < length b then Some (b[bucket := (b ! bucket) AND mask]) else None)"

definition bm_Check :: "bitmap \<Rightarrow> nat \<Rightarrow> bool option" where
  "bm_Check b idx =
     (let bucket = drop_bit 3 idx; mask = push_bit (idx AND 7) 1 in
      if bucket < length b then Some ((b ! bucket) AND mask \<noteq> 0) else None)"

definition bm_Clear :: "bitmap \<Rightarrow> bitmap" where
  "bm_Clear b = map (\<lambda>_. 0) b"

function bm_IndexesInRange :: "bitmap \<Rightarrow> bool \<Rightarrow> nat \<Rightarrow> nat \<Rightarrow> nat list option" where
  "bm_IndexesInRange b v i to =
     (if i \<le> to \<and> i < bm_Size b
      then case bm_Check b i of
             None \<Rightarrow> None
           | Some c \<Rightarrow>
               (case bm_IndexesInRange b v (Suc i) to of
                  None \<Rightarrow> None
                | Some indexes \<Rightarrow> Some (if c \<and> v \<or> \<not> c \<and> \<not> v then i # indexes else indexes))
      else Some [])"
  by pat_completeness auto
termination
  by (relation "measure (\<lambda>(b, v, i, to). Suc to - i)") auto

declare bm_IndexesInRange.simps [simp del]

section \<open>The set a bitmap stands for\<close>

definition bm_bits :: "bitmap \<Rightarrow> nat set" where
  "bm_bits b = {i. i < 8 * length b \<and> bit (b ! (i div 8)) (i mod 8)}"

lemma drop3 [simp]: "drop_bit 3 (n :: nat) = n div 8"
  by (simp add: drop_bit_eq_div)

lemma and7 [simp]: "(n :: nat) AND 7 = n mod 8"
proof -
  have "n AND 7 = take_bit 3 n" by (simp add: take_bit_eq_mask mask_eq_exp_minus_1)
  then show ?thesis by (simp add: take_bit_eq_mod)
qed

lemma bm_Size_eq [simp]: "bm_Size b = 8 * length b"
  by (simp add: bm_Size_def push_bit_eq_mult)

lemma and_exp_nonzero: "((w :: 8 word) AND 2 ^ n \<noteq> 0) \<longleftrightarrow> bit w n"
  using bit_iff_and_push_bit_not_eq_0 [of w n] by simp

lemma byte_index: "i div 8 = j div 8 \<Longrightarrow> i mod 8 = j mod 8 \<Longrightarrow> i = (j :: nat)"
  by (metis div_mult_mod_eq)

lemma bucket_less [simp]: "i div 8 < length (b :: bitmap) \<longleftrightarrow> i < 8 * length b"
  by (simp add: less_mult_imp_div_less div_less_iff_less_mult mult.commute)

lemma bm_Check_eq: "bm_Check b i = (if i < 8 * length b then Some (i \<in> bm_bits b) else None)"
  by (simp add: bm_Check_def Let_def and_exp_nonzero bm_bits_def)

lemma bm_Set_Some: "i < 8 * length b \<Longrightarrow> \<exists>b'. bm_Set b i = Some b'"
  by (simp add: bm_Set_def Let_def)

lemma bm_Set_None: "8 * length b \<le> i \<Longrightarrow> bm_Set b i = None"
  by (simp add: bm_Set_def Let_def)

lemma bm_Set_length: "bm_Set b i = Some b' \<Longrightarrow> length b' = length b"
  by (auto simp: bm_Set_def Let_def split: if_splits)

lemma bit_byte_mask: "n < 8 \<Longrightarrow> bit (2 ^ m :: 8 word) n \<longleftrightarrow> n = m"
  by (auto simp: bit_exp_iff)

lemma bm_Set_bits:
  assumes "bm_Set b i = Some b'"
  shows "bm_bits b' = insert i (bm_bits b)"
proof -
  from assms have i: "i < 8 * length b" and
    b': "b' = b[i div 8 := (b ! (i div 8)) OR 2 ^ (i mod 8)]"
    by (auto simp: bm_Set_def Let_def split: if_splits)
  have "j \<in> bm_bits b' \<longleftrightarrow> j \<in> insert i (bm_bits b)" if "j < 8 * length b" for j
    using that i byte_index [of j i]
    by (auto simp: bm_bits_def b' nth_list_update bit_or_iff bit_byte_mask)
  moreover have "j < 8 * length b" if "j \<in> bm_bits b' \<or> j \<in> insert i (bm_bits b)" for j
    using that i by (auto simp: bm_bits_def b')
  ultimately show ?thesis by blast
qed

lemma bm_Unset_bits:
  assumes "bm_Unset b i = Some b'"
  shows "bm_bits b' = bm_bits b - {i}" "length b' = length b"
proof -
  from assms have i: "i < 8 * length b" and
    b': "b' = b[i div 8 := (b ! (i div 8)) AND (2 ^ (i mod 8) XOR 0xff)]"
    by (auto simp: bm_Unset_def Let_def split: if_splits)
  have ff: "bit (0xff :: 8 word) n" if "n < 8" for n
  proof -
    have ff: "(0xff :: 8 word) = mask 8" by (simp add: mask_eq_exp_minus_1)
    show ?thesis unfolding ff using that by (simp add: bit_mask_iff)
  qed
  have "j \<in> bm_bits b' \<longleftrightarrow> j \<in> bm_bits b - {i}" if "j < 8 * length b" for j
    using that i byte_index [of j i] ff [of "j mod 8"]
    by (auto simp: bm_bits_def b' nth_list_update bit_and_iff bit_xor_iff bit_byte_mask)
  moreover have "j < 8 * length b" if "j \<in> bm_bits b' \<or> j \<in> bm_bits b - {i}" for j
    using that i by (auto simp: bm_bits_def b')
  ultimately show "bm_bits b' = bm_bits b - {i}" by blast
  show "length b' = length b" by (simp add: b')
qed

lemma bm_Clear_bits [simp]: "bm_bits (bm_Clear b) = {}"
  by (auto simp: bm_bits_def bm_Clear_def)

lemma bm_Clear_length [simp]: "length (bm_Clear b) = length b"
  by (simp add: bm_Clear_def)

lemma NewBitmap_bits:
  assumes "NewBitmap n = Inr b"
  shows "bm_bits b = {}" "8 * length b = n"
proof -
  from assms have b: "b = replicate (n div 8) 0" and n: "n mod 8 = 0"
    by (auto simp: NewBitmap_def split: if_splits)
  show "bm_bits b = {}" by (auto simp: bm_bits_def b)
  show "8 * length b = n" using n by (simp add: b mod_eq_0_iff_dvd)
qed

lemma NewBitmap_ok: "(\<exists>b. NewBitmap n = Inr b) \<longleftrightarrow> 0 < n \<and> 8 dvd n"
  by (auto simp: NewBitmap_def dvd_eq_mod_eq_0)

text \<open>The scan returns exactly the indexes of the window with the asked value, in order.\<close>

lemma bm_IndexesInRange_eq:
  "bm_IndexesInRange b v i to =
     Some (filter (\<lambda>k. (k \<in> bm_bits b) = v) [i..<min (Suc to) (8 * length b)])"
proof (induction b v i to rule: bm_IndexesInRange.induct)
  case (1 b v i to)
  show ?case
  proof (cases "i \<le> to \<and> i < 8 * length b")
    case True
    then have "[i..<min (Suc to) (8 * length b)] = i # [Suc i..<min (Suc to) (8 * length b)]"
      by (simp add: upt_conv_Cons)
    with True "1" show ?thesis
      by (auto simp: bm_IndexesInRange.simps [of b v i to] bm_Check_eq)
  next
    case False
    then show ?thesis by (auto simp: bm_IndexesInRange.simps [of b v i to])
  qed
qed

section \<open>The finite-set interface\<close>

text \<open>
  What a client may rely on: a check below the capacity reads the set, a store below the
  capacity succeeds, adds the element and keeps the capacity.
\<close>

locale bitset =
  fixes members :: "'b \<Rightarrow> nat set"
    and capacity :: "'b \<Rightarrow> nat"
    and chk :: "'b \<Rightarrow> nat \<Rightarrow> bool option"
    and st :: "'b \<Rightarrow> nat \<Rightarrow> 'b option"
  assumes chk_law: "i < capacity b \<Longrightarrow> chk b i = Some (i \<in> members b)"
    and st_law: "i < capacity b \<Longrightarrow>
      \<exists>b'. st b i = Some b' \<and> members b' = insert i (members b) \<and> capacity b' = capacity b"
begin

text \<open>A read after a write sees the write and nothing else.\<close>

lemma chk_after_st:
  assumes "i < capacity b" "j < capacity b" "st b i = Some b'"
  shows "chk b' j = Some (j = i \<or> j \<in> members b)"
proof -
  from st_law [OF assms(1)] assms(3) have "members b' = insert i (members b)" "capacity b' = capacity b"
    by auto
  with chk_law [of j b'] assms(2) show ?thesis by simp
qed

end

interpretation bm: bitset bm_bits bm_Size bm_Check bm_Set
proof
  fix i b assume "i < bm_Size b"
  then show "bm_Check b i = Some (i \<in> bm_bits b)" by (simp add: bm_Check_eq)
next
  fix i b assume "i < bm_Size b"
  then obtain b' where "bm_Set b i = Some b'" using bm_Set_Some by auto
  then show "\<exists>b'. bm_Set b i = Some b' \<and> bm_bits b' = insert i (bm_bits b) \<and> bm_Size b' = bm_Size b"
    using bm_Set_bits bm_Set_length by auto
qed

end
