(* ===== verification/Resources.thy ===== *)
theory Resources
  imports Prelude
begin

text \<open>
  The resource vectors of \<^verbatim>\<open>nomad/structs/structs.go\<close>: ports, network resources and the
  CPU/memory/disk/IOPS vector that nodes offer and task groups ask for, with the methods the
  scheduler and the plan applier call. Additions wrap around at 64 bits as Go's do. A slice
  is a list (nil and empty slices are not told apart; no method modelled here does) and the
  copies the Go code makes to avoid aliasing are the values themselves.
\<close>

section \<open>Ports and networks\<close>

record port =
  p_Label :: string
  p_Value :: int

record network_resource =
  nr_Device :: string
  nr_CIDR :: string
  nr_IP :: string
  nr_MBits :: int
  nr_ReservedPorts :: "port list"
  nr_DynamicPorts :: "port list"

text \<open>An error of the source that carries a value keeps it; the list is the multierror.\<close>

datatype resource_error =
    MinMBits int | MinCPU int | MinMemoryMB int | MinIOPS int
  | NetworkAt nat "resource_error list"

definition nr_MeetsMinResources :: "network_resource \<Rightarrow> resource_error list" where
  "nr_MeetsMinResources n = (if nr_MBits n < 1 then [MinMBits (nr_MBits n)] else [])"

definition nr_Add :: "network_resource \<Rightarrow> network_resource \<Rightarrow> network_resource" where
  "nr_Add n delta = n\<lparr>
     nr_ReservedPorts :=
       (if length (nr_ReservedPorts delta) > 0 then nr_ReservedPorts n @ nr_ReservedPorts delta
        else nr_ReservedPorts n),
     nr_MBits := wrap64 (nr_MBits n + nr_MBits delta),
     nr_DynamicPorts := nr_DynamicPorts n @ nr_DynamicPorts delta\<rparr>"

definition PortLabels :: "network_resource \<Rightarrow> (string \<rightharpoonup> int)" where
  "PortLabels n =
     (let m = fold (\<lambda>port m. m(p_Label port \<mapsto> p_Value port)) (nr_ReservedPorts n) Map.empty
      in fold (\<lambda>port m. m(p_Label port \<mapsto> p_Value port)) (nr_DynamicPorts n) m)"

text \<open>\<open>Networks.Port\<close>: the first match, reserved ports before dynamic ones, per network.\<close>

fun networks_Port :: "network_resource list \<Rightarrow> string \<Rightarrow> string \<times> int" where
  "networks_Port [] label = ('''', 0)"
| "networks_Port (n # ns) label =
     (case find (\<lambda>p. p_Label p = label) (nr_ReservedPorts n) of
        Some p \<Rightarrow> (nr_IP n, p_Value p)
      | None \<Rightarrow>
          (case find (\<lambda>p. p_Label p = label) (nr_DynamicPorts n) of
             Some p \<Rightarrow> (nr_IP n, p_Value p)
           | None \<Rightarrow> networks_Port ns label))"

section \<open>Resource vectors\<close>

record resources =
  r_CPU :: int
  r_MemoryMB :: int
  r_DiskMB :: int
  r_IOPS :: int
  r_Networks :: "network_resource list"

text \<open>The zero value \<open>new(Resources)\<close>.\<close>

definition zero_resources :: resources where
  "zero_resources = \<lparr>r_CPU = 0, r_MemoryMB = 0, r_DiskMB = 0, r_IOPS = 0, r_Networks = []\<rparr>"

definition DefaultResources :: resources where
  "DefaultResources = zero_resources\<lparr>r_CPU := 100, r_MemoryMB := 10, r_IOPS := 0\<rparr>"

definition DiskInBytes :: "resources \<Rightarrow> int" where
  "DiskInBytes r = wrap64 (r_DiskMB r * (1024 * 1024))"

definition r_Merge :: "resources \<Rightarrow> resources \<Rightarrow> resources" where
  "r_Merge r other = r\<lparr>
     r_CPU := (if r_CPU other \<noteq> 0 then r_CPU other else r_CPU r),
     r_MemoryMB := (if r_MemoryMB other \<noteq> 0 then r_MemoryMB other else r_MemoryMB r),
     r_DiskMB := (if r_DiskMB other \<noteq> 0 then r_DiskMB other else r_DiskMB r),
     r_IOPS := (if r_IOPS other \<noteq> 0 then r_IOPS other else r_IOPS r),
     r_Networks := (if length (r_Networks other) \<noteq> 0 then r_Networks other else r_Networks r)\<rparr>"

definition r_MeetsMinResources :: "resources \<Rightarrow> resource_error list" where
  "r_MeetsMinResources r =
     (if r_CPU r < 20 then [MinCPU (r_CPU r)] else []) @
     (if r_MemoryMB r < 10 then [MinMemoryMB (r_MemoryMB r)] else []) @
     (if r_IOPS r < 0 then [MinIOPS (r_IOPS r)] else []) @
     concat (map (\<lambda>(i, n). let err = nr_MeetsMinResources n
                            in if err \<noteq> [] then [NetworkAt i err] else [])
                 (enumerate 0 (r_Networks r)))"

text \<open>The scan of \<open>NetIndex\<close> from position \<open>idx\<close>; -1 when no device matches.\<close>

fun net_index_from :: "int \<Rightarrow> network_resource list \<Rightarrow> network_resource \<Rightarrow> int" where
  "net_index_from idx [] n = -1"
| "net_index_from idx (net # nets) n =
     (if nr_Device net = nr_Device n then idx else net_index_from (idx + 1) nets n)"

definition NetIndex :: "network_resource list \<Rightarrow> network_resource \<Rightarrow> int" where
  "NetIndex nets n = net_index_from 0 nets n"

definition Superset :: "resources \<Rightarrow> resources \<Rightarrow> bool \<times> string" where
  "Superset r other =
     (if r_CPU r < r_CPU other then (False, ''cpu exhausted'')
      else if r_MemoryMB r < r_MemoryMB other then (False, ''memory exhausted'')
      else if r_DiskMB r < r_DiskMB other then (False, ''disk exhausted'')
      else if r_IOPS r < r_IOPS other then (False, ''iops exhausted'')
      else (True, ''''))"

text \<open>One round of the network loop of \<open>Add\<close>.\<close>

definition add_network :: "network_resource \<Rightarrow> network_resource list \<Rightarrow> network_resource list" where
  "add_network n nets =
     (let idx = NetIndex nets n
      in if idx = -1 then nets @ [n]
         else nets[nat idx := nr_Add (nets ! nat idx) n])"

definition r_Add :: "resources \<Rightarrow> resources option \<Rightarrow> resources" where
  "r_Add r delta =
     (case delta of
        None \<Rightarrow> r
      | Some d \<Rightarrow> r\<lparr>
          r_CPU := wrap64 (r_CPU r + r_CPU d),
          r_MemoryMB := wrap64 (r_MemoryMB r + r_MemoryMB d),
          r_DiskMB := wrap64 (r_DiskMB r + r_DiskMB d),
          r_IOPS := wrap64 (r_IOPS r + r_IOPS d),
          r_Networks := fold add_network (r_Networks d) (r_Networks r)\<rparr>)"

section \<open>Laws\<close>

lemma Superset_iff:
  "fst (Superset r other) \<longleftrightarrow>
     r_CPU other \<le> r_CPU r \<and> r_MemoryMB other \<le> r_MemoryMB r \<and>
     r_DiskMB other \<le> r_DiskMB r \<and> r_IOPS other \<le> r_IOPS r"
  by (auto simp: Superset_def)

lemma Superset_dimension: "snd (Superset r other) = '''' \<longleftrightarrow> fst (Superset r other)"
  by (auto simp: Superset_def)

lemma net_index_from_spec:
  "(net_index_from k nets n = -1 \<and> nr_Device n \<notin> nr_Device ` set nets) \<or>
   (\<exists>i < length nets. net_index_from k nets n = k + int i \<and> nr_Device (nets ! i) = nr_Device n)"
  if "0 \<le> k"
  using that
proof (induction k nets n rule: net_index_from.induct)
  case (1 idx n)
  then show ?case by simp
next
  case (2 idx net nets n)
  show ?case
  proof (cases "nr_Device net = nr_Device n")
    case True
    then show ?thesis by auto
  next
    case False
    with "2.IH" "2.prems" consider
      (a) "net_index_from (idx + 1) nets n = -1" "nr_Device n \<notin> nr_Device ` set nets" |
      (b) i where "i < length nets" "net_index_from (idx + 1) nets n = idx + 1 + int i"
        "nr_Device (nets ! i) = nr_Device n"
      by fastforce
    then show ?thesis
    proof cases
      case a
      with False show ?thesis by auto
    next
      case (b i)
      with False show ?thesis by (intro disjI2 exI [of _ "Suc i"]) auto
    qed
  qed
qed

lemma NetIndex_cases:
  obtains (none) "NetIndex nets n = -1" "nr_Device n \<notin> nr_Device ` set nets"
  | (found) i where "i < length nets" "NetIndex nets n = int i" "nr_Device (nets ! i) = nr_Device n"
  using net_index_from_spec [of 0 nets n] unfolding NetIndex_def by auto

lemma add_network_devices:
  assumes "distinct (map nr_Device nets)"
  shows "distinct (map nr_Device (add_network n nets))"
    "set (map nr_Device (add_network n nets)) = insert (nr_Device n) (set (map nr_Device nets))"
proof -
  have upd: "map nr_Device (nets[i := nr_Add (nets ! i) n]) = map nr_Device nets"
    if "i < length nets" for i
    using that by (simp add: map_update nr_Add_def list_update_same_conv)
  have "distinct (map nr_Device (add_network n nets)) \<and>
    set (map nr_Device (add_network n nets)) = insert (nr_Device n) (set (map nr_Device nets))"
  proof (cases rule: NetIndex_cases [of nets n])
    case none
    with assms show ?thesis by (simp add: add_network_def)
  next
    case (found i)
    then have "add_network n nets = nets[i := nr_Add (nets ! i) n]"
      by (simp add: add_network_def)
    moreover have "nr_Device n \<in> set (map nr_Device nets)"
      using found by (metis length_map nth_map nth_mem)
    ultimately show ?thesis using assms upd [OF found(1)] by (metis insert_absorb)
  qed
  then show "distinct (map nr_Device (add_network n nets))"
    "set (map nr_Device (add_network n nets)) = insert (nr_Device n) (set (map nr_Device nets))"
    by blast+
qed

text \<open>Accumulation keeps one entry per device.\<close>

lemma r_Add_distinct_devices:
  "distinct (map nr_Device (r_Networks r)) \<Longrightarrow> distinct (map nr_Device (r_Networks (r_Add r delta)))"
proof (cases delta)
  case (Some d)
  assume "distinct (map nr_Device (r_Networks r))"
  then have "distinct (map nr_Device (fold add_network ns (r_Networks r)))" for ns
    by (induction ns arbitrary: r rule: rev_induct) (auto simp: add_network_devices)
  with Some show ?thesis by (simp add: r_Add_def)
qed (simp add: r_Add_def)

end
