(* ===== verification/Structs.thy ===== *)
theory Structs
  imports Resources "HOL-Library.AList"
begin

text \<open>
  The domain objects of \<^verbatim>\<open>nomad/structs/structs.go\<close> that the server components exchange:
  jobs and task groups, nodes, allocations, deployments, evaluations and plans, with their
  status methods.

  A pointer that may be nil is an \<open>option\<close>. A map that some component ranges over is an
  association list. Fields that the modelled code only compares with \<open>reflect.DeepEqual\<close>
  (driver configuration, environment, artifacts, templates, Vault block) are canonical
  encodings, so that equality of the encoding is \<open>DeepEqual\<close>. Of the placement failures of an
  evaluation only the task groups are kept. Fields no modelled code reads (metrics, payloads,
  service definitions, log configuration, HTTP address) are left out.
\<close>

type_synonym opaque = string

text \<open>A Go map update on an association list: overwrite in place, or append.\<close>

abbreviation amap_put :: "'k \<Rightarrow> 'v \<Rightarrow> ('k \<times> 'v) list \<Rightarrow> ('k \<times> 'v) list" where
  "amap_put \<equiv> AList.update"

abbreviation amap_del :: "'k \<Rightarrow> ('k \<times> 'v) list \<Rightarrow> ('k \<times> 'v) list" where
  "amap_del \<equiv> AList.delete"

abbreviation amap_get :: "'v \<Rightarrow> ('k \<times> 'v) list \<Rightarrow> 'k \<Rightarrow> 'v" where
  "amap_get zero m k \<equiv> go_get zero (map_of m) k"

lemma go_get_map_of_update [simp]:
  "go_get z (map_of (AList.update k v m)) k' = (if k' = k then v else go_get z (map_of m) k')"
  by (simp add: go_get_def update_conv')

lemma distinct_keys_put [simp]: "distinct (map fst (AList.update k v m)) \<longleftrightarrow> distinct (map fst m)"
  by (induction m) (auto simp: dom_update)

lemma distinct_keys_del [simp]: "distinct (map fst m) \<Longrightarrow> distinct (map fst (AList.delete k m))"
  by (rule distinct_delete)

lemma map_of_put [simp]: "map_of (AList.update k v m) = (map_of m)(k \<mapsto> v)"
  by (rule update_conv')

lemma map_of_del [simp]: "map_of (AList.delete k m) = (map_of m)(k := None)"
  by (rule delete_conv')

lemma mset_keys_put:
  "mset (map fst (AList.update k v m)) =
     (if map_of m k = None then add_mset k (mset (map fst m)) else mset (map fst m))"
  by (induction m) auto

lemma del_absent: "k \<notin> fst ` set m \<Longrightarrow> AList.delete k m = m"
  by (induction m) auto

lemma mset_keys_del:
  "distinct (map fst m) \<Longrightarrow> map_of m k = Some v \<Longrightarrow>
   mset (map fst m) = add_mset k (mset (map fst (AList.delete k m)))"
  by (induction m) (auto simp: del_absent split: if_splits)

lemma mset_vals_put_new:
  "map_of m k = None \<Longrightarrow> mset (map snd (AList.update k v m)) = add_mset v (mset (map snd m))"
  by (induction m) (auto split: if_splits)

lemma mset_vals_put_old:
  "map_of m k = Some w \<Longrightarrow>
   add_mset w (mset (map snd (AList.update k v m))) = add_mset v (mset (map snd m))"
  by (induction m) (auto split: if_splits)

lemma mset_vals_del:
  "distinct (map fst m) \<Longrightarrow> map_of m k = Some v \<Longrightarrow>
   mset (map snd m) = add_mset v (mset (map snd (AList.delete k m)))"
  by (induction m) (auto simp: del_absent split: if_splits)

lemma del_None: "map_of m k = None \<Longrightarrow> AList.delete k m = m"
  by (rule del_absent) (simp add: map_of_eq_None_iff)

text \<open>Queues in a map: all elements together, as a multiset.\<close>

definition contents :: "('k \<times> 'a list) list \<Rightarrow> 'a multiset" where
  "contents m = mset (concat (map snd m))"

lemma contents_Nil [simp]: "contents [] = {#}"
  by (simp add: contents_def)

lemma contents_put:
  "distinct (map fst m) \<Longrightarrow>
   contents (AList.update k v m) + mset (amap_get [] m k) = contents m + mset v"
  by (induction m) (auto simp: contents_def go_get_def union_ac map_of_eq_None_iff [symmetric]
      dest!: map_of_SomeD split: option.splits)

lemma contents_del:
  "distinct (map fst m) \<Longrightarrow>
   contents (AList.delete k m) + mset (amap_get [] m k) = contents m"
proof (induction m)
  case (Cons p m)
  show ?case
  proof (cases "fst p = k")
    case True
    with Cons.prems have "map_of m k = None" by (simp add: map_of_eq_None_iff)
    with True Cons.prems show ?thesis by (simp add: contents_def go_get_def del_absent union_ac)
  next
    case False
    with Cons show ?thesis by (simp add: contents_def go_get_def union_ac)
  qed
qed (simp add: contents_def go_get_def)

lemma amap_get_contents: "set (amap_get [] m k) \<subseteq> set_mset (contents m)"
  by (induction m) (auto simp: contents_def go_get_def split: option.splits if_splits)

lemma amap_get_Some: "map_of m k = Some v \<Longrightarrow> amap_get z m k = v"
  and amap_get_None: "map_of m k = None \<Longrightarrow> amap_get z m k = z"
  by (simp_all add: go_get_def)

lemma in_contents: "distinct (map fst m) \<Longrightarrow> x \<in># contents m \<longleftrightarrow> (\<exists>k es. map_of m k = Some es \<and> x \<in> set es)"
  by (force simp: contents_def)

section \<open>Jobs\<close>

record constraint =
  c_LTarget :: string
  c_RTarget :: string
  c_Operand :: string

record ephemeral_disk =
  ed_Sticky :: bool
  ed_SizeMB :: int
  ed_Migrate :: bool

record update_strategy =
  us_Stagger :: int
  us_MaxParallel :: int
  us_HealthCheck :: string
  us_MinHealthyTime :: int
  us_HealthyDeadline :: int
  us_AutoRevert :: bool
  us_Canary :: int

record task =
  t_Name :: string
  t_Driver :: string
  t_User :: string
  t_Config :: opaque
  t_Env :: opaque
  t_Vault :: opaque
  t_Templates :: opaque
  t_Constraints :: "constraint list"
  t_Resources :: "resources option"
  t_Meta :: "(string \<times> string) list option"
  t_Artifacts :: opaque
  t_Leader :: bool

record task_group =
  tg_Name :: string
  tg_Count :: int
  tg_Update :: "update_strategy option"
  tg_Constraints :: "constraint list"
  tg_Tasks :: "task list"
  tg_EphemeralDisk :: "ephemeral_disk option"
  tg_Meta :: "(string \<times> string) list"

record job =
  j_Stop :: bool
  j_ID :: string
  j_ParentID :: string
  j_Name :: string
  j_Type :: string
  j_Priority :: int
  j_AllAtOnce :: bool
  j_Datacenters :: "string list"
  j_Constraints :: "constraint list"
  j_TaskGroups :: "task_group list"
  j_Meta :: "(string \<times> string) list"
  j_Periodic :: "bool option"
  j_ParameterizedJob :: bool
  j_Status :: string
  j_Stable :: bool
  j_Version :: nat
  j_CreateIndex :: nat
  j_ModifyIndex :: nat
  j_JobModifyIndex :: nat

text \<open>\<open>j_Periodic\<close> is the \<open>Enabled\<close> flag of the periodic block, if there is one.\<close>

definition IsPeriodic :: "job \<Rightarrow> bool" where
  "IsPeriodic j \<longleftrightarrow> j_Periodic j \<noteq> None"

definition IsParameterized :: "job \<Rightarrow> bool" where
  "IsParameterized j \<longleftrightarrow> j_ParameterizedJob j"

definition JobStatusPending :: string where "JobStatusPending = ''pending''"
definition JobStatusRunning :: string where "JobStatusRunning = ''running''"
definition JobStatusDead :: string where "JobStatusDead = ''dead''"

definition JobTypeCore :: string where "JobTypeCore = ''_core''"
definition JobTypeService :: string where "JobTypeService = ''service''"
definition JobTypeBatch :: string where "JobTypeBatch = ''batch''"
definition JobTypeSystem :: string where "JobTypeSystem = ''system''"

definition LookupTaskGroup :: "job \<Rightarrow> string \<Rightarrow> task_group option" where
  "LookupTaskGroup j name = find (\<lambda>tg. tg_Name tg = name) (j_TaskGroups j)"

definition LookupTask :: "task_group \<Rightarrow> string \<Rightarrow> task option" where
  "LookupTask tg name = find (\<lambda>t. t_Name t = name) (tg_Tasks tg)"

definition job_Stopped :: "job option \<Rightarrow> bool" where
  "job_Stopped j = (case j of None \<Rightarrow> True | Some job \<Rightarrow> j_Stop job)"

definition HasUpdateStrategy :: "job \<Rightarrow> bool" where
  "HasUpdateStrategy j = list_ex (\<lambda>tg. tg_Update tg \<noteq> None) (j_TaskGroups j)"

text \<open>Add the entries of an outer scope that the inner ones do not define.\<close>

definition meta_inherit ::
  "(string \<times> string) list \<Rightarrow> (string \<times> string) list \<Rightarrow> (string \<times> string) list" where
  "meta_inherit outer meta =
     fold (\<lambda>(k, v) m. if map_of m k = None then amap_put k v m else m) outer meta"

definition CombinedTaskMeta :: "job \<Rightarrow> string \<Rightarrow> string \<Rightarrow> (string \<times> string) list option" where
  "CombinedTaskMeta j groupName taskName =
     (case LookupTaskGroup j groupName of
        None \<Rightarrow> None
      | Some grp \<Rightarrow>
          (case LookupTask grp taskName of
             None \<Rightarrow> None
           | Some task \<Rightarrow>
               (let meta = (case t_Meta task of None \<Rightarrow> [] | Some m \<Rightarrow> m)
                in Some (meta_inherit (j_Meta j) (meta_inherit (tg_Meta grp) meta)))))"

section \<open>Nodes\<close>

record node =
  n_ID :: string
  n_Datacenter :: string
  n_Name :: string
  n_Attributes :: "(string \<times> string) list"
  n_Resources :: resources
  n_Reserved :: "resources option"
  n_Meta :: "(string \<times> string) list"
  n_NodeClass :: string
  n_ComputedClass :: string
  n_Drain :: bool
  n_Status :: string
  n_CreateIndex :: nat
  n_ModifyIndex :: nat

definition NodeStatusInit :: string where "NodeStatusInit = ''initializing''"
definition NodeStatusReady :: string where "NodeStatusReady = ''ready''"
definition NodeStatusDown :: string where "NodeStatusDown = ''down''"

text \<open>An unknown status panics.\<close>

definition ShouldDrainNode :: "string \<Rightarrow> bool option" where
  "ShouldDrainNode status =
     (if status = NodeStatusInit \<or> status = NodeStatusReady then Some False
      else if status = NodeStatusDown then Some True
      else None)"

definition ValidNodeStatus :: "string \<Rightarrow> bool" where
  "ValidNodeStatus status \<longleftrightarrow>
     status = NodeStatusInit \<or> status = NodeStatusReady \<or> status = NodeStatusDown"

definition node_Ready :: "node \<Rightarrow> bool" where
  "node_Ready n \<longleftrightarrow> n_Status n = NodeStatusReady \<and> \<not> n_Drain n"

definition node_TerminalStatus :: "node \<Rightarrow> bool" where
  "node_TerminalStatus n \<longleftrightarrow> n_Status n = NodeStatusDown"

section \<open>Allocations\<close>

record task_event =
  te_Type :: string
  te_ExitCode :: int

record task_state =
  ts_State :: string
  ts_Failed :: bool
  ts_Events :: "task_event list"

record alloc_deployment_status =
  ads_Healthy :: "bool option"
  ads_ModifyIndex :: nat

record allocation =
  a_ID :: string
  a_EvalID :: string
  a_Name :: string
  a_NodeID :: string
  a_JobID :: string
  a_Job :: "job option"
  a_TaskGroup :: string
  a_Resources :: "resources option"
  a_SharedResources :: "resources option"
  a_TaskResources :: "(string \<times> resources) list option"
  a_DesiredStatus :: string
  a_DesiredDescription :: string
  a_ClientStatus :: string
  a_ClientDescription :: string
  a_TaskStates :: "(string \<times> task_state) list"
  a_PreviousAllocation :: string
  a_DeploymentID :: string
  a_DeploymentStatus :: "alloc_deployment_status option"
  a_CreateIndex :: nat
  a_ModifyIndex :: nat
  a_AllocModifyIndex :: nat
  a_CreateTime :: int

definition AllocDesiredStatusRun :: string where "AllocDesiredStatusRun = ''run''"
definition AllocDesiredStatusStop :: string where "AllocDesiredStatusStop = ''stop''"
definition AllocDesiredStatusEvict :: string where "AllocDesiredStatusEvict = ''evict''"
definition AllocClientStatusPending :: string where "AllocClientStatusPending = ''pending''"
definition AllocClientStatusRunning :: string where "AllocClientStatusRunning = ''running''"
definition AllocClientStatusComplete :: string where "AllocClientStatusComplete = ''complete''"
definition AllocClientStatusFailed :: string where "AllocClientStatusFailed = ''failed''"
definition AllocClientStatusLost :: string where "AllocClientStatusLost = ''lost''"

definition alloc_TerminalStatus :: "allocation \<Rightarrow> bool" where
  "alloc_TerminalStatus a =
     (if a_DesiredStatus a = AllocDesiredStatusStop \<or> a_DesiredStatus a = AllocDesiredStatusEvict
      then True
      else a_ClientStatus a = AllocClientStatusComplete \<or>
           a_ClientStatus a = AllocClientStatusFailed \<or>
           a_ClientStatus a = AllocClientStatusLost)"

definition alloc_Terminated :: "allocation \<Rightarrow> bool" where
  "alloc_Terminated a \<longleftrightarrow>
     a_ClientStatus a = AllocClientStatusFailed \<or>
     a_ClientStatus a = AllocClientStatusComplete \<or>
     a_ClientStatus a = AllocClientStatusLost"

definition TaskStateDead :: string where "TaskStateDead = ''dead''"
definition TaskTerminated :: string where "TaskTerminated = ''Terminated''"

definition task_Successful :: "task_state \<Rightarrow> bool" where
  "task_Successful ts =
     (if ts_State ts \<noteq> TaskStateDead \<or> ts_Events ts = [] then False
      else let e = last (ts_Events ts)
           in if te_Type e \<noteq> TaskTerminated then False else te_ExitCode e = 0)"

definition RanSuccessfully :: "allocation \<Rightarrow> bool" where
  "RanSuccessfully a =
     (if length (a_TaskStates a) = 0 then False
      else fold (\<lambda>(_, state) allSuccess. allSuccess \<and> task_Successful state) (a_TaskStates a) True)"

definition ads_IsHealthy :: "alloc_deployment_status option \<Rightarrow> bool" where
  "ads_IsHealthy a = (case a of None \<Rightarrow> False | Some s \<Rightarrow> ads_Healthy s = Some True)"

definition ads_IsUnhealthy :: "alloc_deployment_status option \<Rightarrow> bool" where
  "ads_IsUnhealthy a = (case a of None \<Rightarrow> False | Some s \<Rightarrow> ads_Healthy s = Some False)"

section \<open>Deployments\<close>

record deployment_state =
  ds_AutoRevert :: bool
  ds_Promoted :: bool
  ds_PlacedCanaries :: "string list"
  ds_DesiredCanaries :: int
  ds_DesiredTotal :: int
  ds_PlacedAllocs :: int
  ds_HealthyAllocs :: int
  ds_UnhealthyAllocs :: int

record deployment =
  d_ID :: string
  d_JobID :: string
  d_JobVersion :: nat
  d_JobModifyIndex :: nat
  d_JobCreateIndex :: nat
  d_TaskGroups :: "(string \<times> deployment_state) list"
  d_Status :: string
  d_StatusDescription :: string
  d_CreateIndex :: nat
  d_ModifyIndex :: nat

record deployment_status_update =
  dsu_DeploymentID :: string
  dsu_Status :: string
  dsu_StatusDescription :: string

definition DeploymentStatusRunning :: string where "DeploymentStatusRunning = ''running''"
definition DeploymentStatusPaused :: string where "DeploymentStatusPaused = ''paused''"
definition DeploymentStatusFailed :: string where "DeploymentStatusFailed = ''failed''"
definition DeploymentStatusSuccessful :: string where "DeploymentStatusSuccessful = ''successful''"
definition DeploymentStatusCancelled :: string where "DeploymentStatusCancelled = ''cancelled''"

text \<open>\<open>uuid\<close> is the value \<open>GenerateUUID\<close> returned.\<close>

definition NewDeployment :: "string \<Rightarrow> job \<Rightarrow> deployment" where
  "NewDeployment uuid job = \<lparr>
     d_ID = uuid, d_JobID = j_ID job, d_JobVersion = j_Version job,
     d_JobModifyIndex = j_ModifyIndex job, d_JobCreateIndex = j_CreateIndex job,
     d_TaskGroups = [], d_Status = DeploymentStatusRunning,
     d_StatusDescription = ''Deployment is running'', d_CreateIndex = 0, d_ModifyIndex = 0\<rparr>"

definition deployment_Active :: "deployment \<Rightarrow> bool" where
  "deployment_Active d \<longleftrightarrow>
     d_Status d = DeploymentStatusRunning \<or> d_Status d = DeploymentStatusPaused"

definition deployment_GetID :: "deployment option \<Rightarrow> string" where
  "deployment_GetID d = (case d of None \<Rightarrow> '''' | Some d \<Rightarrow> d_ID d)"

definition HasPlacedCanaries :: "deployment option \<Rightarrow> bool" where
  "HasPlacedCanaries d =
     (case d of
        None \<Rightarrow> False
      | Some d \<Rightarrow> list_ex (\<lambda>(_, grp). length (ds_PlacedCanaries grp) \<noteq> 0) (d_TaskGroups d))"

definition RequiresPromotion :: "deployment option \<Rightarrow> bool" where
  "RequiresPromotion d =
     (case d of
        None \<Rightarrow> False
      | Some d \<Rightarrow>
          if d_Status d \<noteq> DeploymentStatusRunning then False
          else list_ex (\<lambda>(_, grp). ds_DesiredCanaries grp > 0 \<and> \<not> ds_Promoted grp)
                 (d_TaskGroups d))"

section \<open>Evaluations\<close>

record evaluation =
  ev_ID :: string
  ev_Priority :: int
  ev_Type :: string
  ev_TriggeredBy :: string
  ev_JobID :: string
  ev_JobModifyIndex :: nat
  ev_NodeID :: string
  ev_NodeModifyIndex :: nat
  ev_DeploymentID :: string
  ev_Status :: string
  ev_StatusDescription :: string
  ev_Wait :: int
  ev_NextEval :: string
  ev_PreviousEval :: string
  ev_BlockedEval :: string
  ev_FailedTGAllocs :: "string list"
  ev_ClassEligibility :: "(string \<times> bool) list"
  ev_EscapedComputedClass :: bool
  ev_AnnotatePlan :: bool
  ev_QueuedAllocations :: "(string \<times> int) list"
  ev_SnapshotIndex :: nat
  ev_CreateIndex :: nat
  ev_ModifyIndex :: nat

definition EvalStatusBlocked :: string where "EvalStatusBlocked = ''blocked''"
definition EvalStatusPending :: string where "EvalStatusPending = ''pending''"
definition EvalStatusComplete :: string where "EvalStatusComplete = ''complete''"
definition EvalStatusFailed :: string where "EvalStatusFailed = ''failed''"
definition EvalStatusCancelled :: string where "EvalStatusCancelled = ''canceled''"
definition EvalTriggerMaxPlans :: string where "EvalTriggerMaxPlans = ''max-plan-attempts''"

definition eval_TerminalStatus :: "evaluation \<Rightarrow> bool" where
  "eval_TerminalStatus e \<longleftrightarrow>
     ev_Status e = EvalStatusComplete \<or> ev_Status e = EvalStatusFailed \<or>
     ev_Status e = EvalStatusCancelled"

definition ShouldEnqueue :: "evaluation \<Rightarrow> bool option" where
  "ShouldEnqueue e =
     (if ev_Status e = EvalStatusPending then Some True
      else if ev_Status e \<in> {EvalStatusComplete, EvalStatusFailed, EvalStatusBlocked, EvalStatusCancelled}
      then Some False
      else None)"

definition ShouldBlock :: "evaluation \<Rightarrow> bool option" where
  "ShouldBlock e =
     (if ev_Status e = EvalStatusBlocked then Some True
      else if ev_Status e \<in> {EvalStatusComplete, EvalStatusFailed, EvalStatusPending, EvalStatusCancelled}
      then Some False
      else None)"

section \<open>Plans\<close>

record plan =
  pl_EvalID :: string
  pl_EvalToken :: string
  pl_Priority :: int
  pl_AllAtOnce :: bool
  pl_Job :: "job option"
  pl_NodeUpdate :: "(string \<times> allocation list) list"
  pl_NodeAllocation :: "(string \<times> allocation list) list"
  pl_Deployment :: "deployment option"
  pl_DeploymentUpdates :: "deployment_status_update list"

text \<open>The maps of a result may be nil: a gang plan that does not fit clears them.\<close>

record plan_result =
  pr_NodeUpdate :: "(string \<times> allocation list) list option"
  pr_NodeAllocation :: "(string \<times> allocation list) list option"
  pr_Deployment :: "deployment option"
  pr_DeploymentUpdates :: "deployment_status_update list"
  pr_RefreshIndex :: nat
  pr_AllocIndex :: nat

definition MakePlan :: "evaluation \<Rightarrow> job option \<Rightarrow> plan" where
  "MakePlan e j = \<lparr>
     pl_EvalID = ev_ID e, pl_EvalToken = '''', pl_Priority = ev_Priority e,
     pl_AllAtOnce = (case j of None \<Rightarrow> False | Some job \<Rightarrow> j_AllAtOnce job),
     pl_Job = j, pl_NodeUpdate = [], pl_NodeAllocation = [], pl_Deployment = None,
     pl_DeploymentUpdates = []\<rparr>"

definition AppendUpdate ::
  "plan \<Rightarrow> allocation \<Rightarrow> string \<Rightarrow> string \<Rightarrow> string \<Rightarrow> plan" where
  "AppendUpdate p alloc desiredStatus desiredDesc clientStatus =
     (let p1 = (if pl_Job p = None \<and> a_Job alloc \<noteq> None then p\<lparr>pl_Job := a_Job alloc\<rparr> else p);
          newAlloc = alloc\<lparr>a_Job := None, a_Resources := None,
            a_DesiredStatus := desiredStatus, a_DesiredDescription := desiredDesc,
            a_ClientStatus := (if clientStatus \<noteq> '''' then clientStatus else a_ClientStatus alloc)\<rparr>;
          node = a_NodeID alloc;
          existing = amap_get [] (pl_NodeUpdate p1) node
      in p1\<lparr>pl_NodeUpdate := amap_put node (existing @ [newAlloc]) (pl_NodeUpdate p1)\<rparr>)"

definition PopUpdate :: "plan \<Rightarrow> allocation \<Rightarrow> plan" where
  "PopUpdate p alloc =
     (let existing = amap_get [] (pl_NodeUpdate p) (a_NodeID alloc); n = length existing
      in if n > 0 \<and> a_ID (existing ! (n - 1)) = a_ID alloc
         then let existing' = take (n - 1) existing
              in if length existing' > 0
                 then p\<lparr>pl_NodeUpdate := amap_put (a_NodeID alloc) existing' (pl_NodeUpdate p)\<rparr>
                 else p\<lparr>pl_NodeUpdate := amap_del (a_NodeID alloc) (pl_NodeUpdate p)\<rparr>
         else p)"

definition AppendAlloc :: "plan \<Rightarrow> allocation \<Rightarrow> plan" where
  "AppendAlloc p alloc =
     (let node = a_NodeID alloc; existing = amap_get [] (pl_NodeAllocation p) node
      in p\<lparr>pl_NodeAllocation := amap_put node (existing @ [alloc]) (pl_NodeAllocation p)\<rparr>)"

definition plan_IsNoOp :: "plan \<Rightarrow> bool" where
  "plan_IsNoOp p \<longleftrightarrow> pl_NodeUpdate p = [] \<and> pl_NodeAllocation p = [] \<and>
     pl_Deployment p = None \<and> pl_DeploymentUpdates p = []"

text \<open>Ranging over, or taking the length of, a nil map sees no entries.\<close>

abbreviation entries :: "('k \<times> 'v) list option \<Rightarrow> ('k \<times> 'v) list" where
  "entries m \<equiv> (case m of None \<Rightarrow> [] | Some es \<Rightarrow> es)"

definition result_IsNoOp :: "plan_result \<Rightarrow> bool" where
  "result_IsNoOp p \<longleftrightarrow> entries (pr_NodeUpdate p) = [] \<and> entries (pr_NodeAllocation p) = [] \<and>
     pr_DeploymentUpdates p = [] \<and> pr_Deployment p = None"

definition FullCommit :: "plan_result \<Rightarrow> plan \<Rightarrow> bool \<times> nat \<times> nat" where
  "FullCommit p plan =
     (let (expected, actual) =
        fold (\<lambda>(name, allocList) (expected, actual).
                (expected + length allocList,
                 actual + length (amap_get [] (entries (pr_NodeAllocation p)) name)))
             (pl_NodeAllocation plan) (0, 0)
      in (actual = expected, expected, actual))"

section \<open>Zero values\<close>

text \<open>The Go zero value of each struct, as a base for concrete inputs.\<close>

definition zero_task :: task where
  "zero_task = \<lparr>t_Name = '''', t_Driver = '''', t_User = '''', t_Config = '''', t_Env = '''', t_Vault = '''',
     t_Templates = '''', t_Constraints = [], t_Resources = None, t_Meta = None,
     t_Artifacts = '''', t_Leader = False\<rparr>"

definition zero_task_group :: task_group where
  "zero_task_group = \<lparr>tg_Name = '''', tg_Count = 0, tg_Update = None, tg_Constraints = [], tg_Tasks = [],
     tg_EphemeralDisk = None, tg_Meta = []\<rparr>"

definition zero_job :: job where
  "zero_job = \<lparr>j_Stop = False, j_ID = '''', j_ParentID = '''', j_Name = '''', j_Type = '''', j_Priority = 0,
     j_AllAtOnce = False, j_Datacenters = [], j_Constraints = [], j_TaskGroups = [], j_Meta = [],
     j_Periodic = None, j_ParameterizedJob = False, j_Status = '''', j_Stable = False, j_Version = 0, j_CreateIndex = 0, j_ModifyIndex = 0, j_JobModifyIndex = 0\<rparr>"

definition zero_node :: node where
  "zero_node = \<lparr>n_ID = '''', n_Datacenter = '''', n_Name = '''', n_Attributes = [],
     n_Resources = zero_resources, n_Reserved = None, n_Meta = [], n_NodeClass = '''',
     n_ComputedClass = '''', n_Drain = False, n_Status = '''', n_CreateIndex = 0, n_ModifyIndex = 0\<rparr>"

definition zero_alloc :: allocation where
  "zero_alloc = \<lparr>a_ID = '''', a_EvalID = '''', a_Name = '''', a_NodeID = '''', a_JobID = '''', a_Job = None,
     a_TaskGroup = '''', a_Resources = None, a_SharedResources = None, a_TaskResources = None,
     a_DesiredStatus = '''', a_DesiredDescription = '''', a_ClientStatus = '''', a_ClientDescription = '''', a_TaskStates = [],
     a_PreviousAllocation = '''', a_DeploymentID = '''', a_DeploymentStatus = None,
     a_CreateIndex = 0, a_ModifyIndex = 0, a_AllocModifyIndex = 0, a_CreateTime = 0\<rparr>"

definition zero_eval :: evaluation where
  "zero_eval = \<lparr>ev_ID = '''', ev_Priority = 0, ev_Type = '''', ev_TriggeredBy = '''', ev_JobID = '''',
     ev_JobModifyIndex = 0, ev_NodeID = '''', ev_NodeModifyIndex = 0, ev_DeploymentID = '''',
     ev_Status = '''', ev_StatusDescription = '''', ev_Wait = 0, ev_NextEval = '''', ev_PreviousEval = '''', ev_BlockedEval = '''', ev_FailedTGAllocs = [],
     ev_ClassEligibility = [], ev_EscapedComputedClass = False, ev_AnnotatePlan = False, ev_QueuedAllocations = [],
     ev_SnapshotIndex = 0, ev_CreateIndex = 0, ev_ModifyIndex = 0\<rparr>"

definition zero_plan :: plan where
  "zero_plan = \<lparr>pl_EvalID = '''', pl_EvalToken = '''', pl_Priority = 0, pl_AllAtOnce = False, pl_Job = None,
     pl_NodeUpdate = [], pl_NodeAllocation = [], pl_Deployment = None, pl_DeploymentUpdates = []\<rparr>"

definition zero_network :: network_resource where
  "zero_network = \<lparr>nr_Device = '''', nr_CIDR = '''', nr_IP = '''', nr_MBits = 0, nr_ReservedPorts = [],
     nr_DynamicPorts = []\<rparr>"

end
