(* ===== verification/Network.thy ===== *)
theory Network
  imports Structs Bitmap
begin

text \<open>
  \<^verbatim>\<open>nomad/structs/network.go\<close>: the index of a node's networks, with the ports in use per IP
  and the bandwidth in use per device, and the assignment of reserved and dynamic ports to
  an ask.

  The run-time environment is explicit. \<open>bitmapPool.Get\<close> may return any pooled bitmap or
  nothing: the results it gives are a list that each call consumes. \<open>rand.Intn\<close> is a list of
  numbers reduced modulo the bound, so every outcome is some list. \<open>net.ParseCIDR\<close> and
  \<open>IP.String\<close> are arguments; the byte-level masking, containment and increment of addresses
  are modelled.
\<close>

section \<open>Constants and state\<close>

definition MinDynamicPort :: nat where "MinDynamicPort = 20000"
definition MaxDynamicPort :: nat where "MaxDynamicPort = 60000"
definition maxRandPortAttempts :: nat where "maxRandPortAttempts = 20"
definition maxValidPort :: nat where "maxValidPort = 65536"

record network_index =
  ni_AvailNetworks :: "network_resource list"
  ni_AvailBandwidth :: "(string \<times> int) list"
  ni_UsedPorts :: "(string \<times> bitmap) list"
  ni_UsedBandwidth :: "(string \<times> int) list"

definition NewNetworkIndex :: network_index where
  "NewNetworkIndex = \<lparr>ni_AvailNetworks = [], ni_AvailBandwidth = [], ni_UsedPorts = [],
     ni_UsedBandwidth = []\<rparr>"

type_synonym pool = "bitmap option list"

definition pool_Get :: "pool \<Rightarrow> bitmap option \<times> pool" where
  "pool_Get gets = (case gets of [] \<Rightarrow> (None, []) | g # gs \<Rightarrow> (g, gs))"

text \<open>\<open>Release\<close> puts every bitmap of the index into the pool.\<close>

definition ni_Release :: "network_index \<Rightarrow> bitmap list" where
  "ni_Release idx = map snd (ni_UsedPorts idx)"

definition Overcommitted :: "network_index \<Rightarrow> bool" where
  "Overcommitted idx =
     list_ex (\<lambda>(device, used). used > amap_get 0 (ni_AvailBandwidth idx) device) (ni_UsedBandwidth idx)"

section \<open>Recording use\<close>

text \<open>
  The port loop of \<open>AddReserved\<close>: the bitmap, whether a port collided, and whether the loop
  returned early at an invalid port.
\<close>

fun mark_ports ::
  "('b \<Rightarrow> nat \<Rightarrow> bool option) \<Rightarrow> ('b \<Rightarrow> nat \<Rightarrow> 'b option) \<Rightarrow> int list \<Rightarrow> 'b \<Rightarrow> bool \<Rightarrow>
   ('b \<times> bool \<times> bool) option" where
  "mark_ports chk st [] used collide = Some (used, collide, False)"
| "mark_ports chk st (v # vs) used collide =
     (if v < 0 \<or> v \<ge> int maxValidPort then Some (used, True, True)
      else case chk used (nat v) of
             None \<Rightarrow> None
           | Some True \<Rightarrow> mark_ports chk st vs used True
           | Some False \<Rightarrow>
               (case st used (nat v) of
                  None \<Rightarrow> None
                | Some used' \<Rightarrow> mark_ports chk st vs used' collide))"

text \<open>The bitmap of an IP: the one in the index, else a cleared pooled one, else a new one.\<close>

definition used_bitmap :: "network_index \<Rightarrow> string \<Rightarrow> pool \<Rightarrow> bitmap \<times> pool" where
  "used_bitmap idx ip gets =
     (case map_of (ni_UsedPorts idx) ip of
        Some used \<Rightarrow> (used, gets)
      | None \<Rightarrow>
          (case pool_Get gets of
             (Some raw, gets') \<Rightarrow> (bm_Clear raw, gets')
           | (None, gets') \<Rightarrow>
               (case NewBitmap maxValidPort of Inr b \<Rightarrow> (b, gets') | Inl _ \<Rightarrow> ([], gets'))))"

definition port_values :: "network_resource \<Rightarrow> int list" where
  "port_values n = map p_Value (nr_ReservedPorts n @ nr_DynamicPorts n)"

definition AddReserved ::
  "network_index \<Rightarrow> network_resource \<Rightarrow> pool \<Rightarrow> (network_index \<times> bool \<times> pool) option" where
  "AddReserved idx n gets =
     (let (used, gets') = used_bitmap idx (nr_IP n) gets in
      case mark_ports bm_Check bm_Set (port_values n) used False of
        None \<Rightarrow> None
      | Some (used', collide, returned) \<Rightarrow>
          (let idx' = idx\<lparr>ni_UsedPorts := amap_put (nr_IP n) used' (ni_UsedPorts idx)\<rparr>
           in if returned then Some (idx', True, gets')
              else Some (idx'\<lparr>ni_UsedBandwidth :=
                     amap_put (nr_Device n)
                       (wrap64 (amap_get 0 (ni_UsedBandwidth idx) (nr_Device n) + nr_MBits n))
                       (ni_UsedBandwidth idx)\<rparr>, collide, gets')))"

text \<open>\<open>if idx.AddReserved(n) { collide = true }\<close> over a list of networks.\<close>

fun reserve_all ::
  "network_resource list \<Rightarrow> network_index \<Rightarrow> bool \<Rightarrow> pool \<Rightarrow> (network_index \<times> bool \<times> pool) option" where
  "reserve_all [] idx collide gets = Some (idx, collide, gets)"
| "reserve_all (n # ns) idx collide gets =
     (case AddReserved idx n gets of
        None \<Rightarrow> None
      | Some (idx', c, gets') \<Rightarrow> reserve_all ns idx' (if c then True else collide) gets')"

definition SetNode ::
  "network_index \<Rightarrow> node \<Rightarrow> pool \<Rightarrow> (network_index \<times> bool \<times> pool) option" where
  "SetNode idx node gets =
     (let avail = filter (\<lambda>n. nr_Device n \<noteq> '''') (r_Networks (n_Resources node));
          idx' = idx\<lparr>ni_AvailNetworks := ni_AvailNetworks idx @ avail,
            ni_AvailBandwidth :=
              fold (\<lambda>n. amap_put (nr_Device n) (nr_MBits n)) avail (ni_AvailBandwidth idx)\<rparr>
      in case n_Reserved node of
           None \<Rightarrow> Some (idx', False, gets)
         | Some r \<Rightarrow> reserve_all (r_Networks r) idx' False gets)"

text \<open>The networks \<open>AddAllocs\<close> records: the first of every task that has one.\<close>

definition alloc_networks :: "allocation \<Rightarrow> network_resource list" where
  "alloc_networks alloc =
     concat (map (\<lambda>(_, task). case r_Networks task of [] \<Rightarrow> [] | n # _ \<Rightarrow> [n])
                 (entries (a_TaskResources alloc)))"

definition AddAllocs ::
  "network_index \<Rightarrow> allocation list \<Rightarrow> pool \<Rightarrow> (network_index \<times> bool \<times> pool) option" where
  "AddAllocs idx allocs gets = reserve_all (concat (map alloc_networks allocs)) idx False gets"

section \<open>Addresses\<close>

type_synonym ip = "8 word list"

fun inc_rev :: "ip \<Rightarrow> ip" where
  "inc_rev [] = []"
| "inc_rev (b # bs) = (let b' = b + 1 in if b' > 0 then b' # bs else b' # inc_rev bs)"

definition ip_inc :: "ip \<Rightarrow> ip" where
  "ip_inc ip = rev (inc_rev (rev ip))"

definition ip_To4 :: "ip \<Rightarrow> ip" where
  "ip_To4 ip = (if length ip = 16 \<and> take 12 ip = replicate 10 0 @ [0xff, 0xff] then drop 12 ip else ip)"

text \<open>\<open>IPNet.Contains\<close> for the network number and mask that \<open>ParseCIDR\<close> returned.\<close>

definition ip_contains :: "ip \<Rightarrow> ip \<Rightarrow> ip \<Rightarrow> bool" where
  "ip_contains net msk ip =
     (let nn = ip_To4 net; m = (if length msk = 16 \<and> length nn = 4 then drop 12 msk else msk);
          x = ip_To4 ip
      in length m = length nn \<and> length x = length nn \<and>
         list_all2 (\<lambda>(a, m) b. a AND m = b AND m) (zip nn m) x)"

partial_function (option) yield_ips ::
  "(ip \<Rightarrow> 's \<Rightarrow> ('s \<times> bool) option) \<Rightarrow> ip \<Rightarrow> ip \<Rightarrow> ip \<Rightarrow> 's \<Rightarrow> ('s \<times> bool) option" where
  "yield_ips cb net msk ip s =
     (if ip_contains net msk ip
      then Option.bind (cb ip s)
             (\<lambda>(s', stop). if stop then Some (s', True) else yield_ips cb net msk (ip_inc ip) s')
      else Some (s, False))"

fun yieldIP ::
  "(string \<Rightarrow> (ip \<times> ip) option) \<Rightarrow> (network_resource \<Rightarrow> ip \<Rightarrow> 's \<Rightarrow> ('s \<times> bool) option) \<Rightarrow>
   network_resource list \<Rightarrow> 's \<Rightarrow> 's option" where
  "yieldIP parseCIDR cb [] s = Some s"
| "yieldIP parseCIDR cb (n # ns) s =
     (case parseCIDR (nr_CIDR n) of
        None \<Rightarrow> yieldIP parseCIDR cb ns s
      | Some (net, msk) \<Rightarrow>
          Option.bind (yield_ips (cb n) net msk net s)
            (\<lambda>(s', stop). if stop then Some s' else yieldIP parseCIDR cb ns s'))"

section \<open>Dynamic ports\<close>

datatype network_error =
    NoNetworksAvailable | BandwidthExceeded | InvalidPort int | ReservedPortCollision
  | DynamicPortSelectionFailed | StochasticSelectionFailed | BitmapFailed bitmap_error

type_synonym rnd = "nat list"

definition Intn :: "nat \<Rightarrow> rnd \<Rightarrow> nat \<times> rnd" where
  "Intn n r = (case r of [] \<Rightarrow> (0, []) | x # xs \<Rightarrow> (x mod n, xs))"

definition isPortReserved :: "int list \<Rightarrow> int \<Rightarrow> bool" where
  "isPortReserved haystack needle = list_ex (\<lambda>item. item = needle) haystack"

text \<open>Check a port in a bitmap that may be nil.\<close>

definition used_Check :: "bitmap option \<Rightarrow> int \<Rightarrow> bool option" where
  "used_Check nodeUsed v =
     (case nodeUsed of
        None \<Rightarrow> Some False
      | Some b \<Rightarrow> if v < 0 then None else bm_Check b (nat v))"

text \<open>The \<open>PICK\<close> loop, with the attempts that are left.\<close>

fun pick_port ::
  "bitmap option \<Rightarrow> int list \<Rightarrow> int list \<Rightarrow> nat \<Rightarrow> rnd \<Rightarrow> (int option \<times> rnd) option" where
  "pick_port nodeUsed reserved dynamic 0 r = Some (None, r)"
| "pick_port nodeUsed reserved dynamic (Suc attempts) r =
     (let (x, r') = Intn (MaxDynamicPort - MinDynamicPort) r; randPort = int (MinDynamicPort + x)
      in case used_Check nodeUsed randPort of
           None \<Rightarrow> None
         | Some True \<Rightarrow> pick_port nodeUsed reserved dynamic attempts r'
         | Some False \<Rightarrow>
             if isPortReserved reserved randPort \<or> isPortReserved dynamic randPort
             then pick_port nodeUsed reserved dynamic attempts r'
             else Some (Some randPort, r'))"

fun pick_ports ::
  "bitmap option \<Rightarrow> int list \<Rightarrow> nat \<Rightarrow> int list \<Rightarrow> rnd \<Rightarrow> ((network_error + int list) \<times> rnd) option" where
  "pick_ports nodeUsed reserved 0 dynamic r = Some (Inr dynamic, r)"
| "pick_ports nodeUsed reserved (Suc n) dynamic r =
     (case pick_port nodeUsed reserved dynamic maxRandPortAttempts r of
        None \<Rightarrow> None
      | Some (None, r') \<Rightarrow> Some (Inl StochasticSelectionFailed, r')
      | Some (Some randPort, r') \<Rightarrow> pick_ports nodeUsed reserved n (dynamic @ [randPort]) r')"

definition getDynamicPortsStochastic ::
  "bitmap option \<Rightarrow> network_resource \<Rightarrow> rnd \<Rightarrow> ((network_error + int list) \<times> rnd) option" where
  "getDynamicPortsStochastic nodeUsed ask r =
     pick_ports nodeUsed (map p_Value (nr_ReservedPorts ask)) (length (nr_DynamicPorts ask)) [] r"

text \<open>Reserve the asked static ports in the copy of the bitmap.\<close>

fun set_ports :: "port list \<Rightarrow> bitmap \<Rightarrow> bitmap option" where
  "set_ports [] b = Some b"
| "set_ports (p # ps) b =
     (if p_Value p < 0 then None
      else case bm_Set b (nat (p_Value p)) of None \<Rightarrow> None | Some b' \<Rightarrow> set_ports ps b')"

text \<open>\<open>for i := 0; i < numDyn; i++\<close>: swap cell \<open>i\<close> with a random one; \<open>n\<close> rounds are left.\<close>

fun shuffle_prefix :: "nat \<Rightarrow> nat \<Rightarrow> 'a list \<Rightarrow> rnd \<Rightarrow> 'a list \<times> rnd" where
  "shuffle_prefix i 0 xs r = (xs, r)"
| "shuffle_prefix i (Suc n) xs r =
     (let (j, r') = Intn (length xs) r in shuffle_prefix (Suc i) n (swap xs i j) r')"

definition getDynamicPortsPrecise ::
  "bitmap option \<Rightarrow> network_resource \<Rightarrow> rnd \<Rightarrow> ((network_error + int list) \<times> rnd) option" where
  "getDynamicPortsPrecise nodeUsed ask r =
     (case (case nodeUsed of None \<Rightarrow> NewBitmap maxValidPort | Some b \<Rightarrow> bm_Copy (Some b)) of
        Inl e \<Rightarrow> Some (Inl (BitmapFailed e), r)
      | Inr usedSet \<Rightarrow>
          Option.bind (set_ports (nr_ReservedPorts ask) usedSet) (\<lambda>usedSet'.
          Option.bind (bm_IndexesInRange usedSet' False MinDynamicPort MaxDynamicPort) (\<lambda>availablePorts.
            let numDyn = length (nr_DynamicPorts ask) in
            if length availablePorts < numDyn then Some (Inl DynamicPortSelectionFailed, r)
            else let (ports, r') = shuffle_prefix 0 numDyn availablePorts r
                 in Some (Inr (map int (take numDyn ports)), r'))))"

section \<open>Assignment\<close>

fun check_reserved :: "bitmap option \<Rightarrow> port list \<Rightarrow> network_error option option" where
  "check_reserved used [] = Some None"
| "check_reserved used (p # ps) =
     (if p_Value p < 0 \<or> p_Value p \<ge> int maxValidPort then Some (Some (InvalidPort (p_Value p)))
      else case used_Check used (p_Value p) of
             None \<Rightarrow> None
           | Some True \<Rightarrow> Some (Some ReservedPortCollision)
           | Some False \<Rightarrow> check_reserved used ps)"

definition assign_values :: "port list \<Rightarrow> int list \<Rightarrow> port list" where
  "assign_values ports vs = map2 (\<lambda>p v. p\<lparr>p_Value := v\<rparr>) ports vs"

text \<open>The callback of \<open>AssignNetwork\<close> on one network and address: an offer or an error.\<close>

definition try_address ::
  "(ip \<Rightarrow> string) \<Rightarrow> network_index \<Rightarrow> network_resource \<Rightarrow> network_resource \<Rightarrow> ip \<Rightarrow> rnd \<Rightarrow>
   ((network_error + network_resource) \<times> rnd) option" where
  "try_address ipString idx ask n ip r =
     (let ipStr = ipString ip;
          availBandwidth = amap_get 0 (ni_AvailBandwidth idx) (nr_Device n);
          usedBandwidth = amap_get 0 (ni_UsedBandwidth idx) (nr_Device n)
      in if wrap64 (usedBandwidth + nr_MBits ask) > availBandwidth
         then Some (Inl BandwidthExceeded, r)
         else
           let used = map_of (ni_UsedPorts idx) ipStr in
           case check_reserved used (nr_ReservedPorts ask) of
             None \<Rightarrow> None
           | Some (Some e) \<Rightarrow> Some (Inl e, r)
           | Some None \<Rightarrow>
               (let offer = (\<lambda>dynPorts. \<lparr>nr_Device = nr_Device n, nr_CIDR = '''', nr_IP = ipStr,
                   nr_MBits = nr_MBits ask, nr_ReservedPorts = nr_ReservedPorts ask,
                   nr_DynamicPorts = assign_values (nr_DynamicPorts ask) dynPorts\<rparr>)
                in case getDynamicPortsStochastic used ask r of
                     None \<Rightarrow> None
                   | Some (Inr dynPorts, r1) \<Rightarrow> Some (Inr (offer dynPorts), r1)
                   | Some (Inl _, r1) \<Rightarrow>
                       (case getDynamicPortsPrecise used ask r1 of
                          None \<Rightarrow> None
                        | Some (Inr dynPorts, r2) \<Rightarrow> Some (Inr (offer dynPorts), r2)
                        | Some (Inl e, r2) \<Rightarrow> Some (Inl e, r2))))"

text \<open>The closure's state: the result so far (an error or the offer) and the random numbers.\<close>

definition assign_cb ::
  "(ip \<Rightarrow> string) \<Rightarrow> network_index \<Rightarrow> network_resource \<Rightarrow> network_resource \<Rightarrow> ip \<Rightarrow>
   (network_error + network_resource) \<times> rnd \<Rightarrow>
   (((network_error + network_resource) \<times> rnd) \<times> bool) option" where
  "assign_cb ipString idx ask n ip s =
     map_option (\<lambda>(res, r). ((res, r), case res of Inl _ \<Rightarrow> False | Inr _ \<Rightarrow> True))
       (try_address ipString idx ask n ip (snd s))"

text \<open>
  The offer shares its dynamic-port slice with the ask, so a successful assignment also
  writes the chosen values into the ask; the third component is the ask afterwards.
\<close>

definition AssignNetwork ::
  "(string \<Rightarrow> (ip \<times> ip) option) \<Rightarrow> (ip \<Rightarrow> string) \<Rightarrow> network_index \<Rightarrow> network_resource \<Rightarrow> rnd \<Rightarrow>
   ((network_error + network_resource) \<times> network_resource \<times> rnd) option" where
  "AssignNetwork parseCIDR ipString idx ask r =
     map_option (\<lambda>(res, r'). (res,
         (case res of Inl _ \<Rightarrow> ask
          | Inr offer \<Rightarrow> ask\<lparr>nr_DynamicPorts := nr_DynamicPorts offer\<rparr>), r'))
       (yieldIP parseCIDR (assign_cb ipString idx ask) (ni_AvailNetworks idx)
          (Inl NoNetworksAvailable, r))"

section \<open>Recording use: laws\<close>

definition valid_port :: "int \<Rightarrow> bool" where
  "valid_port v \<longleftrightarrow> 0 \<le> v \<and> v < int maxValidPort"

text \<open>A list of ports cannot be added to a set of used ports without a collision.\<close>

definition collides :: "nat set \<Rightarrow> int list \<Rightarrow> bool" where
  "collides U vs \<longleftrightarrow> \<not> list_all valid_port vs \<or> \<not> distinct vs \<or> nat ` set vs \<inter> U \<noteq> {}"

lemma collides_Nil [simp]: "\<not> collides U []"
  by (simp add: collides_def)

lemma collides_append: "collides U (vs @ ws) \<longleftrightarrow> collides U vs \<or> collides (U \<union> nat ` set vs) ws"
proof (cases "list_all valid_port vs \<and> list_all valid_port ws")
  case True
  then have "\<forall>v \<in> set vs \<union> set ws. 0 \<le> v" by (auto simp: valid_port_def list_all_iff)
  then have "inj_on nat (set vs \<union> set ws)" by (metis eq_nat_nat_iff inj_onI)
  then have "nat ` set vs \<inter> nat ` set ws = nat ` (set vs \<inter> set ws)"
    by (metis inj_on_image_Int sup_ge1 sup_ge2)
  with True show ?thesis by (auto simp: collides_def)
next
  case False
  then show ?thesis by (auto simp: collides_def)
qed

lemma collides_Cons:
  "valid_port v \<Longrightarrow> collides U (v # vs) \<longleftrightarrow> nat v \<in> U \<or> collides (insert (nat v) U) vs"
  using collides_append [of U "[v]" vs] by (auto simp: collides_def)

context bitset
begin

text \<open>The port loop against the abstract set: it never panics, and it tells collisions exactly.\<close>

lemma mark_ports_spec:
  assumes "capacity used = maxValidPort"
  shows "\<exists>used' c ret. mark_ports chk st vs used collide = Some (used', c, ret) \<and>
    capacity used' = maxValidPort \<and> (ret \<longleftrightarrow> \<not> list_all valid_port vs) \<and>
    (c \<longleftrightarrow> collide \<or> collides (members used) vs) \<and>
    (\<not> ret \<longrightarrow> members used' = members used \<union> nat ` set vs)"
  using assms
proof (induction vs arbitrary: used collide)
  case Nil
  then show ?case by (intro exI [of _ used] exI [of _ collide] exI [of _ False]) simp
next
  case (Cons v vs)
  show ?case
  proof (cases "valid_port v")
    case False
    then have "collides (members used) (v # vs)" by (simp add: collides_def)
    with False Cons.prems show ?thesis by (auto simp: valid_port_def)
  next
    case v: True
    then have lt: "nat v < capacity used" using Cons.prems by (auto simp: valid_port_def)
    show ?thesis
    proof (cases "nat v \<in> members used")
      case True
      then have "insert (nat v) (members used) = members used" by blast
      then have "mark_ports chk st (v # vs) used collide = mark_ports chk st vs used True"
        using v True chk_law [OF lt] by (auto simp: valid_port_def)
      moreover have "collides (members used) (v # vs)" using v True by (simp add: collides_Cons)
      ultimately show ?thesis
        using Cons.IH [OF Cons.prems, of True] v True by fastforce
    next
      case False
      obtain b' where b': "st used (nat v) = Some b'" "members b' = insert (nat v) (members used)"
        "capacity b' = capacity used" using st_law [OF lt] by blast
      have "mark_ports chk st (v # vs) used collide = mark_ports chk st vs b' collide"
        using v False chk_law [OF lt] b'(1) by (auto simp: valid_port_def)
      then show ?thesis
        using Cons.IH [of b' collide] Cons.prems b' v False by (simp add: collides_Cons)
    qed
  qed
qed

end

definition used_ports :: "network_index \<Rightarrow> string \<Rightarrow> nat set" where
  "used_ports idx ip = (case map_of (ni_UsedPorts idx) ip of None \<Rightarrow> {} | Some b \<Rightarrow> bm_bits b)"

definition used_bandwidth :: "network_index \<Rightarrow> string \<Rightarrow> int" where
  "used_bandwidth idx d = amap_get 0 (ni_UsedBandwidth idx) d"

definition net_wf :: "network_index \<Rightarrow> bool" where
  "net_wf idx \<longleftrightarrow> (\<forall>ip b. map_of (ni_UsedPorts idx) ip = Some b \<longrightarrow> bm_Size b = maxValidPort) \<and>
     distinct (map fst (ni_UsedPorts idx)) \<and> distinct (map fst (ni_UsedBandwidth idx))"

definition pool_ok :: "pool \<Rightarrow> bool" where
  "pool_ok gets \<longleftrightarrow> (\<forall>b. Some b \<in> set gets \<longrightarrow> bm_Size b = maxValidPort)"

lemma net_wf_New [simp]: "net_wf NewNetworkIndex"
  by (simp add: net_wf_def NewNetworkIndex_def)

lemma used_ports_New [simp]: "used_ports NewNetworkIndex ip = {}"
  by (simp add: used_ports_def NewNetworkIndex_def)

text \<open>The bitmap found for an IP stands for the ports the index records, whatever the pool held.\<close>

lemma used_bitmap_spec:
  assumes "net_wf idx" "pool_ok gets"
  obtains used gets' where "used_bitmap idx ip gets = (used, gets')" "pool_ok gets'"
    "bm_Size used = maxValidPort" "bm_bits used = used_ports idx ip"
proof -
  obtain b where b: "NewBitmap maxValidPort = Inr b"
    using NewBitmap_ok [of maxValidPort] by (auto simp: maxValidPort_def)
  note new = NewBitmap_bits [OF b]
  show ?thesis
  proof (cases "map_of (ni_UsedPorts idx) ip")
    case (Some used)
    with assms show ?thesis
      by (intro that [of used gets]) (auto simp: used_bitmap_def used_ports_def net_wf_def)
  next
    case None
    then have up: "used_ports idx ip = {}" by (simp add: used_ports_def)
    show ?thesis
    proof (cases gets)
      case Nil
      with None up new b show ?thesis
        by (intro that [of b "[]"]) (auto simp: used_bitmap_def pool_Get_def pool_ok_def)
    next
      case (Cons g gs)
      show ?thesis
      proof (cases g)
        case None': None
        with None up new b Cons assms show ?thesis
          by (intro that [of b gs]) (auto simp: used_bitmap_def pool_Get_def pool_ok_def)
      next
        case (Some raw)
        with None up Cons assms show ?thesis
          by (intro that [of "bm_Clear raw" gs]) (auto simp: used_bitmap_def pool_Get_def pool_ok_def)
      qed
    qed
  qed
qed

lemma used_ports_put:
  "used_ports (idx\<lparr>ni_UsedPorts := amap_put ip b (ni_UsedPorts idx)\<rparr>) ip' =
     (if ip' = ip then bm_bits b else used_ports idx ip')"
  by (simp add: used_ports_def update_conv')

lemma AddReserved_spec:
  assumes "net_wf idx" "pool_ok gets"
  obtains idx' c gets' where "AddReserved idx n gets = Some (idx', c, gets')"
    "net_wf idx'" "pool_ok gets'"
    "ni_AvailNetworks idx' = ni_AvailNetworks idx" "ni_AvailBandwidth idx' = ni_AvailBandwidth idx"
    "c \<longleftrightarrow> collides (used_ports idx (nr_IP n)) (port_values n)"
    "\<not> c \<Longrightarrow> used_ports idx' =
       (used_ports idx)(nr_IP n := used_ports idx (nr_IP n) \<union> nat ` set (port_values n))"
    "\<not> c \<Longrightarrow> used_bandwidth idx' =
       (used_bandwidth idx)(nr_Device n := wrap64 (used_bandwidth idx (nr_Device n) + nr_MBits n))"
    "\<not> c \<Longrightarrow> fst ` set (ni_UsedBandwidth idx') = insert (nr_Device n) (fst ` set (ni_UsedBandwidth idx))"
proof -
  obtain used gets' where used: "used_bitmap idx (nr_IP n) gets = (used, gets')" "pool_ok gets'"
    "bm_Size used = maxValidPort" "bm_bits used = used_ports idx (nr_IP n)"
    by (rule used_bitmap_spec [OF assms])
  obtain used' c ret where m: "mark_ports bm_Check bm_Set (port_values n) used False = Some (used', c, ret)"
    "bm_Size used' = maxValidPort" "ret \<longleftrightarrow> \<not> list_all valid_port (port_values n)"
    "c \<longleftrightarrow> collides (bm_bits used) (port_values n)"
    "\<not> ret \<longrightarrow> bm_bits used' = bm_bits used \<union> nat ` set (port_values n)"
    using bm.mark_ports_spec [OF used(3), of "port_values n" False] by auto
  have retc: "ret \<Longrightarrow> c" using m(3,4) by (simp add: collides_def)
  let ?idx1 = "idx\<lparr>ni_UsedPorts := amap_put (nr_IP n) used' (ni_UsedPorts idx)\<rparr>"
  let ?idx2 = "?idx1\<lparr>ni_UsedBandwidth := amap_put (nr_Device n)
    (wrap64 (amap_get 0 (ni_UsedBandwidth idx) (nr_Device n) + nr_MBits n)) (ni_UsedBandwidth idx)\<rparr>"
  have eq: "AddReserved idx n gets = Some (if ret then ?idx1 else ?idx2, c, gets')"
    using used(1) m(1) retc by (auto simp: AddReserved_def)
  have wf: "net_wf (if ret then ?idx1 else ?idx2)"
    using assms(1) m(2) by (auto simp: net_wf_def update_conv' distinct_update simp del: map_of_eq_Some_iff split: if_splits)
  have ports: "used_ports ?idx2 = used_ports ?idx1" by (simp add: used_ports_def fun_eq_iff)
  show ?thesis
    by (rule that [OF eq wf used(2)])
      (use m used(4) retc in
        \<open>auto simp: ports used_ports_put used_bandwidth_def fun_eq_iff dom_update\<close>)
qed

text \<open>The ports a list of networks puts on one IP, in order.\<close>

definition ports_on :: "string \<Rightarrow> network_resource list \<Rightarrow> int list" where
  "ports_on ip ns = concat (map port_values (filter (\<lambda>n. nr_IP n = ip) ns))"

text \<open>The bandwidth a list of networks asks of one device.\<close>

definition bandwidth_on :: "string \<Rightarrow> network_resource list \<Rightarrow> int" where
  "bandwidth_on d ns = sum_list (map nr_MBits (filter (\<lambda>n. nr_Device n = d) ns))"

lemma bandwidth_on_Cons:
  "bandwidth_on d (n # ns) = (if nr_Device n = d then nr_MBits n else 0) + bandwidth_on d ns"
  by (simp add: bandwidth_on_def)

lemma bandwidth_on_other: "d \<notin> nr_Device ` set ns \<Longrightarrow> bandwidth_on d ns = 0"
  by (induction ns) (auto simp: bandwidth_on_def)

lemma reserve_all_spec:
  assumes "net_wf idx" "pool_ok gets"
  shows "\<exists>idx' c gets'. reserve_all ns idx collide gets = Some (idx', c, gets') \<and>
    net_wf idx' \<and> pool_ok gets' \<and> ni_AvailNetworks idx' = ni_AvailNetworks idx \<and>
    ni_AvailBandwidth idx' = ni_AvailBandwidth idx \<and>
    (c \<longleftrightarrow> collide \<or> (\<exists>ip. collides (used_ports idx ip) (ports_on ip ns))) \<and>
    (\<not> c \<longrightarrow> (\<forall>ip. used_ports idx' ip = used_ports idx ip \<union> nat ` set (ports_on ip ns)) \<and>
       (\<forall>d. used_bandwidth idx' d = (if d \<in> nr_Device ` set ns
          then wrap64 (used_bandwidth idx d + bandwidth_on d ns) else used_bandwidth idx d)) \<and>
       fst ` set (ni_UsedBandwidth idx') = fst ` set (ni_UsedBandwidth idx) \<union> nr_Device ` set ns)"
  using assms
proof (induction ns arbitrary: idx collide gets)
  case Nil
  then show ?case by (simp add: ports_on_def)
next
  case (Cons n ns)
  obtain idx1 c1 gets1 where a: "AddReserved idx n gets = Some (idx1, c1, gets1)"
    "net_wf idx1" "pool_ok gets1"
    "ni_AvailNetworks idx1 = ni_AvailNetworks idx" "ni_AvailBandwidth idx1 = ni_AvailBandwidth idx"
    "c1 \<longleftrightarrow> collides (used_ports idx (nr_IP n)) (port_values n)"
    "\<not> c1 \<Longrightarrow> used_ports idx1 =
       (used_ports idx)(nr_IP n := used_ports idx (nr_IP n) \<union> nat ` set (port_values n))"
    "\<not> c1 \<Longrightarrow> used_bandwidth idx1 =
       (used_bandwidth idx)(nr_Device n := wrap64 (used_bandwidth idx (nr_Device n) + nr_MBits n))"
    "\<not> c1 \<Longrightarrow> fst ` set (ni_UsedBandwidth idx1) = insert (nr_Device n) (fst ` set (ni_UsedBandwidth idx))"
    by (rule AddReserved_spec [OF Cons.prems, where n = n]) blast
  have ports: "ports_on ip (n # ns) = (if ip = nr_IP n then port_values n else []) @ ports_on ip ns" for ip
    by (simp add: ports_on_def)
  obtain idx2 c2 gets2 where r: "reserve_all ns idx1 (if c1 then True else collide) gets1 = Some (idx2, c2, gets2)"
    "net_wf idx2" "pool_ok gets2" "ni_AvailNetworks idx2 = ni_AvailNetworks idx1"
    "ni_AvailBandwidth idx2 = ni_AvailBandwidth idx1"
    "c2 \<longleftrightarrow> (if c1 then True else collide) \<or> (\<exists>ip. collides (used_ports idx1 ip) (ports_on ip ns))"
    "\<not> c2 \<longrightarrow> (\<forall>ip. used_ports idx2 ip = used_ports idx1 ip \<union> nat ` set (ports_on ip ns))"
    "\<not> c2 \<longrightarrow> (\<forall>d. used_bandwidth idx2 d = (if d \<in> nr_Device ` set ns
       then wrap64 (used_bandwidth idx1 d + bandwidth_on d ns) else used_bandwidth idx1 d))"
    "\<not> c2 \<longrightarrow> fst ` set (ni_UsedBandwidth idx2) = fst ` set (ni_UsedBandwidth idx1) \<union> nr_Device ` set ns"
    using Cons.IH [OF a(2,3), of "if c1 then True else collide"] by auto
  have step: "collides (used_ports idx ip) (ports_on ip (n # ns)) \<longleftrightarrow>
      collides (used_ports idx1 ip) (ports_on ip ns)" if "\<not> c1" for ip
    using that a(6,7) by (auto simp: ports collides_append)
  have "c1 \<Longrightarrow> collides (used_ports idx (nr_IP n)) (ports_on (nr_IP n) (n # ns))"
    using a(6) by (simp add: ports collides_append)
  then have c: "c2 \<longleftrightarrow> collide \<or> (\<exists>ip. collides (used_ports idx ip) (ports_on ip (n # ns)))"
    using r(6) step by (cases c1) auto
  have c12: "\<not> c2 \<Longrightarrow> \<not> c1" using r(6) by auto
  then have "\<not> c2 \<longrightarrow> (\<forall>ip. used_ports idx2 ip = used_ports idx ip \<union> nat ` set (ports_on ip (n # ns)))"
    using r(7) a(7) by (auto simp: ports)
  moreover have "used_bandwidth idx2 d = (if d \<in> nr_Device ` set (n # ns)
      then wrap64 (used_bandwidth idx d + bandwidth_on d (n # ns)) else used_bandwidth idx d)" if "\<not> c2" for d
    using that c12 r(8) a(8) bandwidth_on_other [of d ns] by (auto simp: bandwidth_on_Cons add.assoc)
  moreover have "fst ` set (ni_UsedBandwidth idx2) = fst ` set (ni_UsedBandwidth idx) \<union> nr_Device ` set (n # ns)"
    if "\<not> c2" using that c12 r(9) a(9) by auto
  ultimately show ?case using a(1,4,5) r(1-5) c by auto
qed

section \<open>Assignment: laws\<close>

definition bitmap_ok :: "bitmap option \<Rightarrow> bool" where
  "bitmap_ok b = (case b of None \<Rightarrow> True | Some b \<Rightarrow> bm_Size b = maxValidPort)"

definition bits_of :: "bitmap option \<Rightarrow> nat set" where
  "bits_of b = (case b of None \<Rightarrow> {} | Some b \<Rightarrow> bm_bits b)"

text \<open>What either method of choosing \<open>k\<close> dynamic ports promises.\<close>

definition dyn_ports_ok :: "nat set \<Rightarrow> int list \<Rightarrow> nat \<Rightarrow> int list \<Rightarrow> bool" where
  "dyn_ports_ok U reserved k ps \<longleftrightarrow> length ps = k \<and> distinct ps \<and>
     list_all (\<lambda>p. int MinDynamicPort \<le> p \<and> p \<le> int MaxDynamicPort \<and> nat p \<notin> U \<and> p \<notin> set reserved) ps"

lemma used_Check_spec:
  "bitmap_ok b \<Longrightarrow> valid_port v \<Longrightarrow> used_Check b v = Some (nat v \<in> bits_of b)"
  by (auto simp: used_Check_def bitmap_ok_def bits_of_def valid_port_def bm_Check_eq split: option.splits)

lemma Intn_less: "0 < n \<Longrightarrow> fst (Intn n r) < n"
  by (auto simp: Intn_def split: list.splits)

lemma rand_port_valid:
  "x < MaxDynamicPort - MinDynamicPort \<Longrightarrow> valid_port (int (MinDynamicPort + x))"
  by (simp add: valid_port_def MaxDynamicPort_def MinDynamicPort_def maxValidPort_def)

lemma pick_port_spec:
  assumes "bitmap_ok b"
  shows "\<exists>res r'. pick_port b reserved dynamic k r = Some (res, r') \<and>
    (\<forall>p. res = Some p \<longrightarrow> int MinDynamicPort \<le> p \<and> p \<le> int MaxDynamicPort \<and>
       nat p \<notin> bits_of b \<and> p \<notin> set reserved \<and> p \<notin> set dynamic)"
proof (induction k arbitrary: r)
  case 0
  then show ?case by simp
next
  case (Suc k)
  obtain x r' where i: "Intn (MaxDynamicPort - MinDynamicPort) r = (x, r')" by fastforce
  with Intn_less [of "MaxDynamicPort - MinDynamicPort" r] have x: "x < MaxDynamicPort - MinDynamicPort"
    by (simp add: MaxDynamicPort_def MinDynamicPort_def)
  note u = used_Check_spec [OF assms rand_port_valid [OF x]]
  let ?p = "int (MinDynamicPort + x)"
  have "pick_port b reserved dynamic (Suc k) r =
      (if nat ?p \<in> bits_of b \<or> ?p \<in> set reserved \<union> set dynamic
       then pick_port b reserved dynamic k r' else Some (Some ?p, r'))"
    using i u by (auto simp: isPortReserved_def list_ex_iff Let_def split: bool.splits)
  then show ?case using Suc.IH [of r'] x by auto
qed

lemma pick_ports_spec:
  assumes "bitmap_ok b" "dyn_ports_ok (bits_of b) reserved (length dynamic) dynamic"
  shows "\<exists>res r'. pick_ports b reserved n dynamic r = Some (res, r') \<and>
    (\<forall>ps. res = Inr ps \<longrightarrow> dyn_ports_ok (bits_of b) reserved (length dynamic + n) ps)"
  using assms(2)
proof (induction n arbitrary: dynamic r)
  case 0
  then show ?case by simp
next
  case (Suc n)
  obtain res r' where p: "pick_port b reserved dynamic maxRandPortAttempts r = Some (res, r')"
    "\<forall>p. res = Some p \<longrightarrow> int MinDynamicPort \<le> p \<and> p \<le> int MaxDynamicPort \<and>
       nat p \<notin> bits_of b \<and> p \<notin> set reserved \<and> p \<notin> set dynamic"
    using pick_port_spec [OF assms(1)] by blast
  show ?case
  proof (cases res)
    case None
    with p show ?thesis by simp
  next
    case (Some v)
    with p Suc.prems have "dyn_ports_ok (bits_of b) reserved (length (dynamic @ [v])) (dynamic @ [v])"
      by (simp add: dyn_ports_ok_def)
    from Suc.IH [OF this, of r'] Some p(1) show ?thesis by simp
  qed
qed

lemma getDynamicPortsStochastic_spec:
  assumes "bitmap_ok b"
  obtains res r' where "getDynamicPortsStochastic b ask r = Some (res, r')"
    "\<And>ps. res = Inr ps \<Longrightarrow> dyn_ports_ok (bits_of b) (map p_Value (nr_ReservedPorts ask))
       (length (nr_DynamicPorts ask)) ps"
  using pick_ports_spec [OF assms, of "map p_Value (nr_ReservedPorts ask)" "[]"
      "length (nr_DynamicPorts ask)" r]
  by (auto simp: getDynamicPortsStochastic_def dyn_ports_ok_def)

lemma set_ports_spec:
  assumes "bm_Size b = maxValidPort" "list_all valid_port (map p_Value ps)"
  shows "\<exists>b'. set_ports ps b = Some b' \<and> bm_Size b' = maxValidPort \<and>
    bm_bits b' = bm_bits b \<union> nat ` p_Value ` set ps"
  using assms
proof (induction ps arbitrary: b)
  case (Cons p ps)
  then have "nat (p_Value p) < bm_Size b" by (auto simp: valid_port_def)
  from bm.st_law [OF this] obtain b' where "bm_Set b (nat (p_Value p)) = Some b'"
    "bm_bits b' = insert (nat (p_Value p)) (bm_bits b)" "bm_Size b' = bm_Size b" by blast
  with Cons.IH [of b'] Cons.prems show ?case by (auto simp: valid_port_def)
qed simp

lemma shuffle_prefix_perm:
  "i + n \<le> length xs \<Longrightarrow> mset (fst (shuffle_prefix i n xs r)) = mset xs"
proof (induction i n xs r rule: shuffle_prefix.induct)
  case (2 i n xs r)
  obtain j r' where j: "Intn (length xs) r = (j, r')" by fastforce
  have "0 < length xs" using "2.prems" by linarith
  from Intn_less [OF this, of r] j have "j < length xs" by simp
  with "2.IH" [OF j [symmetric]] j "2.prems" show ?case by (simp add: mset_swap_cells)
qed simp

text \<open>The ports of the dynamic range that are neither in use nor asked for as reserved ports.\<close>

definition free_dynamic_ports :: "nat set \<Rightarrow> int list \<Rightarrow> nat list" where
  "free_dynamic_ports U reserved =
     filter (\<lambda>p. p \<notin> U \<and> int p \<notin> set reserved) [MinDynamicPort..<Suc MaxDynamicPort]"

lemma getDynamicPortsPrecise_spec:
  assumes "bitmap_ok b" "list_all valid_port (map p_Value (nr_ReservedPorts ask))"
  defines "free \<equiv> free_dynamic_ports (bits_of b) (map p_Value (nr_ReservedPorts ask))"
  obtains (few) "length free < length (nr_DynamicPorts ask)"
      "getDynamicPortsPrecise b ask r = Some (Inl DynamicPortSelectionFailed, r)"
    | (chosen) ps r' where "length (nr_DynamicPorts ask) \<le> length free"
      "getDynamicPortsPrecise b ask r = Some (Inr ps, r')"
      "dyn_ports_ok (bits_of b) (map p_Value (nr_ReservedPorts ask)) (length (nr_DynamicPorts ask)) ps"
proof -
  obtain b0 where "NewBitmap maxValidPort = Inr b0"
    using NewBitmap_ok [of maxValidPort] by (auto simp: maxValidPort_def)
  then obtain u where u: "(case b of None \<Rightarrow> NewBitmap maxValidPort | Some b \<Rightarrow> bm_Copy (Some b)) = Inr u"
    "bm_Size u = maxValidPort" "bm_bits u = bits_of b"
    using assms(1) NewBitmap_bits [of maxValidPort b0]
    by (auto simp: bitmap_ok_def bits_of_def bm_Copy_def split: option.splits)
  obtain u' where u': "set_ports (nr_ReservedPorts ask) u = Some u'" "bm_Size u' = maxValidPort"
    "bm_bits u' = bits_of b \<union> nat ` p_Value ` set (nr_ReservedPorts ask)"
    using set_ports_spec [OF u(2) assms(2)] u(3) by auto
  have nonneg: "0 \<le> p_Value p" if "p \<in> set (nr_ReservedPorts ask)" for p
    using assms(2) that by (auto simp: list_all_iff valid_port_def)
  then have mem: "k \<notin> bm_bits u' \<longleftrightarrow>
      k \<notin> bits_of b \<and> int k \<notin> set (map p_Value (nr_ReservedPorts ask))" for k
    unfolding u'(3) by (auto simp: image_iff)
  have "min (Suc MaxDynamicPort) (8 * length u') = Suc MaxDynamicPort"
    using u'(2) by (simp add: MaxDynamicPort_def maxValidPort_def)
  then have idx: "bm_IndexesInRange u' False MinDynamicPort MaxDynamicPort = Some free"
    unfolding bm_IndexesInRange_eq free_def free_dynamic_ports_def using mem by (simp del: upt_Suc cong: filter_cong)
  show ?thesis
  proof (cases "length free < length (nr_DynamicPorts ask)")
    case True
    then show ?thesis
      by (intro few) (use u u' idx in \<open>simp_all add: getDynamicPortsPrecise_def\<close>)
  next
    case False
    obtain ports r' where sh: "shuffle_prefix 0 (length (nr_DynamicPorts ask)) free r = (ports, r')"
      by fastforce
    with shuffle_prefix_perm [of 0 "length (nr_DynamicPorts ask)" free r] False
    have perm: "mset ports = mset free" by simp
    have "distinct free" by (simp add: free_def free_dynamic_ports_def)
    with mset_eq_imp_distinct_iff [OF perm] mset_eq_setD [OF perm] mset_eq_length [OF perm]
    have "distinct ports" "set ports = set free" "length ports = length free" by simp_all
    with False have "dyn_ports_ok (bits_of b) (map p_Value (nr_ReservedPorts ask))
        (length (nr_DynamicPorts ask)) (map int (take (length (nr_DynamicPorts ask)) ports))"
      by (auto simp: dyn_ports_ok_def list_all_iff distinct_map free_def free_dynamic_ports_def
          dest!: in_set_takeD simp del: upt_Suc)
    with False show ?thesis
      by (intro chosen) (use u u' idx sh in \<open>simp_all add: getDynamicPortsPrecise_def\<close>)
  qed
qed

text \<open>What an offer for an ask promises against the index it was made from.\<close>

definition offer_ok :: "network_index \<Rightarrow> network_resource \<Rightarrow> network_resource \<Rightarrow> bool" where
  "offer_ok idx ask offer \<longleftrightarrow>
     nr_MBits offer = nr_MBits ask \<and> nr_ReservedPorts offer = nr_ReservedPorts ask \<and>
     map p_Label (nr_DynamicPorts offer) = map p_Label (nr_DynamicPorts ask) \<and>
     wrap64 (used_bandwidth idx (nr_Device offer) + nr_MBits ask)
       \<le> amap_get 0 (ni_AvailBandwidth idx) (nr_Device offer) \<and>
     list_all valid_port (map p_Value (nr_ReservedPorts ask)) \<and>
     list_all (\<lambda>p. nat (p_Value p) \<notin> used_ports idx (nr_IP offer)) (nr_ReservedPorts ask) \<and>
     dyn_ports_ok (used_ports idx (nr_IP offer)) (map p_Value (nr_ReservedPorts ask))
       (length (nr_DynamicPorts ask)) (map p_Value (nr_DynamicPorts offer))"

lemma check_reserved_spec:
  assumes "bitmap_ok b"
  shows "\<exists>res. check_reserved b ps = Some res \<and>
    (res = None \<longleftrightarrow> list_all valid_port (map p_Value ps) \<and> list_all (\<lambda>p. nat (p_Value p) \<notin> bits_of b) ps)"
proof (induction ps)
  case (Cons p ps)
  show ?case
  proof (cases "valid_port (p_Value p)")
    case True
    then have "\<not> (p_Value p < 0 \<or> p_Value p \<ge> int maxValidPort)" by (auto simp: valid_port_def)
    with used_Check_spec [OF assms True] True Cons.IH show ?thesis by (auto split: bool.splits)
  next
    case False
    then show ?thesis by (auto simp: valid_port_def)
  qed
qed simp

lemma assign_values_values [simp]:
  "length ps = length vs \<Longrightarrow> map p_Value (assign_values ps vs) = vs"
  "length ps = length vs \<Longrightarrow> map p_Label (assign_values ps vs) = map p_Label ps"
  by (induction ps vs rule: list_induct2) (simp_all add: assign_values_def)

lemma net_wf_bitmap:
  "net_wf idx \<Longrightarrow> bitmap_ok (map_of (ni_UsedPorts idx) ip)"
  "bits_of (map_of (ni_UsedPorts idx) ip) = used_ports idx ip"
  by (auto simp: net_wf_def bitmap_ok_def bits_of_def used_ports_def split: option.splits)

text \<open>One address: no panic; an offer is sound; an error has one of the three causes.\<close>

lemma try_address_spec:
  assumes "net_wf idx"
  obtains res r' where "try_address ipString idx ask n ip r = Some (res, r')"
    "\<And>offer. res = Inr offer \<Longrightarrow>
       offer_ok idx ask offer \<and> nr_Device offer = nr_Device n \<and> nr_IP offer = ipString ip"
    "\<And>e. res = Inl e \<Longrightarrow>
       wrap64 (used_bandwidth idx (nr_Device n) + nr_MBits ask)
         > amap_get 0 (ni_AvailBandwidth idx) (nr_Device n) \<or>
       \<not> list_all (\<lambda>p. valid_port (p_Value p) \<and> nat (p_Value p) \<notin> used_ports idx (ipString ip))
           (nr_ReservedPorts ask) \<or>
       length (free_dynamic_ports (used_ports idx (ipString ip)) (map p_Value (nr_ReservedPorts ask)))
         < length (nr_DynamicPorts ask)"
proof -
  let ?b = "map_of (ni_UsedPorts idx) (ipString ip)"
  note b = net_wf_bitmap(1) [OF assms, of "ipString ip"] and bits = net_wf_bitmap(2) [of idx "ipString ip"]
  obtain chk where chk: "check_reserved ?b (nr_ReservedPorts ask) = Some chk"
    "chk = None \<longleftrightarrow> list_all valid_port (map p_Value (nr_ReservedPorts ask)) \<and>
       list_all (\<lambda>p. nat (p_Value p) \<notin> bits_of ?b) (nr_ReservedPorts ask)"
    using check_reserved_spec [OF b] by blast
  obtain st r1 where st: "getDynamicPortsStochastic ?b ask r = Some (st, r1)"
    "\<And>ps. st = Inr ps \<Longrightarrow> dyn_ports_ok (bits_of ?b) (map p_Value (nr_ReservedPorts ask))
       (length (nr_DynamicPorts ask)) ps"
    by (rule getDynamicPortsStochastic_spec [OF b, where ask = ask and r = r]) blast
  consider (bw) "wrap64 (used_bandwidth idx (nr_Device n) + nr_MBits ask)
      > amap_get 0 (ni_AvailBandwidth idx) (nr_Device n)"
    | (res) "wrap64 (used_bandwidth idx (nr_Device n) + nr_MBits ask)
      \<le> amap_get 0 (ni_AvailBandwidth idx) (nr_Device n)" "chk \<noteq> None"
    | (ok) "wrap64 (used_bandwidth idx (nr_Device n) + nr_MBits ask)
      \<le> amap_get 0 (ni_AvailBandwidth idx) (nr_Device n)" "chk = None"
    by linarith
  then show ?thesis
  proof cases
    case bw
    then show ?thesis by (intro that) (auto simp: try_address_def used_bandwidth_def)
  next
    case res
    then obtain e where "chk = Some e" by blast
    with res chk show ?thesis
      by (intro that [of "Inl e" r]) (auto simp: try_address_def used_bandwidth_def bits list_all_iff)
  next
    case ok
    then have valid: "list_all valid_port (map p_Value (nr_ReservedPorts ask))"
      and unused: "list_all (\<lambda>p. nat (p_Value p) \<notin> used_ports idx (ipString ip)) (nr_ReservedPorts ask)"
      using chk(2) bits by auto
    have offer: "offer_ok idx ask \<lparr>nr_Device = nr_Device n, nr_CIDR = '''', nr_IP = ipString ip,
          nr_MBits = nr_MBits ask, nr_ReservedPorts = nr_ReservedPorts ask,
          nr_DynamicPorts = assign_values (nr_DynamicPorts ask) ps\<rparr>"
      if "dyn_ports_ok (bits_of ?b) (map p_Value (nr_ReservedPorts ask)) (length (nr_DynamicPorts ask)) ps" for ps
      using that ok valid unused bits by (simp add: offer_ok_def dyn_ports_ok_def)
    show ?thesis
    proof (cases st)
      case (Inr ps)
      with ok chk(1) st offer [of ps] show ?thesis
        by (intro that) (auto simp: try_address_def used_bandwidth_def)
    next
      case (Inl e)
      show ?thesis
        by (rule getDynamicPortsPrecise_spec [OF b valid, of r1])
          (rule that, use ok chk(1) st(1) Inl offer bits in
            \<open>auto simp: try_address_def used_bandwidth_def\<close>)+
    qed
  qed
qed

text \<open>
  Partial correctness of the two address loops: a property of the closure's state that every
  continuing call keeps, and one that every stopping call establishes.
\<close>

lemma yield_ips_inv:
  assumes "yield_ips cb net msk ip s = Some (s', stop)" "Q s"
    "\<And>ip s0 s1 st. ip_contains net msk ip \<Longrightarrow> Q s0 \<Longrightarrow> cb ip s0 = Some (s1, st) \<Longrightarrow>
       if st then R s1 else Q s1"
  shows "if stop then R s' else Q s'"
proof -
  let ?step = "\<lambda>cb net msk. \<forall>ip s0 s1 st. ip_contains net msk ip \<longrightarrow> Q s0 \<longrightarrow> cb ip s0 = Some (s1, st) \<longrightarrow>
       (if st then R s1 else Q s1)"
  let ?P = "\<lambda>cb net msk ip s v. Q s \<longrightarrow> ?step cb net msk \<longrightarrow> (if snd v then R (fst v) else Q (fst v))"
  have "?P cb net msk ip s (s', stop)"
  proof (rule yield_ips.raw_induct [of ?P, OF _ assms(1)])
    fix yield :: "(ip \<Rightarrow> 'a \<Rightarrow> ('a \<times> bool) option) \<Rightarrow> ip \<Rightarrow> ip \<Rightarrow> ip \<Rightarrow> 'a \<Rightarrow> ('a \<times> bool) option"
      and cb net msk ip s v
    assume IH: "\<And>cb net msk ip s v. yield cb net msk ip s = Some v \<Longrightarrow> ?P cb net msk ip s v"
      and run: "(if ip_contains net msk ip
       then Option.bind (cb ip s) (\<lambda>(s', stop). if stop then Some (s', True) else yield cb net msk (ip_inc ip) s')
       else Some (s, False)) = Some v"
    show "?P cb net msk ip s v"
    proof (cases "ip_contains net msk ip")
      case True
      with run obtain s1 st where c: "cb ip s = Some (s1, st)"
        "(if st then Some (s1, True) else yield cb net msk (ip_inc ip) s1) = Some v"
        by (auto simp: Option.bind_eq_Some_conv)
      show ?thesis
      proof (intro impI)
        assume Q: "Q s" and step: "?step cb net msk"
        from step True Q c(1) have next_s: "if st then R s1 else Q s1" by blast
        show "if snd v then R (fst v) else Q (fst v)"
        proof (cases st)
          case True
          with c(2) next_s show ?thesis by auto
        next
          case False
          with c(2) have "yield cb net msk (ip_inc ip) s1 = Some v" by simp
          from IH [OF this] False next_s step show ?thesis by simp
        qed
      qed
    qed (use run in auto)
  qed
  with assms(2,3) show ?thesis by (metis fst_conv snd_conv)
qed

lemma yieldIP_inv:
  assumes "yieldIP parseCIDR cb ns s = Some s'" "Q s" "set ns \<subseteq> A"
    and step: "\<And>n ip s0 s1 st. n \<in> A \<Longrightarrow> Q s0 \<Longrightarrow> cb n ip s0 = Some (s1, st) \<Longrightarrow> if st then R s1 else Q s1"
  shows "Q s' \<or> R s'"
  using assms(1-3)
proof (induction ns arbitrary: s)
  case (Cons n ns)
  show ?case
  proof (cases "parseCIDR (nr_CIDR n)")
    case None
    with Cons show ?thesis by auto
  next
    case (Some nm)
    obtain net msk where nm: "nm = (net, msk)" by fastforce
    with Some Cons.prems(1) obtain s1 stop where y: "yield_ips (cb n) net msk net s = Some (s1, stop)"
      "(if stop then Some s1 else yieldIP parseCIDR cb ns s1) = Some s'"
      by (auto simp: Option.bind_eq_Some_conv)
    have "if stop then R s1 else Q s1"
      by (rule yield_ips_inv [where Q = Q and R = R, OF y(1) Cons.prems(2)])
        (rule step [where n = n], use Cons.prems(3) in simp_all)
    with Cons.IH [of s1] y(2) Cons.prems(3) show ?thesis by (auto split: if_splits)
  qed
qed simp

text \<open>Every offer of \<open>AssignNetwork\<close> is sound, and its ports can be reserved.\<close>

lemma AssignNetwork_offer:
  assumes "AssignNetwork parseCIDR ipString idx ask r = Some (Inr offer, ask', r')" "net_wf idx"
  shows "offer_ok idx ask offer"
    and "\<exists>n \<in> set (ni_AvailNetworks idx). nr_Device offer = nr_Device n"
    and "ask' = ask\<lparr>nr_DynamicPorts := nr_DynamicPorts offer\<rparr>"
proof -
  let ?Q = "\<lambda>s :: (network_error + network_resource) \<times> rnd. \<exists>e. fst s = Inl e"
  let ?R = "\<lambda>s :: (network_error + network_resource) \<times> rnd. \<exists>offer. fst s = Inr offer \<and> offer_ok idx ask offer \<and>
    (\<exists>n \<in> set (ni_AvailNetworks idx). nr_Device offer = nr_Device n)"
  from assms(1) have y: "yieldIP parseCIDR (assign_cb ipString idx ask) (ni_AvailNetworks idx)
      (Inl NoNetworksAvailable, r) = Some (Inr offer, r')"
    and ask': "ask' = ask\<lparr>nr_DynamicPorts := nr_DynamicPorts offer\<rparr>"
    by (auto simp: AssignNetwork_def)
  have "?Q (Inr offer, r') \<or> ?R (Inr offer, r')"
  proof (rule yieldIP_inv [where Q = ?Q and R = ?R, OF y _ subset_refl])
    fix n ip s0 s1 st
    assume n: "n \<in> set (ni_AvailNetworks idx)" and cb: "assign_cb ipString idx ask n ip s0 = Some (s1, st)"
    obtain res r2 where t: "try_address ipString idx ask n ip (snd s0) = Some (res, r2)"
      "\<And>offer. res = Inr offer \<Longrightarrow>
         offer_ok idx ask offer \<and> nr_Device offer = nr_Device n \<and> nr_IP offer = ipString ip"
      by (rule try_address_spec [OF assms(2), where ask = ask and n = n and ip = ip and r = "snd s0"
            and ipString = ipString]) blast
    with cb n show "if st then ?R s1 else ?Q s1"
      by (cases res) (auto simp: assign_cb_def)
  qed simp
  with ask' show "offer_ok idx ask offer" "\<exists>n \<in> set (ni_AvailNetworks idx). nr_Device offer = nr_Device n"
    "ask' = ask\<lparr>nr_DynamicPorts := nr_DynamicPorts offer\<rparr>" by simp_all
qed

lemma offer_ok_no_collision:
  assumes "offer_ok idx ask offer" "distinct (map p_Value (nr_ReservedPorts ask))"
  shows "\<not> collides (used_ports idx (nr_IP offer)) (port_values offer)"
proof -
  have "valid_port v" if "int MinDynamicPort \<le> v" "v \<le> int MaxDynamicPort" for v
    using that by (simp add: valid_port_def MinDynamicPort_def MaxDynamicPort_def maxValidPort_def)
  then show ?thesis
    using assms
    by (auto simp: collides_def offer_ok_def dyn_ports_ok_def port_values_def list_all_iff) (metis image_eqI)
qed

section \<open>Termination of the address loop\<close>

fun lval :: "ip \<Rightarrow> nat" where
  "lval [] = 0"
| "lval (b # bs) = unat b + 256 * lval bs"

lemma unat_byte_less: "unat (b :: 8 word) < 256"
  using unsigned_less [of b, where ?'a = nat] by simp

lemma lval_less: "lval bs < 256 ^ length bs"
proof (induction bs)
  case (Cons b bs)
  then have "Suc (lval bs) \<le> 256 ^ length bs" by simp
  then have "256 * Suc (lval bs) \<le> 256 * 256 ^ length bs" by (rule mult_le_mono2)
  with unat_byte_less [of b] show ?case by simp
qed simp

lemma lval_inj: "length xs = length ys \<Longrightarrow> lval xs = lval ys \<Longrightarrow> xs = ys"
proof (induction xs ys rule: list_induct2)
  case (Cons x xs y ys)
  have "unat x = (unat x + 256 * lval xs) mod 256" "unat y = (unat y + 256 * lval ys) mod 256"
    using unat_byte_less [of x] unat_byte_less [of y] by simp_all
  with Cons.prems have "unat x = unat y" by simp
  with Cons show ?case by (simp add: word_unat_eq_iff)
qed simp

lemma length_inc_rev [simp]: "length (inc_rev bs) = length bs"
  by (induction bs) (simp_all add: Let_def)

lemma lval_inc_rev: "lval (inc_rev bs) = (lval bs + 1) mod 256 ^ length bs"
proof (induction bs)
  case (Cons b bs)
  show ?case
  proof (cases "b + 1 = 0")
    case True
    then have "b = - 1" by (simp add: eq_neg_iff_add_eq_0)
    then have "unat b = 255" by (simp add: unsigned_minus_1_eq_mask mask_eq_exp_minus_1)
    then have "lval (b # bs) + 1 = 256 * (lval bs + 1)" by simp
    moreover have "(256 * (lval bs + 1)) mod (256 * 256 ^ length bs) = 256 * ((lval bs + 1) mod 256 ^ length bs)"
      by (rule mult_mod_right [symmetric])
    ultimately show ?thesis using True Cons.IH by simp
  next
    case False
    then have b: "unat (b + 1) = unat b + 1" using unatSuc [of b] by (simp add: add.commute)
    with False have "lval (inc_rev (b # bs)) = lval (b # bs) + 1"
      by (simp add: Let_def word_neq_0_conv)
    moreover from this lval_less [of "inc_rev (b # bs)"] have "lval (b # bs) + 1 < 256 ^ length (b # bs)"
      by (simp only: length_inc_rev)
    ultimately show ?thesis by simp
  qed
qed simp

lemma lval_inc_pow: "length ((inc_rev ^^ k) bs) = length bs \<and>
    lval ((inc_rev ^^ k) bs) = (lval bs + k) mod 256 ^ length bs"
proof (induction k)
  case 0
  then show ?case using lval_less [of bs] by simp
next
  case (Suc k)
  then show ?case by (simp add: lval_inc_rev mod_Suc_eq)
qed

text \<open>Counting up reaches every address of the same length.\<close>

lemma inc_reaches:
  assumes "length bs = length cs"
  shows "\<exists>k. (inc_rev ^^ k) bs = cs"
proof -
  let ?k = "lval cs + (256 ^ length bs - lval bs)"
  have "lval bs + ?k = lval cs + 256 ^ length bs" using lval_less [of bs] by simp
  then have "lval ((inc_rev ^^ ?k) bs) = lval cs"
    using lval_inc_pow [of ?k bs] lval_less [of cs] assms by simp
  with lval_inj [of "(inc_rev ^^ ?k) bs" cs] lval_inc_pow [of ?k bs] assms show ?thesis by auto
qed

lemma ip_inc_pow: "(ip_inc ^^ k) ip = rev ((inc_rev ^^ k) (rev ip))"
  by (induction k) (simp_all add: ip_inc_def)

lemma ip_inc_reaches: "length ip = length ip' \<Longrightarrow> \<exists>k. (ip_inc ^^ k) ip = ip'"
  using inc_reaches [of "rev ip" "rev ip'"] by (metis ip_inc_pow length_rev rev_rev_ident)

text \<open>A network whose mask is not zero does not contain the complement of its number.\<close>

definition net_mask_ok :: "ip \<Rightarrow> ip \<Rightarrow> bool" where
  "net_mask_ok net msk \<longleftrightarrow> length net \<in> {4, 16} \<and> length msk = length net \<and> list_ex (\<lambda>m. m \<noteq> 0) msk"

lemma byte_not_and: "(a :: 8 word) AND m = NOT a AND m \<Longrightarrow> m = 0"
  by (metis (no_types, lifting) and.assoc and.idem bit.conj_cancel_left bit.conj_cancel_right
      bit.conj_disj_distrib2 bit.conj_zero_left bit.disj_cancel_right and.left_neutral or.idem)

lemma complement_not_contained:
  assumes "net_mask_ok net msk"
  shows "\<not> ip_contains net msk (map (\<lambda>b. NOT b) net)"
proof
  assume c: "ip_contains net msk (map (\<lambda>b. NOT b) net)"
  let ?mapped = "\<lambda>ip :: ip. length ip = 16 \<and> take 12 ip = replicate 10 0 @ [0xff, 0xff]"
  have head: "?mapped ip \<Longrightarrow> ip ! 0 = 0" for ip
    by (metis nth_take nth_append length_replicate nth_replicate zero_less_numeral)
  have not_both: "\<not> (?mapped net \<and> ?mapped (map (\<lambda>b. NOT b) net))"
    using head [of net] head [of "map (\<lambda>b. NOT b) net"] by auto
  have "length (ip_To4 (map (\<lambda>b. NOT b) net)) = length (ip_To4 net)"
    using c by (auto simp: ip_contains_def Let_def)
  with not_both have "ip_To4 net = net" "ip_To4 (map (\<lambda>b. NOT b) net) = map (\<lambda>b. NOT b) net"
    by (auto simp: ip_To4_def split: if_splits)
  moreover from assms have "\<not> (length msk = 16 \<and> length net = 4)" "length msk = length net"
    by (auto simp: net_mask_ok_def)
  ultimately have "list_all2 (\<lambda>(a, m) b. a AND m = b AND m) (zip net msk) (map (\<lambda>b. NOT b) net)"
    using c by (simp add: ip_contains_def Let_def split: if_splits)
  then have "\<forall>i < length net. net ! i AND msk ! i = NOT (net ! i) AND msk ! i"
    using \<open>length msk = length net\<close> by (auto simp: list_all2_conv_all_nth)
  with byte_not_and \<open>length msk = length net\<close> have "\<forall>i < length msk. msk ! i = 0" by metis
  with assms show False by (auto simp: net_mask_ok_def list_ex_iff in_set_conv_nth)
qed

lemma yield_ips_terminates:
  assumes "\<not> ip_contains net msk ((ip_inc ^^ k) ip)" "\<And>ip s. cb ip s \<noteq> None"
  shows "yield_ips cb net msk ip s \<noteq> None"
  using assms(1)
proof (induction k arbitrary: ip s)
  case 0
  then show ?case by (simp add: yield_ips.simps)
next
  case (Suc k)
  obtain s' stop where "cb ip s = Some (s', stop)" using assms(2) [of ip s] by auto
  moreover have "yield_ips cb net msk (ip_inc ip) s' \<noteq> None"
    using Suc.IH [of "ip_inc ip"] Suc.prems by (simp add: funpow_swap1)
  ultimately show ?case by (auto simp: yield_ips.simps [of cb net msk ip s])
qed

lemma yieldIP_terminates:
  assumes "list_all (\<lambda>n. \<forall>net msk. parseCIDR (nr_CIDR n) = Some (net, msk) \<longrightarrow> net_mask_ok net msk) ns"
    "\<And>n ip s. cb n ip s \<noteq> None"
  shows "yieldIP parseCIDR cb ns s \<noteq> None"
  using assms(1)
proof (induction ns arbitrary: s)
  case (Cons n ns)
  show ?case
  proof (cases "parseCIDR (nr_CIDR n)")
    case None
    with Cons show ?thesis by simp
  next
    case (Some nm)
    obtain net msk where nm: "nm = (net, msk)" by fastforce
    obtain k where "(ip_inc ^^ k) net = map (\<lambda>b. NOT b) net" using ip_inc_reaches [of net] by fastforce
    with complement_not_contained [of net msk] Cons.prems Some nm
    have "\<not> ip_contains net msk ((ip_inc ^^ k) net)" by simp
    from yield_ips_terminates [OF this, of "cb n" s] assms(2)
    obtain s' stop where "yield_ips (cb n) net msk net s = Some (s', stop)" by auto
    with Some nm Cons show ?thesis by simp
  qed
qed simp

lemma yield_ips_tried:
  assumes "yield_ips cb net msk ip s = Some (s', False)"
    "\<forall>j \<le> k. ip_contains net msk ((ip_inc ^^ j) ip)"
  shows "\<exists>s0 s1. cb ((ip_inc ^^ k) ip) s0 = Some (s1, False)"
  using assms
proof (induction k arbitrary: ip s)
  case 0
  then have "ip_contains net msk ip" by simp
  with "0.prems"(1) show ?case
    by (auto simp: yield_ips.simps [of cb net msk ip s] Option.bind_eq_Some_conv split: if_splits) blast
next
  case (Suc k)
  then have "ip_contains net msk ip" by (metis funpow_0 zero_le)
  with Suc.prems(1) obtain s1 where "yield_ips cb net msk (ip_inc ip) s1 = Some (s', False)"
    by (auto simp: yield_ips.simps [of cb net msk ip s] Option.bind_eq_Some_conv split: if_splits)
  moreover have "\<forall>j \<le> k. ip_contains net msk ((ip_inc ^^ j) (ip_inc ip))"
    using Suc.prems(2) by (metis Suc_le_mono funpow_Suc_right o_apply)
  ultimately show ?case using Suc.IH [of "ip_inc ip" s1] by (simp add: funpow_swap1)
qed

lemma yieldIP_no_stop:
  assumes "yieldIP parseCIDR cb ns s = Some s'" "\<And>n ip s0 s1. cb n ip s0 = Some (s1, True) \<Longrightarrow> R s1" "\<not> R s'"
    "n \<in> set ns" "parseCIDR (nr_CIDR n) = Some (net, msk)"
  shows "\<exists>s0 s1. yield_ips (cb n) net msk net s0 = Some (s1, False)"
  using assms(1,4)
proof (induction ns arbitrary: s)
  case (Cons m ns)
  show ?case
  proof (cases "parseCIDR (nr_CIDR m)")
    case None
    with Cons assms(5) show ?thesis by auto
  next
    case (Some nm)
    obtain net' msk' where nm: "nm = (net', msk')" by fastforce
    with Some Cons.prems(1) obtain s1 stop where y: "yield_ips (cb m) net' msk' net' s = Some (s1, stop)"
      "(if stop then Some s1 else yieldIP parseCIDR cb ns s1) = Some s'"
      by (auto simp: Option.bind_eq_Some_conv)
    have "if stop then R s1 else True"
      by (rule yield_ips_inv [where Q = "\<lambda>_. True" and R = R, OF y(1)]) (use assms(2) in auto)
    with y(2) assms(3) have "\<not> stop" by auto
    with y Cons nm Some assms(5) show ?thesis by auto blast
  qed
qed simp

section \<open>Properties\<close>

text \<open>
  C6: \<open>AddAllocs\<close> never panics, whatever the bitmap pool holds, keeps the index well formed,
  and reports a collision exactly when, on some IP, one of the recorded ports is invalid, is
  claimed twice, or was in use before; without a collision the used ports are the union.
\<close>

theorem AddAllocs_collision:
  assumes "net_wf idx" "pool_ok gets"
  shows "\<exists>idx' c gets'. AddAllocs idx allocs gets = Some (idx', c, gets') \<and> net_wf idx' \<and>
    (c \<longleftrightarrow> (\<exists>ip. collides (used_ports idx ip) (ports_on ip (concat (map alloc_networks allocs))))) \<and>
    (\<not> c \<longrightarrow> (\<forall>ip. used_ports idx' ip =
       used_ports idx ip \<union> nat ` set (ports_on ip (concat (map alloc_networks allocs)))))"
  using reserve_all_spec [OF assms, of "concat (map alloc_networks allocs)" False]
  unfolding AddAllocs_def by auto

text \<open>
  C7: an offer of \<open>AssignNetwork\<close> keeps its promise: when the asked reserved ports are distinct,
  reserving the offer in the index it was made from reports no collision, adds exactly the
  offered ports, and leaves the device within its bandwidth.
\<close>

theorem AssignNetwork_reservable:
  assumes "AssignNetwork parseCIDR ipString idx ask r = Some (Inr offer, ask', r')"
    "net_wf idx" "pool_ok gets" "distinct (map p_Value (nr_ReservedPorts ask))"
  shows "\<exists>idx' gets'. AddReserved idx offer gets = Some (idx', False, gets') \<and> net_wf idx' \<and>
    used_ports idx' (nr_IP offer) = used_ports idx (nr_IP offer) \<union> nat ` set (port_values offer) \<and>
    used_bandwidth idx' (nr_Device offer) \<le> amap_get 0 (ni_AvailBandwidth idx') (nr_Device offer)"
proof -
  have ok: "offer_ok idx ask offer" by (rule AssignNetwork_offer(1) [OF assms(1,2)])
  show ?thesis
    by (rule AddReserved_spec [OF assms(2,3), of offer])
      (use ok offer_ok_no_collision [OF ok assms(4)] in \<open>auto simp: offer_ok_def\<close>)
qed

text \<open>
  C8: \<open>AssignNetwork\<close> returns, without a panic, when every CIDR that parses has a mask with a set
  bit: the address loop leaves each network after finitely many increments.
\<close>

theorem AssignNetwork_terminates:
  assumes "net_wf idx"
    "list_all (\<lambda>n. \<forall>net msk. parseCIDR (nr_CIDR n) = Some (net, msk) \<longrightarrow> net_mask_ok net msk)
       (ni_AvailNetworks idx)"
  shows "\<exists>res ask' r'. AssignNetwork parseCIDR ipString idx ask r = Some (res, ask', r')"
proof -
  have "assign_cb ipString idx ask n ip s \<noteq> None" for n ip s
    by (rule try_address_spec [OF assms(1), where ask = ask and n = n and ip = ip and r = "snd s"
          and ipString = ipString]) (simp add: assign_cb_def)
  from yieldIP_terminates [OF assms(2) this, where s = "(Inl NoNetworksAvailable, r)"] show ?thesis
    by (auto simp: AssignNetwork_def)
qed

text \<open>
  C9: \<open>AssignNetwork\<close> gives up only when it must: after an error, every address counted up from the
  network number inside a network's range lacks bandwidth on the device, has an invalid or
  used reserved port, or has fewer free dynamic ports than the ask wants.
\<close>

theorem AssignNetwork_error:
  assumes "AssignNetwork parseCIDR ipString idx ask r = Some (Inl e, ask', r')" "net_wf idx"
    "n \<in> set (ni_AvailNetworks idx)" "parseCIDR (nr_CIDR n) = Some (net, msk)"
    "\<forall>j \<le> k. ip_contains net msk ((ip_inc ^^ j) net)"
  defines "U \<equiv> used_ports idx (ipString ((ip_inc ^^ k) net))"
  shows "wrap64 (used_bandwidth idx (nr_Device n) + nr_MBits ask)
      > amap_get 0 (ni_AvailBandwidth idx) (nr_Device n) \<or>
    \<not> list_all (\<lambda>p. valid_port (p_Value p) \<and> nat (p_Value p) \<notin> U) (nr_ReservedPorts ask) \<or>
    length (free_dynamic_ports U (map p_Value (nr_ReservedPorts ask))) < length (nr_DynamicPorts ask)"
proof -
  from assms(1) have y: "yieldIP parseCIDR (assign_cb ipString idx ask) (ni_AvailNetworks idx)
      (Inl NoNetworksAvailable, r) = Some (Inl e, r')"
    by (auto simp: AssignNetwork_def split: sum.splits)
  obtain t0 t1 where run: "yield_ips (assign_cb ipString idx ask n) net msk net t0 = Some (t1, False)"
    using yieldIP_no_stop [OF y _ _ assms(3,4), where R = "\<lambda>s. \<not> isl (fst s)"]
    by (fastforce simp: assign_cb_def split: sum.splits)
  obtain s0 s1 where cb: "assign_cb ipString idx ask n ((ip_inc ^^ k) net) s0 = Some (s1, False)"
    using yield_ips_tried [OF run assms(5)] by (elim exE)
  let ?ip = "(ip_inc ^^ k) net"
  obtain res r2 where t: "try_address ipString idx ask n ?ip (snd s0) = Some (res, r2)"
    "\<And>e. res = Inl e \<Longrightarrow> ?thesis"
    unfolding U_def
    by (rule try_address_spec [OF assms(2), where ask = ask and n = n and ip = ?ip
          and r = "snd s0" and ipString = ipString]) blast
  from cb t(1) have "isl res" by (cases res) (auto simp: assign_cb_def)
  with t(2) show ?thesis by (auto simp: isl_def)
qed

text \<open>Concrete inputs: a network with one address, an ask for one reserved and one dynamic port.\<close>

definition ex_index :: network_index where
  "ex_index = NewNetworkIndex\<lparr>
     ni_AvailNetworks := [zero_network\<lparr>nr_Device := ''eth0'', nr_CIDR := ''10.0.0.1/32''\<rparr>],
     ni_AvailBandwidth := [(''eth0'', 100)]\<rparr>"

definition ex_parse :: "string \<Rightarrow> (ip \<times> ip) option" where
  "ex_parse s = (if s = ''10.0.0.1/32'' then Some ([10, 0, 0, 1], [255, 255, 255, 255]) else None)"

definition ex_string :: "ip \<Rightarrow> string" where
  "ex_string ip = ''10.0.0.1''"

definition ex_ask :: "int \<Rightarrow> network_resource" where
  "ex_ask mbits = zero_network\<lparr>nr_MBits := mbits, nr_ReservedPorts := [\<lparr>p_Label = ''ssh'', p_Value = 22\<rparr>],
     nr_DynamicPorts := [\<lparr>p_Label = ''http'', p_Value = 0\<rparr>]\<rparr>"

definition ex_offer :: network_resource where
  "ex_offer = zero_network\<lparr>nr_Device := ''eth0'', nr_IP := ''10.0.0.1'', nr_MBits := 50,
       nr_ReservedPorts := [\<lparr>p_Label = ''ssh'', p_Value = 22\<rparr>],
       nr_DynamicPorts := [\<lparr>p_Label = ''http'', p_Value = 20005\<rparr>]\<rparr>"

definition ex_port_alloc :: "string \<Rightarrow> int \<Rightarrow> allocation" where
  "ex_port_alloc name port = zero_alloc\<lparr>a_ID := name, a_TaskResources := Some [(''web'', zero_resources\<lparr>r_Networks :=
     [zero_network\<lparr>nr_IP := ''10.0.0.1'', nr_ReservedPorts := [\<lparr>p_Label = ''p'', p_Value = port\<rparr>]\<rparr>]\<rparr>)]\<rparr>"


lemmas ex_defs = ex_index_def ex_parse_def ex_string_def ex_ask_def NewNetworkIndex_def zero_network_def

lemma ex_pick: "pick_port None [22] [] maxRandPortAttempts [5] = Some (Some 20005, [])"
  using pick_port.simps(2) [of None "[22]" "[]" 19 "[5]"]
  by (simp add: maxRandPortAttempts_def Intn_def MaxDynamicPort_def MinDynamicPort_def
      isPortReserved_def used_Check_def)

lemma ex_stochastic: "getDynamicPortsStochastic None (ex_ask m) [5] = Some (Inr [20005], [])"
  by (simp add: getDynamicPortsStochastic_def ex_defs ex_pick)

lemma ex_try: 
  "nr_Device n = ''eth0'' \<Longrightarrow> try_address ex_string ex_index (ex_ask 50) n ip [5] = Some (Inr ex_offer, [])"
  "nr_Device n = ''eth0'' \<Longrightarrow> try_address ex_string ex_index (ex_ask 500) n ip r = Some (Inl BandwidthExceeded, r)"
  using ex_stochastic [of 50]
  by (simp_all add: try_address_def ex_defs ex_offer_def wrap64_def go_get_def used_Check_def maxValidPort_def
    assign_values_def)

lemma ex_contains:
  "ip_contains [10, 0, 0, 1] [255, 255, 255, 255] [10, 0, 0, 1]"
  "\<not> ip_contains [10, 0, 0, 1] [255, 255, 255, 255] (ip_inc [10, 0, 0, 1])"
  by (simp_all add: ip_contains_def ip_To4_def ip_inc_def)

lemma ex_assign_run:
  "AssignNetwork ex_parse ex_string ex_index (ex_ask 50) [5] =
     Some (Inr ex_offer, (ex_ask 50)\<lparr>nr_DynamicPorts := nr_DynamicPorts ex_offer\<rparr>, [])"
  using ex_try(1) ex_contains
  by (simp add: AssignNetwork_def ex_index_def NewNetworkIndex_def zero_network_def ex_parse_def
     yield_ips.simps [of _ _ _ "[10, 0, 0, 1]"] assign_cb_def)

lemma ex_assign_fail:
  "AssignNetwork ex_parse ex_string ex_index (ex_ask 500) [] = Some (Inl BandwidthExceeded, ex_ask 500, [])"
  using ex_try(2) ex_contains
  by (simp add: AssignNetwork_def ex_index_def NewNetworkIndex_def zero_network_def ex_parse_def
     yield_ips.simps [of _ _ _ "[10, 0, 0, 1]"] yield_ips.simps [of _ _ _ "ip_inc [10, 0, 0, 1]"] assign_cb_def)

theorem AddAllocs_collision_witness:
  "net_wf NewNetworkIndex \<and> pool_ok [] \<and>
   (\<exists>idx' gets'. AddAllocs NewNetworkIndex [ex_port_alloc ''a'' 80, ex_port_alloc ''b'' 80] [] =
      Some (idx', True, gets')) \<and>
   (\<exists>idx' gets'. AddAllocs NewNetworkIndex [ex_port_alloc ''a'' 80, ex_port_alloc ''b'' 81] [] =
      Some (idx', False, gets') \<and> used_ports idx' ''10.0.0.1'' = {80, 81})"
proof -
  have on: "ports_on ip (concat (map alloc_networks [ex_port_alloc ''a'' p, ex_port_alloc ''b'' q])) =
      (if ip = ''10.0.0.1'' then [p, q] else [])" for ip p q
    by (simp add: ports_on_def alloc_networks_def ex_port_alloc_def zero_alloc_def zero_resources_def
        zero_network_def port_values_def)
  have "{x :: int. x = 80 \<or> x = 81} = {80, 81}" by auto
  then have im: "nat ` {x. x = 80 \<or> x = 81} = {80, 81}" by simp
  have "collides {} [80, 80]" "\<not> collides {} [80, 81]"
    by (simp_all add: collides_def valid_port_def maxValidPort_def)
  with AddAllocs_collision [of NewNetworkIndex "[]" "[ex_port_alloc ''a'' 80, ex_port_alloc ''b'' 80]"]
    AddAllocs_collision [of NewNetworkIndex "[]" "[ex_port_alloc ''a'' 80, ex_port_alloc ''b'' 81]"]
  show ?thesis unfolding on by (auto simp: pool_ok_def im split: if_splits)
qed

theorem AssignNetwork_reservable_witness:
  "AssignNetwork ex_parse ex_string ex_index (ex_ask 50) [5] =
     Some (Inr ex_offer, (ex_ask 50)\<lparr>nr_DynamicPorts := nr_DynamicPorts ex_offer\<rparr>, []) \<and>
   (\<exists>idx' gets'. AddReserved ex_index ex_offer [] = Some (idx', False, gets') \<and> net_wf idx' \<and>
     used_ports idx' ''10.0.0.1'' = {22, 20005})"
proof -
  have "net_wf ex_index" "pool_ok []" "distinct (map p_Value (nr_ReservedPorts (ex_ask 50)))"
    by (simp_all add: ex_defs net_wf_def pool_ok_def)
  moreover have "used_ports ex_index ''10.0.0.1'' = {}" "nr_IP ex_offer = ''10.0.0.1''"
    "nat ` set (port_values ex_offer) = {22, 20005}"
    by (simp_all add: ex_defs ex_offer_def used_ports_def port_values_def)
  ultimately show ?thesis
    using AssignNetwork_reservable [OF ex_assign_run, of "[]"] ex_assign_run by auto
qed

theorem AssignNetwork_terminates_witness:
  "net_wf ex_index \<and> net_mask_ok [10, 0, 0, 1] [255, 255, 255, 255] \<and>
   (\<exists>res ask' r'. AssignNetwork ex_parse ex_string ex_index (ex_ask 500) [] = Some (res, ask', r'))"
  using AssignNetwork_terminates [of ex_index ex_parse ex_string "ex_ask 500" "[]"]
  by (simp add: ex_defs net_wf_def net_mask_ok_def)

theorem AssignNetwork_error_witness:
  "AssignNetwork ex_parse ex_string ex_index (ex_ask 500) [] = Some (Inl BandwidthExceeded, ex_ask 500, []) \<and>
   wrap64 (used_bandwidth ex_index ''eth0'' + 500) > 100"
  using AssignNetwork_error [OF ex_assign_fail, of "hd (ni_AvailNetworks ex_index)" "[10, 0, 0, 1]"
      "[255, 255, 255, 255]" 0] ex_assign_fail ex_contains(1)
  by (auto simp: ex_defs net_wf_def used_bandwidth_def wrap64_def go_get_def)

end
