(* ===== verification/Alloc_Fit.thy ===== *)
theory Alloc_Fit
  imports Network
begin

text \<open>
  \<^verbatim>\<open>nomad/structs/funcs.go\<close>: the slice helpers that remove allocations in place, and
  \<open>AllocsFit\<close>, the check every placement passes in the scheduler and again in the plan applier.

  A slice of pointers is a list of options, because the in-place removal writes nil behind
  the kept prefix. \<open>AllocsFit\<close> takes the results of \<open>bitmapPool.Get\<close> and returns the ones it
  did not consume, with the bitmaps its deferred \<open>Release\<close> puts back.
\<close>

section \<open>Removal in place\<close>

text \<open>
  The shared loop: a cell that satisfies \<open>P\<close> is overwritten by the last live cell, which
  becomes nil; \<open>f\<close> is what the loop does with the removed allocation.
\<close>

function swap_remove ::
  "('a \<Rightarrow> bool) \<Rightarrow> ('a \<Rightarrow> 'c \<Rightarrow> 'c) \<Rightarrow> nat \<Rightarrow> nat \<Rightarrow> 'a option list \<Rightarrow> 'c \<Rightarrow>
   ('a option list \<times> nat \<times> 'c) option" where
  "swap_remove P f i n xs c =
     (if i < n
      then case xs ! i of
             None \<Rightarrow> None
           | Some a \<Rightarrow>
               if P a then swap_remove P f i (n - 1) ((xs[i := xs ! (n - 1)])[n - 1 := None]) (f a c)
               else swap_remove P f (i + 1) n xs c
      else Some (xs, n, c))"
  by pat_completeness auto
termination by (relation "measure (\<lambda>(P, f, i, n, xs, c). n - i)") auto

declare swap_remove.simps [simp del]

text \<open>The returned slice and the array behind it.\<close>

definition RemoveAllocs ::
  "allocation option list \<Rightarrow> allocation list \<Rightarrow> (allocation option list \<times> allocation option list) option" where
  "RemoveAllocs alloc remove =
     map_option (\<lambda>(xs, n, _). (take n xs, xs))
       (swap_remove (\<lambda>a. a_ID a \<in> set (map a_ID remove)) (\<lambda>_ u. u) 0 (length alloc) alloc ())"

definition keep_latest :: "allocation \<Rightarrow> (string \<rightharpoonup> allocation) \<Rightarrow> (string \<rightharpoonup> allocation)" where
  "keep_latest a m =
     (if (case m (a_Name a) of None \<Rightarrow> True | Some alloc \<Rightarrow> a_CreateIndex alloc < a_CreateIndex a)
      then m(a_Name a \<mapsto> a) else m)"

definition FilterTerminalAllocs ::
  "allocation option list \<Rightarrow> (allocation option list \<times> (string \<rightharpoonup> allocation)) option" where
  "FilterTerminalAllocs allocs =
     map_option (\<lambda>(xs, n, m). (take n xs, m))
       (swap_remove alloc_TerminalStatus keep_latest 0 (length allocs) allocs Map.empty)"

section \<open>Fitting allocations on a node\<close>

datatype fit_error = NoResourcesSet string

text \<open>The resource deltas one allocation contributes, in the order they are added.\<close>

definition alloc_deltas :: "allocation \<Rightarrow> resources option list option" where
  "alloc_deltas a =
     (case a_Resources a of
        Some r \<Rightarrow> Some [Some r]
      | None \<Rightarrow>
          (case a_TaskResources a of
             Some ts \<Rightarrow> Some (a_SharedResources a # map (\<lambda>(_, r). Some r) ts)
           | None \<Rightarrow> None))"

fun add_used :: "allocation list \<Rightarrow> resources \<Rightarrow> fit_error + resources" where
  "add_used [] used = Inr used"
| "add_used (a # as) used =
     (case alloc_deltas a of
        None \<Rightarrow> Inl (NoResourcesSet (a_ID a))
      | Some ds \<Rightarrow> add_used as (foldl r_Add used ds))"

type_synonym fit_answer = "bool \<times> string \<times> resources"

definition bandwidth_answer :: "network_index \<Rightarrow> resources \<Rightarrow> fit_answer" where
  "bandwidth_answer idx used =
     (if Overcommitted idx then (False, ''bandwidth exceeded'', used) else (True, '''', used))"

definition AllocsFit ::
  "node \<Rightarrow> allocation list \<Rightarrow> network_index option \<Rightarrow> pool \<Rightarrow>
   ((fit_error + fit_answer) \<times> pool \<times> bitmap list) option" where
  "AllocsFit node allocs netIdx gets =
     (let used0 = (case n_Reserved node of None \<Rightarrow> zero_resources | Some r \<Rightarrow> r_Add zero_resources (Some r)) in
      case add_used allocs used0 of
        Inl e \<Rightarrow> Some (Inl e, gets, [])
      | Inr used \<Rightarrow>
          (case Superset (n_Resources node) used of
             (False, dimension) \<Rightarrow> Some (Inr (False, dimension, used), gets, [])
           | (True, _) \<Rightarrow>
               (case netIdx of
                  Some idx \<Rightarrow> Some (Inr (bandwidth_answer idx used), gets, [])
                | None \<Rightarrow>
                    Option.bind (SetNode NewNetworkIndex node gets) (\<lambda>(idx1, collide, gets1).
                      if collide
                      then Some (Inr (False, ''reserved port collision'', used), gets1, ni_Release idx1)
                      else Option.bind (AddAllocs idx1 allocs gets1) (\<lambda>(idx2, collide', gets2).
                        if collide'
                        then Some (Inr (False, ''reserved port collision'', used), gets2, ni_Release idx2)
                        else Some (Inr (bandwidth_answer idx2 used), gets2, ni_Release idx2))))))"

section \<open>Small helpers\<close>

definition DenormalizeAllocationJobs :: "job option \<Rightarrow> allocation list \<Rightarrow> allocation list" where
  "DenormalizeAllocationJobs j allocs =
     (case j of
        None \<Rightarrow> allocs
      | Some job \<Rightarrow>
          map (\<lambda>a. if a_Job a = None \<and> \<not> alloc_TerminalStatus a then a\<lparr>a_Job := Some job\<rparr> else a) allocs)"

text \<open>Decimal printing of \<open>%d\<close> for an unsigned number.\<close>

fun decimal :: "nat \<Rightarrow> string" where
  "decimal n = (if n < 10 then [char_of (48 + n)] else decimal (n div 10) @ [char_of (48 + n mod 10)])"

declare decimal.simps [simp del]

definition AllocName :: "string \<Rightarrow> string \<Rightarrow> nat \<Rightarrow> string" where
  "AllocName job grp idx = job @ ''.'' @ grp @ ''['' @ decimal idx @ '']''"

section \<open>Removal: laws\<close>

lemma mset_overwrite:
  assumes "i < length ys"
  shows "add_mset x (mset ys) = add_mset (ys ! i) (mset (ys[i := x]))"
proof -
  have "ys ! i \<in># mset ys" using assms by simp
  then have "add_mset (ys ! i) (mset ys - {#ys ! i#}) = mset ys" by (rule insert_DiffM)
  then show ?thesis using assms by (metis mset_update add_mset_commute)
qed

text \<open>Overwriting a cell by the last one of a prefix removes that cell from the prefix.\<close>

lemma mset_overwrite_last:
  assumes "i < n" "n \<le> length xs"
  shows "mset (take n xs) = add_mset (xs ! i) (mset (take (n - 1) ((xs[i := xs ! (n - 1)])[n - 1 := z])))"
proof -
  have n: "n = Suc (n - 1)" using assms by simp
  have cut: "take n xs = take (n - 1) xs @ [xs ! (n - 1)]"
    using assms n by (metis Suc_le_lessD take_Suc_conv_app_nth)
  show ?thesis
  proof (cases "i = n - 1")
    case True
    then show ?thesis using cut by simp
  next
    case False
    with assms have i: "i < n - 1" by simp
    then have "i < length (take (n - 1) xs)" "take (n - 1) xs ! i = xs ! i" using assms by simp_all
    then have "add_mset (xs ! (n - 1)) (mset (take (n - 1) xs)) =
        add_mset (xs ! i) (mset ((take (n - 1) xs)[i := xs ! (n - 1)]))"
      by (metis mset_overwrite)
    then show ?thesis using cut i by (simp add: take_update_swap list_update_beyond)
  qed
qed

lemma swap_remove_spec:
  assumes "n \<le> length xs" "\<forall>k < n. xs ! k \<noteq> None" "i \<le> n" "\<forall>k < i. \<not> P (the (xs ! k))"
  shows "\<exists>ys m c'. swap_remove P f i n xs c = Some (ys, m, c') \<and> length ys = length xs \<and> m \<le> n \<and>
    (\<forall>k < m. ys ! k \<noteq> None) \<and>
    mset (map the (take m ys)) = filter_mset (\<lambda>a. \<not> P a) (mset (map the (take n xs)))"
  using assms
proof (induction P f i n xs c rule: swap_remove.induct)
  case (1 P f i n xs c)
  show ?case
  proof (cases "i < n")
    case False
    with "1.prems" have "i = n" by simp
    have "filter_mset (\<lambda>a. \<not> P a) (mset (map the (take n xs))) = mset (map the (take n xs))"
      unfolding filter_mset_eq_conv using "1.prems"(1,4) \<open>i = n\<close>
      by (auto simp: in_set_conv_nth)
    with False "1.prems" show ?thesis by (simp add: swap_remove.simps)
  next
    case True
    with "1.prems" obtain a where a: "xs ! i = Some a" by blast
    show ?thesis
    proof (cases "P a")
      case False
      then have "\<forall>k < i + 1. \<not> P (the (xs ! k))" using "1.prems"(4) a by (auto simp: less_Suc_eq)
      from "1.IH"(2) [OF True a False "1.prems"(1,2) _ this] True a False show ?thesis
        by (simp add: swap_remove.simps [of P f i n])
    next
      case P: True
      let ?xs = "(xs[i := xs ! (n - 1)])[n - 1 := None]"
      have perm: "mset (take n xs) = add_mset (Some a) (mset (take (n - 1) ?xs))"
        using mset_overwrite_last [OF True "1.prems"(1), of None] a by simp
      have "\<forall>k < n - 1. ?xs ! k \<noteq> None"
        using "1.prems"(1,2) True by (auto simp: nth_list_update)
      moreover have "\<forall>k < i. \<not> P (the (?xs ! k))" using "1.prems"(4) True by (auto simp: nth_list_update)
      moreover have "n - 1 \<le> length ?xs" "i \<le> n - 1" using "1.prems"(1) True by simp_all
      ultimately obtain ys m c' where ys: "swap_remove P f i (n - 1) ?xs (f a c) = Some (ys, m, c')"
        "length ys = length xs" "m \<le> n - 1" "\<forall>k < m. ys ! k \<noteq> None"
        "mset (map the (take m ys)) = filter_mset (\<lambda>a. \<not> P a) (mset (map the (take (n - 1) ?xs)))"
        using "1.IH"(1) [OF True a P] by auto
      have "filter_mset (\<lambda>a. \<not> P a) (mset (map the (take n xs))) =
          filter_mset (\<lambda>a. \<not> P a) (mset (map the (take (n - 1) ?xs)))"
        using P by (simp add: perm)
      with ys True a P show ?thesis by (auto simp: swap_remove.simps [of P f i n])
    qed
  qed
qed

text \<open>The map of removed allocations keeps, per name, one with the highest create index.\<close>

definition latest_ok :: "(allocation \<Rightarrow> bool) \<Rightarrow> (string \<rightharpoonup> allocation) \<Rightarrow> bool" where
  "latest_ok R m \<longleftrightarrow> (\<forall>nm a. m nm = Some a \<longrightarrow> R a \<and> a_Name a = nm) \<and>
     (\<forall>a. R a \<longrightarrow> (\<exists>b. m (a_Name a) = Some b \<and> a_CreateIndex a \<le> a_CreateIndex b))"

lemma keep_latest_ok:
  assumes "latest_ok R m"
  shows "latest_ok (\<lambda>b. R b \<or> b = a) (keep_latest a m)"
proof -
  have "\<exists>b'. keep_latest a m (a_Name b) = Some b' \<and> a_CreateIndex b \<le> a_CreateIndex b'"
    if "R b \<or> b = a" for b
  proof (cases "m (a_Name a)")
    case None
    with assms that show ?thesis by (fastforce simp: latest_ok_def keep_latest_def)
  next
    case (Some c)
    show ?thesis
    proof (cases "R b")
      case True
      then obtain b' where "m (a_Name b) = Some b'" "a_CreateIndex b \<le> a_CreateIndex b'"
        using assms by (auto simp: latest_ok_def)
      with Some show ?thesis by (cases "a_Name b = a_Name a") (auto simp: keep_latest_def)
    next
      case False
      with that Some show ?thesis by (auto simp: keep_latest_def)
    qed
  qed
  moreover have "(R b \<or> b = a) \<and> a_Name b = nm" if "keep_latest a m nm = Some b" for nm b
    using that assms by (auto simp: latest_ok_def keep_latest_def split: if_splits)
  ultimately show ?thesis by (simp add: latest_ok_def)
qed

lemma swap_remove_acc:
  assumes "swap_remove P f i n xs c = Some (ys, m, c')" "n \<le> length xs" "I R c"
    "i \<le> n" "\<forall>k < i. xs ! k \<noteq> None \<and> \<not> P (the (xs ! k))"
    "\<forall>R a c. I R c \<longrightarrow> I (\<lambda>b. R b \<or> b = a) (f a c)"
  shows "\<exists>R'. I R' c' \<and> R' = (\<lambda>b. R b \<or> P b \<and> Some b \<in> set (take n xs))"
  using assms
proof (induction P f i n xs c arbitrary: R rule: swap_remove.induct)
  case (1 P f i n xs c)
  show ?case
  proof (cases "i < n")
    case False
    with "1.prems" have "i = n" by simp
    then have "\<not> P b" if "Some b \<in> set (take n xs)" for b
      using that "1.prems"(2,5) by (auto simp: in_set_conv_nth)
    then have "R = (\<lambda>b. R b \<or> P b \<and> Some b \<in> set (take n xs))" by auto
    with False "1.prems"(1,3) show ?thesis by (auto simp: swap_remove.simps [of P f i n])
  next
    case True
    with "1.prems"(1) obtain a where a: "xs ! i = Some a"
      by (auto simp: swap_remove.simps [of P f i n] split: option.splits)
    show ?thesis
    proof (cases "P a")
      case False
      with "1.prems" a have "\<forall>k < i + 1. xs ! k \<noteq> None \<and> \<not> P (the (xs ! k))"
        by (auto simp: less_Suc_eq)
      with "1.IH"(2) [OF True a False, of R] "1.prems" True a False show ?thesis
        by (simp add: swap_remove.simps [of P f i n])
    next
      case P: True
      let ?xs = "(xs[i := xs ! (n - 1)])[n - 1 := None]"
      have run: "swap_remove P f i (n - 1) ?xs (f a c) = Some (ys, m, c')"
        using "1.prems"(1) True a P by (simp add: swap_remove.simps [of P f i n])
      have pre: "\<forall>k < i. ?xs ! k \<noteq> None \<and> \<not> P (the (?xs ! k))"
        using "1.prems"(5) True by (auto simp: nth_list_update)
      have "Some b \<in> set (take n xs) \<longleftrightarrow> b = a \<or> Some b \<in> set (take (n - 1) ?xs)" for b
        using mset_overwrite_last [OF True "1.prems"(2), of None, THEN arg_cong, of set_mset] a by auto
      then have "(\<lambda>b. (R b \<or> b = a) \<or> P b \<and> Some b \<in> set (take (n - 1) ?xs)) =
          (\<lambda>b. R b \<or> P b \<and> Some b \<in> set (take n xs))" using P by auto
      with "1.IH"(1) [OF True a P run, of "\<lambda>b. R b \<or> b = a"] "1.prems"(2,3,6) pre True
      show ?thesis by simp
    qed
  qed
qed


section \<open>Fitting: laws\<close>

text \<open>
  The specification of a fit, over unbounded integers: what the node reserves and what the
  allocations ask, against what the node has.
\<close>

definition opt_dim :: "(resources \<Rightarrow> int) \<Rightarrow> resources option \<Rightarrow> int" where
  "opt_dim f d = (case d of None \<Rightarrow> 0 | Some r \<Rightarrow> f r)"

definition deltas_of :: "allocation list \<Rightarrow> resources option list" where
  "deltas_of allocs = concat (map (\<lambda>a. case alloc_deltas a of None \<Rightarrow> [] | Some ds \<Rightarrow> ds) allocs)"

definition demand :: "(resources \<Rightarrow> int) \<Rightarrow> node \<Rightarrow> allocation list \<Rightarrow> int" where
  "demand f node allocs = opt_dim f (n_Reserved node) + sum_list (map (opt_dim f) (deltas_of allocs))"

definition claimed_networks :: "node \<Rightarrow> allocation list \<Rightarrow> network_resource list" where
  "claimed_networks node allocs =
     (case n_Reserved node of None \<Rightarrow> [] | Some r \<Rightarrow> r_Networks r) @ concat (map alloc_networks allocs)"

definition node_bandwidth :: "node \<Rightarrow> string \<Rightarrow> int" where
  "node_bandwidth node d =
     amap_get 0 (fold (\<lambda>n. amap_put (nr_Device n) (nr_MBits n))
       (filter (\<lambda>n. nr_Device n \<noteq> '''') (r_Networks (n_Resources node))) []) d"

definition dimensions :: "(resources \<Rightarrow> int) list" where
  "dimensions = [r_CPU, r_MemoryMB, r_DiskMB, r_IOPS]"

definition fits_spec :: "node \<Rightarrow> allocation list \<Rightarrow> bool" where
  "fits_spec node allocs \<longleftrightarrow>
     list_all (\<lambda>f. demand f node allocs \<le> f (n_Resources node)) dimensions \<and>
     (\<forall>ip. \<not> collides {} (ports_on ip (claimed_networks node allocs))) \<and>
     list_all (\<lambda>n. bandwidth_on (nr_Device n) (claimed_networks node allocs) \<le> node_bandwidth node (nr_Device n))
       (claimed_networks node allocs)"

text \<open>No sum leaves the 64-bit range.\<close>

definition no_overflow :: "node \<Rightarrow> allocation list \<Rightarrow> bool" where
  "no_overflow node allocs \<longleftrightarrow> list_all (\<lambda>f. int64 (demand f node allocs)) dimensions \<and>
     list_all (\<lambda>n. int64 (bandwidth_on (nr_Device n) (claimed_networks node allocs)))
       (claimed_networks node allocs)"

lemma r_Add_dim: "f \<in> set dimensions \<Longrightarrow> f (r_Add r (Some d)) = wrap64 (f r + f d)"
  by (auto simp: dimensions_def r_Add_def)

lemma foldl_r_Add_dim:
  assumes "f \<in> set dimensions" "int64 (f r)"
  shows "f (foldl r_Add r ds) = wrap64 (f r + sum_list (map (opt_dim f) ds))"
  using assms(2)
proof (induction ds arbitrary: r)
  case (Cons d ds)
  show ?case
  proof (cases d)
    case None
    with Cons show ?thesis by (simp add: r_Add_def opt_dim_def)
  next
    case (Some x)
    with Cons.IH [of "r_Add r d"] show ?thesis
      by (simp add: r_Add_dim [OF assms(1)] opt_dim_def add.assoc)
  qed
qed simp

lemma add_used_eq:
  "list_all (\<lambda>a. alloc_deltas a \<noteq> None) allocs \<Longrightarrow> add_used allocs used = Inr (foldl r_Add used (deltas_of allocs))"
  by (induction allocs arbitrary: used) (auto simp: deltas_of_def)

lemma add_used_demand:
  assumes "list_all (\<lambda>a. alloc_deltas a \<noteq> None) allocs" "f \<in> set dimensions" "int64 (demand f node allocs)"
  shows "\<exists>used. add_used allocs (case n_Reserved node of None \<Rightarrow> zero_resources | Some r \<Rightarrow> r_Add zero_resources (Some r)) = Inr used \<and>
    f used = demand f node allocs"
proof -
  have 0: "f zero_resources = 0" "int64 0"
    using assms(2) by (auto simp: dimensions_def zero_resources_def int64_def)
  have "add_used allocs (case n_Reserved node of None \<Rightarrow> zero_resources | Some r \<Rightarrow> r_Add zero_resources (Some r)) =
      Inr (foldl r_Add zero_resources (n_Reserved node # deltas_of allocs))"
    using add_used_eq [OF assms(1)] by (simp add: r_Add_def [of _ None] split: option.splits)
  with foldl_r_Add_dim [OF assms(2), of zero_resources "n_Reserved node # deltas_of allocs"] 0 assms(3)
  show ?thesis by (auto simp: demand_def)
qed

lemma reserve_all_append:
  "reserve_all (xs @ ys) idx c gets =
     Option.bind (reserve_all xs idx c gets) (\<lambda>(idx', c', gets'). reserve_all ys idx' c' gets')"
  by (induction xs arbitrary: idx c gets) (auto split: option.splits)

lemma Overcommitted_iff:
  assumes "net_wf idx"
  shows "Overcommitted idx \<longleftrightarrow>
    (\<exists>d \<in> fst ` set (ni_UsedBandwidth idx). used_bandwidth idx d > amap_get 0 (ni_AvailBandwidth idx) d)"
proof -
  have d: "distinct (map fst (ni_UsedBandwidth idx))" using assms by (simp add: net_wf_def)
  have "used_bandwidth idx k = v" if "(k, v) \<in> set (ni_UsedBandwidth idx)" for k v
    using map_of_is_SomeI [OF d that] by (simp add: used_bandwidth_def go_get_def)
  then have "(case p of (k, v) \<Rightarrow> v > amap_get 0 (ni_AvailBandwidth idx) k) \<longleftrightarrow>
      used_bandwidth idx (fst p) > amap_get 0 (ni_AvailBandwidth idx) (fst p)"
    if "p \<in> set (ni_UsedBandwidth idx)" for p
    using that by (cases p) auto
  then show ?thesis by (simp add: Overcommitted_def list_ex_iff cong: bex_cong)
qed

text \<open>The network part of the check: the node's reserved networks, then the allocations'.\<close>

lemma network_check:
  fixes node :: node and allocs :: "allocation list"
  assumes "pool_ok gets"
  defines "ns \<equiv> claimed_networks node allocs"
  obtains (at_node) idx gets' where "SetNode NewNetworkIndex node gets = Some (idx, True, gets')"
      "\<exists>ip. collides {} (ports_on ip ns)"
    | (at_allocs) idx1 gets1 idx2 gets2 where "SetNode NewNetworkIndex node gets = Some (idx1, False, gets1)"
      "AddAllocs idx1 allocs gets1 = Some (idx2, True, gets2)" "\<exists>ip. collides {} (ports_on ip ns)"
    | (free) idx1 gets1 idx2 gets2 where "SetNode NewNetworkIndex node gets = Some (idx1, False, gets1)"
      "AddAllocs idx1 allocs gets1 = Some (idx2, False, gets2)" "\<forall>ip. \<not> collides {} (ports_on ip ns)"
      "net_wf idx2" "fst ` set (ni_UsedBandwidth idx2) = nr_Device ` set ns"
      "\<forall>d \<in> nr_Device ` set ns. used_bandwidth idx2 d = wrap64 (bandwidth_on d ns)"
      "\<forall>d. amap_get 0 (ni_AvailBandwidth idx2) d = node_bandwidth node d"
proof -
  let ?avail = "filter (\<lambda>n. nr_Device n \<noteq> '''') (r_Networks (n_Resources node))"
  define idx0 where "idx0 = NewNetworkIndex\<lparr>ni_AvailNetworks := ni_AvailNetworks NewNetworkIndex @ ?avail,
    ni_AvailBandwidth := fold (\<lambda>n. amap_put (nr_Device n) (nr_MBits n)) ?avail (ni_AvailBandwidth NewNetworkIndex)\<rparr>"
  let ?xs = "case n_Reserved node of None \<Rightarrow> [] | Some r \<Rightarrow> r_Networks r"
  let ?ys = "concat (map alloc_networks allocs)"
  have wf0: "net_wf idx0" and ports0: "used_ports idx0 ip = {}" and bw0: "used_bandwidth idx0 d = 0"
    "ni_UsedBandwidth idx0 = []" "amap_get 0 (ni_AvailBandwidth idx0) d = node_bandwidth node d" for ip d
    by (simp_all add: idx0_def net_wf_def NewNetworkIndex_def used_ports_def used_bandwidth_def go_get_def
        node_bandwidth_def)
  have set_node: "SetNode NewNetworkIndex node gets = reserve_all ?xs idx0 False gets"
    by (simp add: SetNode_def idx0_def Let_def split: option.splits)
  have ns: "ns = ?xs @ ?ys" by (simp add: ns_def claimed_networks_def)
  obtain idx1 c1 gets1 where a: "reserve_all ?xs idx0 False gets = Some (idx1, c1, gets1)"
    "c1 \<longleftrightarrow> False \<or> (\<exists>ip. collides (used_ports idx0 ip) (ports_on ip ?xs))"
    using reserve_all_spec [OF wf0 assms(1), of ?xs False] by (elim exE conjE) (rule that)
  obtain idx2 c2 gets2 where b: "reserve_all ns idx0 False gets = Some (idx2, c2, gets2)"
    "net_wf idx2" "ni_AvailBandwidth idx2 = ni_AvailBandwidth idx0"
    "c2 \<longleftrightarrow> False \<or> (\<exists>ip. collides (used_ports idx0 ip) (ports_on ip ns))"
    and bw: "\<not> c2 \<longrightarrow> (\<forall>ip. used_ports idx2 ip = used_ports idx0 ip \<union> nat ` set (ports_on ip ns)) \<and>
       (\<forall>d. used_bandwidth idx2 d = (if d \<in> nr_Device ` set ns
          then wrap64 (used_bandwidth idx0 d + bandwidth_on d ns) else used_bandwidth idx0 d)) \<and>
       fst ` set (ni_UsedBandwidth idx2) = fst ` set (ni_UsedBandwidth idx0) \<union> nr_Device ` set ns"
    using reserve_all_spec [OF wf0 assms(1), of ns False] by (elim exE conjE) (rule that)
  from a(1) b(1) have run: "reserve_all ?ys idx1 c1 gets1 = Some (idx2, c2, gets2)"
    unfolding ns by (simp add: reserve_all_append)
  show ?thesis
  proof (cases c1)
    case True
    then have "\<exists>ip. collides {} (ports_on ip ns)"
      using a(2) unfolding ns by (auto simp: ports0 ports_on_def collides_append)
    with True a(1) show ?thesis by (intro at_node) (simp_all add: set_node)
  next
    case False
    then have add: "AddAllocs idx1 allocs gets1 = Some (idx2, c2, gets2)" using run by (simp add: AddAllocs_def)
    show ?thesis
    proof (cases c2)
      case True
      with False a(1) add b(4) show ?thesis by (intro at_allocs) (simp_all add: set_node ports0)
    next
      case c2: False
      with False a(1) add b bw show ?thesis
        by (intro free) (auto simp: set_node ports0 bw0)
    qed
  qed
qed

lemma AllocsFit_decides:
  assumes "pool_ok gets" "list_all (\<lambda>a. alloc_deltas a \<noteq> None) allocs" "no_overflow node allocs"
  shows "\<exists>fit dim used rest. AllocsFit node allocs None gets = Some (Inr (fit, dim, used), rest) \<and>
    (fit \<longleftrightarrow> fits_spec node allocs) \<and> (fit \<longleftrightarrow> dim = '''') \<and>
    list_all (\<lambda>f. f used = demand f node allocs) dimensions"
proof -
  define used0 where "used0 = (case n_Reserved node of None \<Rightarrow> zero_resources | Some r \<Rightarrow> r_Add zero_resources (Some r))"
  obtain used where used: "add_used allocs used0 = Inr used"
    using add_used_eq [OF assms(2)] by blast
  have dim: "f used = demand f node allocs" if "f \<in> set dimensions" for f
    using add_used_demand [OF assms(2) that, of node] assms(3) that used unfolding used0_def
    by (auto simp: no_overflow_def list_all_iff)
  have super: "fst (Superset (n_Resources node) used) \<longleftrightarrow>
      list_all (\<lambda>f. demand f node allocs \<le> f (n_Resources node)) dimensions"
    using dim by (simp add: Superset_iff dimensions_def)
  have dims: "list_all (\<lambda>f. f used = demand f node allocs) dimensions" using dim by (simp add: list_all_iff)
  show ?thesis
  proof (cases "Superset (n_Resources node) used")
    case (Pair ok dimension)
    show ?thesis
    proof (cases ok)
      case False
      with Pair Superset_dimension [of "n_Resources node" used] super used dims show ?thesis
        by (auto simp: AllocsFit_def used0_def fits_spec_def)
    next
      case True
      note unf = AllocsFit_def used0_def [symmetric] used Pair True
      show ?thesis
      proof (cases rule: network_check [OF assms(1), of node allocs, case_names at_node at_allocs free])
        case (at_node idx gets')
        then show ?thesis using dims by (auto simp: unf fits_spec_def)
      next
        case (at_allocs idx1 gets1 idx2 gets2)
        then show ?thesis using dims by (auto simp: unf fits_spec_def)
      next
        case (free idx1 gets1 idx2 gets2)
        have "int64 (bandwidth_on d (claimed_networks node allocs))"
          if "d \<in> nr_Device ` set (claimed_networks node allocs)" for d
          using assms(3) that by (auto simp: no_overflow_def list_all_iff)
        then have "Overcommitted idx2 \<longleftrightarrow> \<not> list_all (\<lambda>n. bandwidth_on (nr_Device n) (claimed_networks node allocs)
            \<le> node_bandwidth node (nr_Device n)) (claimed_networks node allocs)"
          using free(6,7) by (auto simp: Overcommitted_iff [OF free(4)] free(5) list_all_iff not_le)
        then show ?thesis
          using free(1-3) dims super Pair True by (auto simp: unf fits_spec_def bandwidth_answer_def)
      qed
    qed
  qed
qed


section \<open>Properties\<close>

lemma swap_remove_all:
  obtains kept ys m c' where "swap_remove P f 0 (length xs) (map Some xs) c = Some (ys, m, c')"
    "take m ys = map Some kept" "mset kept = filter_mset (\<lambda>a. \<not> P a) (mset xs)"
proof -
  have "\<exists>ys m c'. swap_remove P f 0 (length xs) (map Some xs) c = Some (ys, m, c') \<and>
      length ys = length (map Some xs) \<and> m \<le> length xs \<and> (\<forall>k < m. ys ! k \<noteq> None) \<and>
      mset (map the (take m ys)) = filter_mset (\<lambda>a. \<not> P a) (mset (map the (take (length xs) (map Some xs))))"
    by (rule swap_remove_spec) simp_all
  then obtain ys m c' where r: "swap_remove P f 0 (length xs) (map Some xs) c = Some (ys, m, c')"
    "length ys = length (map Some xs)" "m \<le> length xs" "\<forall>k < m. ys ! k \<noteq> None"
    "mset (map the (take m ys)) = filter_mset (\<lambda>a. \<not> P a) (mset (map the (take (length xs) (map Some xs))))"
    by (elim exE conjE) (rule that)
  have "take m ys = map Some (map the (take m ys))"
    using r(2-4) by (intro nth_equalityI) auto
  moreover have "mset (map the (take m ys)) = filter_mset (\<lambda>a. \<not> P a) (mset xs)"
    using r(5) by (simp add: comp_def)
  ultimately show ?thesis using r(1) that by blast
qed

lemma RemoveAllocs_mset:
  "\<exists>kept arr. RemoveAllocs (map Some allocs) remove = Some (map Some kept, arr) \<and>
     mset kept = filter_mset (\<lambda>a. a_ID a \<notin> a_ID ` set remove) (mset allocs)"
proof -
  obtain kept ys m c where "swap_remove (\<lambda>a. a_ID a \<in> set (map a_ID remove)) (\<lambda>_ u. u) 0 (length allocs)
      (map Some allocs) () = Some (ys, m, c)" "take m ys = map Some kept"
    "mset kept = filter_mset (\<lambda>a. \<not> a_ID a \<in> set (map a_ID remove)) (mset allocs)"
    by (rule swap_remove_all)
  then show ?thesis by (auto simp: RemoveAllocs_def)
qed

text \<open>
  C15: \<open>RemoveAllocs\<close> returns, without reading a nil entry, exactly the allocations whose ID is not
  among the removed ones, each as often as before, in some order.
\<close>

theorem RemoveAllocs_filter:
  "\<exists>kept arr. RemoveAllocs (map Some allocs) remove = Some (map Some kept, arr) \<and>
     mset kept = filter_mset (\<lambda>a. a_ID a \<notin> a_ID ` set remove) (mset allocs)"
  by (rule RemoveAllocs_mset)

text \<open>
  C14: \<open>FilterTerminalAllocs\<close> keeps exactly the non-terminal allocations, and for every name among the
  terminal ones it returns a terminal allocation of that name with the highest create index.
\<close>

theorem FilterTerminalAllocs_split:
  "\<exists>kept m. FilterTerminalAllocs (map Some allocs) = Some (map Some kept, m) \<and>
     mset kept = filter_mset (\<lambda>a. \<not> alloc_TerminalStatus a) (mset allocs) \<and>
     (\<forall>nm a. m nm = Some a \<longrightarrow> a \<in> set allocs \<and> alloc_TerminalStatus a \<and> a_Name a = nm) \<and>
     (\<forall>a \<in> set allocs. alloc_TerminalStatus a \<longrightarrow>
        (\<exists>b. m (a_Name a) = Some b \<and> a_CreateIndex a \<le> a_CreateIndex b))"
proof -
  obtain kept ys n m where r: "swap_remove alloc_TerminalStatus keep_latest 0 (length allocs)
      (map Some allocs) Map.empty = Some (ys, n, m)" "take n ys = map Some kept"
    "mset kept = filter_mset (\<lambda>a. \<not> alloc_TerminalStatus a) (mset allocs)"
    by (rule swap_remove_all)
  have "latest_ok (\<lambda>b. alloc_TerminalStatus b \<and> b \<in> set allocs) m"
  proof -
    have empty: "latest_ok (\<lambda>_. False) Map.empty" by (simp add: latest_ok_def)
    have "\<forall>R a c. latest_ok R c \<longrightarrow> latest_ok (\<lambda>b. R b \<or> b = a) (keep_latest a c)"
      using keep_latest_ok by blast
    from swap_remove_acc [OF r(1) _ empty _ _ this] show ?thesis by (simp add: image_iff)
  qed
  with r show ?thesis by (auto simp: FilterTerminalAllocs_def latest_ok_def)
qed

theorem FilterTerminalAllocs_split_witness:
  "\<exists>kept m. FilterTerminalAllocs (map Some [zero_alloc\<lparr>a_Name := ''x'', a_DesiredStatus := ''stop''\<rparr>, zero_alloc]) =
       Some (map Some kept, m) \<and> kept = [zero_alloc] \<and> m ''x'' \<noteq> None"
proof -
  let ?t = "zero_alloc\<lparr>a_Name := ''x'', a_DesiredStatus := ''stop''\<rparr>"
  have t: "alloc_TerminalStatus ?t" "\<not> alloc_TerminalStatus zero_alloc" by code_simp+
  obtain kept m where r: "FilterTerminalAllocs (map Some [?t, zero_alloc]) = Some (map Some kept, m)"
    "mset kept = filter_mset (\<lambda>a. \<not> alloc_TerminalStatus a) (mset [?t, zero_alloc])"
    "\<forall>a \<in> set [?t, zero_alloc]. alloc_TerminalStatus a \<longrightarrow>
        (\<exists>b. m (a_Name a) = Some b \<and> a_CreateIndex a \<le> a_CreateIndex b)"
    using FilterTerminalAllocs_split [of "[?t, zero_alloc]"] by blast
  from r(2) t have "mset kept = {#zero_alloc#}" by simp
  then have "kept = [zero_alloc]" by simp
  moreover from r(3) t have "m ''x'' \<noteq> None" by auto
  ultimately show ?thesis using r(1) by blast
qed

text \<open>
  C5: \<open>AllocsFit\<close> decides the specification of a fit. When every allocation has resources and no sum
  overflows, it answers, and the answer is yes exactly when each of CPU, memory, disk and IOPS
  stays within the node, no port of an IP is claimed twice, and no device exceeds its bandwidth;
  the returned utilisation is the exact demand.
\<close>

theorem AllocsFit_iff:
  assumes "pool_ok gets" "list_all (\<lambda>a. alloc_deltas a \<noteq> None) allocs" "no_overflow node allocs"
  shows "\<exists>fit dim used rest. AllocsFit node allocs None gets = Some (Inr (fit, dim, used), rest) \<and>
    (fit \<longleftrightarrow> fits_spec node allocs) \<and> (fit \<longleftrightarrow> dim = '''') \<and>
    list_all (\<lambda>f. f used = demand f node allocs) dimensions"
  using assms by (rule AllocsFit_decides)

definition ex_node :: node where
  "ex_node = zero_node\<lparr>n_ID := ''n1'', n_Status := ''ready'',
     n_Resources := zero_resources\<lparr>r_CPU := 1000, r_MemoryMB := 1000,
       r_Networks := [zero_network\<lparr>nr_Device := ''eth0'', nr_CIDR := ''10.0.0.1/32'', nr_MBits := 100\<rparr>]\<rparr>\<rparr>"

definition ex_alloc :: "string \<Rightarrow> int \<Rightarrow> int \<Rightarrow> allocation" where
  "ex_alloc name cpu port = zero_alloc\<lparr>a_ID := name, a_NodeID := ''n1'', a_TaskResources := Some [(''web'',
     zero_resources\<lparr>r_CPU := cpu, r_MemoryMB := 100, r_Networks :=
     [zero_network\<lparr>nr_Device := ''eth0'', nr_IP := ''10.0.0.1'', nr_MBits := 10,
        nr_ReservedPorts := [\<lparr>p_Label = ''p'', p_Value = port\<rparr>]\<rparr>]\<rparr>)]\<rparr>"

lemmas ex_fit_defs = ex_node_def ex_alloc_def zero_node_def zero_alloc_def zero_resources_def zero_network_def

lemma ex_fit_demand:
  "demand r_CPU ex_node [ex_alloc ''a'' c p, ex_alloc ''b'' d q] = c + d"
  "demand r_MemoryMB ex_node [ex_alloc ''a'' c p, ex_alloc ''b'' d q] = 200"
  "demand r_DiskMB ex_node [ex_alloc ''a'' c p, ex_alloc ''b'' d q] = 0"
  "demand r_IOPS ex_node [ex_alloc ''a'' c p, ex_alloc ''b'' d q] = 0"
  "ports_on ip (claimed_networks ex_node [ex_alloc ''a'' c p, ex_alloc ''b'' d q]) =
     (if ip = ''10.0.0.1'' then [p, q] else [])"
  "nr_Device ` set (claimed_networks ex_node [ex_alloc ''a'' c p, ex_alloc ''b'' d q]) = {''eth0''}"
  "bandwidth_on ''eth0'' (claimed_networks ex_node [ex_alloc ''a'' c p, ex_alloc ''b'' d q]) = 20"
  "node_bandwidth ex_node ''eth0'' = 100"
  by (simp_all add: demand_def deltas_of_def alloc_deltas_def opt_dim_def claimed_networks_def
      alloc_networks_def ports_on_def port_values_def bandwidth_on_def node_bandwidth_def go_get_def ex_fit_defs)

lemma ex_fit_spec:
  "fits_spec ex_node [ex_alloc ''a'' c p, ex_alloc ''b'' d q] \<longleftrightarrow>
     c + d \<le> 1000 \<and> \<not> collides {} [p, q]"
proof -
  have dev: "nr_Device n = ''eth0''" if "n \<in> set (claimed_networks ex_node [ex_alloc ''a'' c p, ex_alloc ''b'' d q])" for n
    using that ex_fit_demand(6) [of c p d q] by blast
  have "r_CPU (n_Resources ex_node) = 1000" "r_MemoryMB (n_Resources ex_node) = 1000"
    "r_DiskMB (n_Resources ex_node) = 0" "r_IOPS (n_Resources ex_node) = 0"
    by (simp_all add: ex_fit_defs)
  with dev show ?thesis
    by (auto simp: fits_spec_def dimensions_def ex_fit_demand list_all_iff)
qed

theorem AllocsFit_iff_witness:
  "(\<exists>used rest. AllocsFit ex_node [ex_alloc ''a'' 600 80, ex_alloc ''b'' 300 81] None [] =
      Some (Inr (True, '''', used), rest) \<and> r_CPU used = 900) \<and>
   (\<exists>dim used rest. AllocsFit ex_node [ex_alloc ''a'' 600 80, ex_alloc ''b'' 300 80] None [] =
      Some (Inr (False, dim, used), rest))"
proof -
  have ok: "list_all (\<lambda>a. alloc_deltas a \<noteq> None) [ex_alloc ''a'' 600 p, ex_alloc ''b'' 300 q]" for p q
    by (simp add: alloc_deltas_def ex_fit_defs)
  have dev: "nr_Device n = ''eth0''" if "n \<in> set (claimed_networks ex_node [ex_alloc ''a'' c p, ex_alloc ''b'' d q])" for n c p d q
    using that ex_fit_demand(6) [of c p d q] by blast
  have ov: "no_overflow ex_node [ex_alloc ''a'' 600 p, ex_alloc ''b'' 300 q]" for p q
    using dev by (auto simp: no_overflow_def dimensions_def ex_fit_demand list_all_iff int64_def)
  have "\<not> collides {} [80, 81]" "collides {} [80, 80]"
    by (simp_all add: collides_def valid_port_def maxValidPort_def)
  with AllocsFit_iff [OF _ ok ov, of "[]" 80 81] AllocsFit_iff [OF _ ok ov, of "[]" 80 80]
  show ?thesis by (auto simp: pool_ok_def ex_fit_spec dimensions_def ex_fit_demand)
qed

end
