(* ===== verification/Eval_Broker.thy ===== *)
theory Eval_Broker
  imports Structs Go_Heap
begin

text \<open>
  \<^verbatim>\<open>nomad/eval_broker.go\<close>: the leader's queue of evaluations. An evaluation is tracked by ID,
  serialised per job, delivered to a scheduler under a token, and acknowledged or returned.

  Every method but \<open>SetEnabled\<close> holds the lock for its whole body, so a method is one function on the
  state; \<open>SetEnabled(false)\<close> is two, the flag and \<open>Flush\<close>. The run time's timers are part of the state: a handle is a number, \<open>rt_active\<close> holds the
  armed timers with their callbacks, \<open>rt_fired\<close> the callbacks whose goroutine has started and
  does not hold the lock yet. Any armed timer may fire at any moment. A notification channel
  of capacity one is whether its buffer is full. The token that \<open>GenerateUUID\<close> returned and the
  number that \<open>rand.Intn\<close> drew are arguments. A nil statistics entry that the code
  dereferences is a panic, \<open>None\<close>.
\<close>

section \<open>State\<close>

definition failedQueue :: string where "failedQueue = ''_failed''"

datatype broker_error =
    ErrNotOutstanding | ErrTokenMismatch | ErrNackTimeoutReached
  | EvalNotFound | TokenDoesNotMatch | AckAfterExpiration | NegativeTimeout | BrokerDisabled

datatype callback = NackCb string string | WaitCb evaluation

record sched_stats =
  ss_Ready :: int
  ss_Unacked :: int

record unack_eval =
  ua_Eval :: evaluation
  ua_Token :: string
  ua_NackTimer :: nat

record eval_broker =
  eb_nackTimeout :: int
  eb_deliveryLimit :: int
  eb_enabled :: bool
  eb_TotalReady :: int
  eb_TotalUnacked :: int
  eb_TotalBlocked :: int
  eb_TotalWaiting :: int
  eb_ByScheduler :: "(string \<times> sched_stats) list"
  eb_evals :: "(string \<times> int) list"
  eb_jobEvals :: "string \<rightharpoonup> string"
  eb_blocked :: "(string \<times> evaluation list) list"
  eb_ready :: "(string \<times> evaluation list) list"
  eb_unack :: "(string \<times> unack_eval) list"
  eb_waiting :: "(string \<times> bool) list"
  eb_requeue :: "string \<rightharpoonup> evaluation"
  eb_timeWait :: "(string \<times> nat) list"
  eb_initialNackDelay :: int
  eb_subsequentNackDelay :: int
  rt_active :: "(nat \<times> callback) list"
  rt_fired :: "callback list"
  rt_next :: nat

definition NewEvalBroker :: "int \<Rightarrow> int \<Rightarrow> int \<Rightarrow> int \<Rightarrow> broker_error + eval_broker" where
  "NewEvalBroker timeout initialNackDelay subsequentNackDelay deliveryLimit =
     (if timeout < 0 then Inl NegativeTimeout
      else Inr \<lparr>eb_nackTimeout = timeout, eb_deliveryLimit = deliveryLimit, eb_enabled = False,
        eb_TotalReady = 0, eb_TotalUnacked = 0, eb_TotalBlocked = 0, eb_TotalWaiting = 0,
        eb_ByScheduler = [], eb_evals = [], eb_jobEvals = Map.empty, eb_blocked = [], eb_ready = [],
        eb_unack = [], eb_waiting = [], eb_requeue = Map.empty, eb_timeWait = [],
        eb_initialNackDelay = initialNackDelay, eb_subsequentNackDelay = subsequentNackDelay,
        rt_active = [], rt_fired = [], rt_next = 0\<rparr>)"

section \<open>Timers\<close>

definition AfterFunc :: "callback \<Rightarrow> eval_broker \<Rightarrow> nat \<times> eval_broker" where
  "AfterFunc cb b = (rt_next b, b\<lparr>rt_active := amap_put (rt_next b) cb (rt_active b), rt_next := rt_next b + 1\<rparr>)"

text \<open>\<open>Stop\<close> reports whether the timer was armed.\<close>

definition timer_Stop :: "nat \<Rightarrow> eval_broker \<Rightarrow> bool \<times> eval_broker" where
  "timer_Stop h b = (map_of (rt_active b) h \<noteq> None, b\<lparr>rt_active := amap_del h (rt_active b)\<rparr>)"

definition timer_Reset :: "nat \<Rightarrow> callback \<Rightarrow> eval_broker \<Rightarrow> bool \<times> eval_broker" where
  "timer_Reset h cb b = (map_of (rt_active b) h \<noteq> None, b\<lparr>rt_active := amap_put h cb (rt_active b)\<rparr>)"

section \<open>The priority queue\<close>

definition Less :: "evaluation \<Rightarrow> evaluation \<Rightarrow> bool" where
  "Less x y =
     (if ev_JobID x \<noteq> ev_JobID y \<and> ev_Priority x \<noteq> ev_Priority y then \<not> (ev_Priority x < ev_Priority y)
      else ev_CreateIndex x < ev_CreateIndex y)"

definition Peek :: "evaluation list \<Rightarrow> evaluation option" where
  "Peek p = (if p = [] then None else Some (p ! (length p - 1)))"

section \<open>Enqueue\<close>

definition notify :: "string \<Rightarrow> eval_broker \<Rightarrow> eval_broker" where
  "notify queue b =
     (case map_of (eb_waiting b) queue of
        None \<Rightarrow> b
      | Some _ \<Rightarrow> b\<lparr>eb_waiting := amap_put queue True (eb_waiting b)\<rparr>)"

definition enqueueLocked :: "evaluation \<Rightarrow> string \<Rightarrow> eval_broker \<Rightarrow> eval_broker" where
  "enqueueLocked eval queue b =
     (if \<not> eb_enabled b then b
      else
        let pendingEval = go_get '''' (eb_jobEvals b) (ev_JobID eval) in
        if pendingEval \<noteq> '''' \<and> pendingEval \<noteq> ev_ID eval
        then b\<lparr>eb_blocked := amap_put (ev_JobID eval)
                 (heap_push Less eval (amap_get [] (eb_blocked b) (ev_JobID eval))) (eb_blocked b),
               eb_TotalBlocked := eb_TotalBlocked b + 1\<rparr>
        else
          let b1 = (if pendingEval = '''' then b\<lparr>eb_jobEvals := (eb_jobEvals b)(ev_JobID eval \<mapsto> ev_ID eval)\<rparr> else b);
              b2 = (if map_of (eb_ready b1) queue = None \<and> map_of (eb_waiting b1) queue = None
                    then b1\<lparr>eb_waiting := amap_put queue False (eb_waiting b1)\<rparr> else b1);
              pending = amap_get [] (eb_ready b2) queue;
              bySched = (case map_of (eb_ByScheduler b2) queue of
                           None \<Rightarrow> \<lparr>ss_Ready = 0, ss_Unacked = 0\<rparr> | Some st \<Rightarrow> st)
          in notify queue
               (b2\<lparr>eb_ready := amap_put queue (heap_push Less eval pending) (eb_ready b2),
                   eb_TotalReady := eb_TotalReady b2 + 1,
                   eb_ByScheduler := amap_put queue (bySched\<lparr>ss_Ready := ss_Ready bySched + 1\<rparr>)
                     (eb_ByScheduler b2)\<rparr>))"

definition processWaitingEnqueue :: "evaluation \<Rightarrow> eval_broker \<Rightarrow> eval_broker" where
  "processWaitingEnqueue eval b =
     (let (timer, b1) = AfterFunc (WaitCb eval) b
      in b1\<lparr>eb_timeWait := amap_put (ev_ID eval) timer (eb_timeWait b1),
            eb_TotalWaiting := eb_TotalWaiting b1 + 1\<rparr>)"

definition enqueueWaiting :: "evaluation \<Rightarrow> eval_broker \<Rightarrow> eval_broker" where
  "enqueueWaiting eval b =
     enqueueLocked eval (ev_Type eval)
       (b\<lparr>eb_timeWait := amap_del (ev_ID eval) (eb_timeWait b), eb_TotalWaiting := eb_TotalWaiting b - 1\<rparr>)"

definition processEnqueue :: "evaluation \<Rightarrow> string \<Rightarrow> eval_broker \<Rightarrow> eval_broker" where
  "processEnqueue eval token b =
     (if map_of (eb_evals b) (ev_ID eval) \<noteq> None
      then if token = '''' then b
           else (case map_of (eb_unack b) (ev_ID eval) of
                   Some unack \<Rightarrow>
                     if ua_Token unack = token then b\<lparr>eb_requeue := (eb_requeue b)(token \<mapsto> eval)\<rparr> else b
                 | None \<Rightarrow> b)
      else
        let b1 = (if eb_enabled b then b\<lparr>eb_evals := amap_put (ev_ID eval) 0 (eb_evals b)\<rparr> else b)
        in if ev_Wait eval > 0 then processWaitingEnqueue eval b1
           else enqueueLocked eval (ev_Type eval) b1)"

definition eb_Enqueue :: "evaluation \<Rightarrow> eval_broker \<Rightarrow> eval_broker" where
  "eb_Enqueue eval b = processEnqueue eval '''' b"

definition EnqueueAll :: "(evaluation \<times> string) list \<Rightarrow> eval_broker \<Rightarrow> eval_broker" where
  "EnqueueAll evals b = fold (\<lambda>(eval, token). processEnqueue eval token) evals b"

section \<open>Dequeue\<close>

definition dequeueForSched ::
  "string \<Rightarrow> string \<Rightarrow> eval_broker \<Rightarrow> (evaluation \<times> string \<times> eval_broker) option" where
  "dequeueForSched sched token b =
     Option.bind (heap_pop Less (amap_get [] (eb_ready b) sched)) (\<lambda>(eval, pending).
       let b1 = b\<lparr>eb_ready := amap_put sched pending (eb_ready b)\<rparr>;
           (nackTimer, b2) = AfterFunc (NackCb (ev_ID eval) token) b1;
           b3 = b2\<lparr>eb_unack := amap_put (ev_ID eval)
                     \<lparr>ua_Eval = eval, ua_Token = token, ua_NackTimer = nackTimer\<rparr> (eb_unack b2),
                   eb_evals := amap_put (ev_ID eval) (amap_get 0 (eb_evals b2) (ev_ID eval) + 1) (eb_evals b2),
                   eb_TotalReady := eb_TotalReady b2 - 1,
                   eb_TotalUnacked := eb_TotalUnacked b2 + 1\<rparr>
       in case map_of (eb_ByScheduler b3) sched of
            None \<Rightarrow> None
          | Some st \<Rightarrow>
              Some (eval, token, b3\<lparr>eb_ByScheduler := amap_put sched
                (st\<lparr>ss_Ready := ss_Ready st - 1, ss_Unacked := ss_Unacked st + 1\<rparr>) (eb_ByScheduler b3)\<rparr>))"

text \<open>One round of the scan: the eligible schedulers so far and their priority.\<close>

definition scan_one :: "eval_broker \<Rightarrow> string \<Rightarrow> string list \<times> int \<Rightarrow> string list \<times> int" where
  "scan_one b sched acc =
     (let (eligibleSched, eligiblePriority) = acc in
      case map_of (eb_ready b) sched of
        None \<Rightarrow> acc
      | Some pending \<Rightarrow>
          (case Peek pending of
             None \<Rightarrow> acc
           | Some rdy \<Rightarrow>
               if eligibleSched = [] \<or> ev_Priority rdy > eligiblePriority then ([sched], ev_Priority rdy)
               else if eligiblePriority > ev_Priority rdy then acc
               else if eligiblePriority = ev_Priority rdy then (eligibleSched @ [sched], eligiblePriority)
               else acc))"

definition scanForSchedulers ::
  "string list \<Rightarrow> string \<Rightarrow> nat \<Rightarrow> eval_broker \<Rightarrow>
   ((broker_error + (evaluation \<times> string) option) \<times> eval_broker) option" where
  "scanForSchedulers schedulers token offset b =
     (if \<not> eb_enabled b then Some (Inl BrokerDisabled, b)
      else
        let (eligibleSched, _) = fold (scan_one b) schedulers ([], 0); n = length eligibleSched in
        if n = 0 then Some (Inr None, b)
        else map_option (\<lambda>(eval, tok, b'). (Inr (Some (eval, tok)), b'))
               (dequeueForSched (eligibleSched ! (if n = 1 then 0 else offset mod n)) token b))"

text \<open>The registration of a blocked dequeue: every scheduler gets a notification channel.\<close>

definition waitForSchedulers :: "string list \<Rightarrow> eval_broker \<Rightarrow> eval_broker" where
  "waitForSchedulers schedulers b =
     fold (\<lambda>sched b. if map_of (eb_waiting b) sched = None
                     then b\<lparr>eb_waiting := amap_put sched False (eb_waiting b)\<rparr> else b) schedulers b"

section \<open>Outstanding evaluations\<close>

definition Outstanding :: "string \<Rightarrow> eval_broker \<Rightarrow> string \<times> bool" where
  "Outstanding evalID b =
     (case map_of (eb_unack b) evalID of None \<Rightarrow> ('''', False) | Some unack \<Rightarrow> (ua_Token unack, True))"

definition OutstandingReset :: "string \<Rightarrow> string \<Rightarrow> eval_broker \<Rightarrow> broker_error option \<times> eval_broker" where
  "OutstandingReset evalID token b =
     (case map_of (eb_unack b) evalID of
        None \<Rightarrow> (Some ErrNotOutstanding, b)
      | Some unack \<Rightarrow>
          if ua_Token unack \<noteq> token then (Some ErrTokenMismatch, b)
          else let (armed, b') = timer_Reset (ua_NackTimer unack)
                     (NackCb (ev_ID (ua_Eval unack)) (ua_Token unack)) b
               in if \<not> armed then (Some ErrNackTimeoutReached, b') else (None, b'))"

definition PauseNackTimeout :: "string \<Rightarrow> string \<Rightarrow> eval_broker \<Rightarrow> broker_error option \<times> eval_broker" where
  "PauseNackTimeout evalID token b =
     (case map_of (eb_unack b) evalID of
        None \<Rightarrow> (Some ErrNotOutstanding, b)
      | Some unack \<Rightarrow>
          if ua_Token unack \<noteq> token then (Some ErrTokenMismatch, b)
          else let (armed, b') = timer_Stop (ua_NackTimer unack) b
               in if \<not> armed then (Some ErrNackTimeoutReached, b') else (None, b'))"

definition ResumeNackTimeout :: "string \<Rightarrow> string \<Rightarrow> eval_broker \<Rightarrow> broker_error option \<times> eval_broker" where
  "ResumeNackTimeout evalID token b =
     (case map_of (eb_unack b) evalID of
        None \<Rightarrow> (Some ErrNotOutstanding, b)
      | Some unack \<Rightarrow>
          if ua_Token unack \<noteq> token then (Some ErrTokenMismatch, b)
          else (None, snd (timer_Reset (ua_NackTimer unack)
                 (NackCb (ev_ID (ua_Eval unack)) (ua_Token unack)) b)))"

section \<open>Acknowledgement\<close>

text \<open>The next blocked evaluation of a job, if any, takes its place.\<close>

definition unblock_next :: "string \<Rightarrow> eval_broker \<Rightarrow> eval_broker option" where
  "unblock_next jobID b =
     (let blocked = amap_get [] (eb_blocked b) jobID in
      if blocked = [] then Some b
      else case heap_pop Less blocked of
             None \<Rightarrow> None
           | Some (eval, rest) \<Rightarrow>
               Some (enqueueLocked eval (ev_Type eval)
                 (b\<lparr>eb_blocked := (if rest \<noteq> [] then amap_put jobID rest (eb_blocked b)
                                   else amap_del jobID (eb_blocked b)),
                    eb_TotalBlocked := eb_TotalBlocked b - 1\<rparr>)))"

definition eb_Ack :: "string \<Rightarrow> string \<Rightarrow> eval_broker \<Rightarrow> (broker_error option \<times> eval_broker) option" where
  "eb_Ack evalID token b =
     (let forget = (\<lambda>b'. b'\<lparr>eb_requeue := (eb_requeue b')(token := None)\<rparr>) in
      case map_of (eb_unack b) evalID of
        None \<Rightarrow> Some (Some EvalNotFound, forget b)
      | Some unack \<Rightarrow>
          if ua_Token unack \<noteq> token then Some (Some TokenDoesNotMatch, forget b)
          else
            let jobID = ev_JobID (ua_Eval unack); (armed, b1) = timer_Stop (ua_NackTimer unack) b in
            if \<not> armed then Some (Some AckAfterExpiration, forget b1)
            else
              let b2 = b1\<lparr>eb_TotalUnacked := eb_TotalUnacked b1 - 1\<rparr>;
                  queue = (if amap_get 0 (eb_evals b2) evalID > eb_deliveryLimit b2 then failedQueue
                           else ev_Type (ua_Eval unack))
              in case map_of (eb_ByScheduler b2) queue of
                   None \<Rightarrow> None
                 | Some st \<Rightarrow>
                     let b3 = b2\<lparr>eb_ByScheduler := amap_put queue (st\<lparr>ss_Unacked := ss_Unacked st - 1\<rparr>)
                                   (eb_ByScheduler b2),
                                 eb_unack := amap_del evalID (eb_unack b2),
                                 eb_evals := amap_del evalID (eb_evals b2),
                                 eb_jobEvals := (eb_jobEvals b2)(jobID := None)\<rparr>
                     in Option.bind (unblock_next jobID b3) (\<lambda>b4.
                          let b5 = (case eb_requeue b4 token of
                                      None \<Rightarrow> b4 | Some eval \<Rightarrow> processEnqueue eval '''' b4)
                          in Some (None, forget b5)))"

definition nackReenqueueDelay :: "eval_broker \<Rightarrow> int \<Rightarrow> int" where
  "nackReenqueueDelay b prevDequeues =
     (if prevDequeues \<le> 0 then 0
      else if prevDequeues = 1 then eb_initialNackDelay b
      else wrap64 ((prevDequeues - 1) * eb_subsequentNackDelay b))"

definition eb_Nack :: "string \<Rightarrow> string \<Rightarrow> eval_broker \<Rightarrow> (broker_error option \<times> eval_broker) option" where
  "eb_Nack evalID token b =
     (let b0 = b\<lparr>eb_requeue := (eb_requeue b)(token := None)\<rparr> in
      case map_of (eb_unack b0) evalID of
        None \<Rightarrow> Some (Some EvalNotFound, b0)
      | Some unack \<Rightarrow>
          if ua_Token unack \<noteq> token then Some (Some TokenDoesNotMatch, b0)
          else
            let b1 = snd (timer_Stop (ua_NackTimer unack) b0);
                b2 = b1\<lparr>eb_unack := amap_del evalID (eb_unack b1),
                        eb_TotalUnacked := eb_TotalUnacked b1 - 1\<rparr>;
                e = ua_Eval unack
            in case map_of (eb_ByScheduler b2) (ev_Type e) of
                 None \<Rightarrow> None
               | Some st \<Rightarrow>
                   let b3 = b2\<lparr>eb_ByScheduler := amap_put (ev_Type e)
                                 (st\<lparr>ss_Unacked := ss_Unacked st - 1\<rparr>) (eb_ByScheduler b2)\<rparr>;
                       dequeues = amap_get 0 (eb_evals b3) evalID
                   in if dequeues \<ge> eb_deliveryLimit b3
                      then Some (None, enqueueLocked e failedQueue b3)
                      else let e' = e\<lparr>ev_Wait := nackReenqueueDelay b3 dequeues\<rparr>
                           in if ev_Wait e' > 0 then Some (None, processWaitingEnqueue e' b3)
                              else Some (None, enqueueLocked e' (ev_Type e') b3))"

section \<open>Enabling and flushing\<close>

definition eb_Flush :: "eval_broker \<Rightarrow> eval_broker" where
  "eb_Flush b =
     (let b1 = b\<lparr>eb_waiting := []\<rparr>;
          b2 = fold (\<lambda>(_, unack) b. snd (timer_Stop (ua_NackTimer unack) b)) (eb_unack b1) b1;
          b3 = fold (\<lambda>(_, wait) b. snd (timer_Stop wait b)) (eb_timeWait b2) b2
      in b3\<lparr>eb_TotalReady := 0, eb_TotalUnacked := 0, eb_TotalBlocked := 0, eb_TotalWaiting := 0,
            eb_ByScheduler := [], eb_evals := [], eb_jobEvals := Map.empty, eb_blocked := [],
            eb_ready := [], eb_unack := [], eb_timeWait := []\<rparr>)"

text \<open>The two critical sections of \<open>SetEnabled\<close>, and the call without anything in between.\<close>

definition set_flag :: "bool \<Rightarrow> eval_broker \<Rightarrow> eval_broker" where
  "set_flag enabled b = b\<lparr>eb_enabled := enabled\<rparr>"

definition eb_SetEnabled :: "bool \<Rightarrow> eval_broker \<Rightarrow> eval_broker" where
  "eb_SetEnabled enabled b = (let b' = set_flag enabled b in if \<not> enabled then eb_Flush b' else b')"

text \<open>\<open>Stats\<close> copies the counters.\<close>

definition eb_Stats :: "eval_broker \<Rightarrow> int \<times> int \<times> int \<times> int \<times> (string \<times> sched_stats) list" where
  "eb_Stats b = (eb_TotalReady b, eb_TotalUnacked b, eb_TotalBlocked b, eb_TotalWaiting b, eb_ByScheduler b)"

section \<open>Callbacks\<close>

text \<open>An armed timer fires: its callback's goroutine starts.\<close>

definition fire :: "nat \<Rightarrow> eval_broker \<Rightarrow> eval_broker option" where
  "fire h b = map_option (\<lambda>cb. b\<lparr>rt_active := amap_del h (rt_active b), rt_fired := cb # rt_fired b\<rparr>)
                (map_of (rt_active b) h)"

text \<open>A started callback gets the lock and runs.\<close>

definition run_callback :: "callback \<Rightarrow> eval_broker \<Rightarrow> eval_broker option" where
  "run_callback cb b =
     (let b' = b\<lparr>rt_fired := remove1 cb (rt_fired b)\<rparr> in
      case cb of
        WaitCb eval \<Rightarrow> Some (enqueueWaiting eval b')
      | NackCb evalID token \<Rightarrow> map_option snd (eb_Nack evalID token b'))"

section \<open>The queue order\<close>

text \<open>
  \<open>Less\<close> compares priorities only across jobs, so it is an order on a queue that holds at most
  one evaluation per job (the ready queues) and on one that holds a single job's evaluations
  (the blocked queues), which are the two kinds the broker has.
\<close>

interpretation rq: heap_order Less "\<lambda>S. inj_on ev_JobID S"
proof
  fix S x y assume "inj_on ev_JobID S" "x \<in> S" "y \<in> S" "Less x y"
  then show "\<not> Less y x" by (auto simp: Less_def inj_on_def split: if_splits)
next
  fix S x y z
  assume inj: "inj_on ev_JobID S" and mem: "x \<in> S" "y \<in> S" "z \<in> S" and ord: "\<not> Less y x" "\<not> Less z y"
  have job: "ev_JobID a = ev_JobID b \<longleftrightarrow> a = b" if "a \<in> S" "b \<in> S" for a b
    using inj that by (auto simp: inj_on_def)
  show "\<not> Less z x" using ord job [of x y] job [of y z] job [of x z] mem
    by (auto simp: Less_def split: if_splits)
qed

interpretation bq: heap_order Less "\<lambda>S. \<exists>j. \<forall>x \<in> S. ev_JobID x = j"
  by unfold_locales (auto simp: Less_def)

end
