(* ===== verification/Eval_Broker_Inv.thy ===== *)
theory Eval_Broker_Inv
  imports Eval_Broker
begin

text \<open>
  The invariant of the evaluation broker: every tracked evaluation is in exactly one place,
  at most one evaluation per job is ready or outstanding, the queues are heaps, the counters
  are exact, and the delivery counts decide between an evaluation's own queue and the failed
  queue. Enqueueing keeps it; the other methods and the runs of the broker follow in the next theories.
\<close>

section \<open>Where evaluations are\<close>

definition wait_evals :: "callback list \<Rightarrow> evaluation list" where
  "wait_evals cbs = List.map_filter (\<lambda>cb. case cb of WaitCb e \<Rightarrow> Some e | NackCb _ _ \<Rightarrow> None) cbs"

definition waiting_ms :: "eval_broker \<Rightarrow> evaluation multiset" where
  "waiting_ms b = mset (wait_evals (map snd (rt_active b))) + mset (wait_evals (rt_fired b))"

text \<open>The IDs of the evaluations in the ready queues, the blocked queues, the timers, and unacknowledged.\<close>

definition located :: "eval_broker \<Rightarrow> string multiset" where
  "located b = image_mset ev_ID (contents (eb_ready b)) + image_mset ev_ID (contents (eb_blocked b)) +
     image_mset ev_ID (waiting_ms b) + mset (map fst (eb_unack b))"

definition deliveries :: "eval_broker \<Rightarrow> string \<Rightarrow> int" where
  "deliveries b x = amap_get 0 (eb_evals b) x"

section \<open>The invariant\<close>

text \<open>
  The invariant has two parameters for the middle of a method: \<open>fl\<close> is the list of evaluations
  that are tracked but momentarily in no queue, \<open>fr\<close> is the job, if any, whose slot was freed
  while evaluations may be blocked behind it. Between methods both are empty.
\<close>

definition inv_keys :: "evaluation list \<Rightarrow> eval_broker \<Rightarrow> bool" where
  "inv_keys fl b \<longleftrightarrow>
     distinct (map fst (eb_evals b)) \<and> distinct (map fst (eb_ready b)) \<and> distinct (map fst (eb_blocked b)) \<and>
     distinct (map fst (eb_unack b)) \<and> distinct (map fst (rt_active b)) \<and>
     located b + image_mset ev_ID (mset fl) = mset (map fst (eb_evals b)) \<and>
     map_of (eb_evals b) '''' = None \<and> (\<forall>t e. eb_requeue b t = Some e \<longrightarrow> ev_ID e \<noteq> '''')"

text \<open>The evaluation \<open>x\<close> of job \<open>j\<close> is ready, waiting for a timer, unacknowledged, or in transit.\<close>

definition holds_slot :: "evaluation list \<Rightarrow> eval_broker \<Rightarrow> string \<Rightarrow> string \<Rightarrow> bool" where
  "holds_slot fl b j x \<longleftrightarrow>
     (\<exists>e. (e \<in># contents (eb_ready b) \<or> e \<in># waiting_ms b \<or> e \<in> set fl) \<and> ev_ID e = x \<and> ev_JobID e = j) \<or>
     (\<exists>u. map_of (eb_unack b) x = Some u \<and> ev_JobID (ua_Eval u) = j)"

definition inv_jobs :: "evaluation list \<Rightarrow> string option \<Rightarrow> eval_broker \<Rightarrow> bool" where
  "inv_jobs fl fr b \<longleftrightarrow>
     (\<forall>e \<in># contents (eb_ready b). eb_jobEvals b (ev_JobID e) = Some (ev_ID e)) \<and>
     (\<forall>x u. map_of (eb_unack b) x = Some u \<longrightarrow>
        ev_ID (ua_Eval u) = x \<and> eb_jobEvals b (ev_JobID (ua_Eval u)) = Some x) \<and>
     (\<forall>j es. map_of (eb_blocked b) j = Some es \<longrightarrow> (\<forall>e \<in> set es. ev_JobID e = j)) \<and>
     (\<forall>e \<in># contents (eb_blocked b). fr \<noteq> Some (ev_JobID e) \<longrightarrow> eb_jobEvals b (ev_JobID e) \<noteq> None) \<and>
     (\<forall>j x. eb_jobEvals b j = Some x \<longrightarrow> holds_slot fl b j x)"

definition inv_heaps :: "eval_broker \<Rightarrow> bool" where
  "inv_heaps b \<longleftrightarrow>
     (\<forall>q h. map_of (eb_ready b) q = Some h \<longrightarrow> rq.heap_inv h) \<and>
     (\<forall>j h. map_of (eb_blocked b) j = Some h \<longrightarrow> bq.heap_inv h)"

definition sched_ready :: "eval_broker \<Rightarrow> string \<Rightarrow> int" where
  "sched_ready b q = (case map_of (eb_ByScheduler b) q of None \<Rightarrow> 0 | Some st \<Rightarrow> ss_Ready st)"

definition inv_stats :: "eval_broker \<Rightarrow> bool" where
  "inv_stats b \<longleftrightarrow>
     eb_TotalReady b = int (size (contents (eb_ready b))) \<and>
     eb_TotalBlocked b = int (size (contents (eb_blocked b))) \<and>
     eb_TotalUnacked b = int (length (eb_unack b)) \<and>
     eb_TotalWaiting b = int (size (waiting_ms b)) \<and>
     (\<forall>q. sched_ready b q = int (length (amap_get [] (eb_ready b) q))) \<and>
     (\<forall>q. map_of (eb_ready b) q \<noteq> None \<longrightarrow> map_of (eb_ByScheduler b) q \<noteq> None)"

text \<open>Delivery counts: the failed queue holds exactly the evaluations that reached the limit.\<close>

definition right_queue :: "eval_broker \<Rightarrow> string \<Rightarrow> evaluation \<Rightarrow> bool" where
  "right_queue b q e \<longleftrightarrow>
     q = ev_Type e \<and> deliveries b (ev_ID e) < eb_deliveryLimit b \<or>
     q = failedQueue \<and> eb_deliveryLimit b \<le> deliveries b (ev_ID e) \<and>
       map_of (eb_ByScheduler b) (ev_Type e) \<noteq> None"

definition inv_counts :: "eval_broker \<Rightarrow> bool" where
  "inv_counts b \<longleftrightarrow> 0 < eb_deliveryLimit b \<and>
     (\<forall>q e. e \<in> set (amap_get [] (eb_ready b) q) \<longrightarrow> right_queue b q e) \<and>
     (\<forall>e. e \<in># contents (eb_blocked b) \<or> e \<in># waiting_ms b \<longrightarrow> deliveries b (ev_ID e) < eb_deliveryLimit b) \<and>
     (\<forall>x u. map_of (eb_unack b) x = Some u \<longrightarrow>
        map_of (eb_ByScheduler b) (ev_Type (ua_Eval u)) \<noteq> None \<and>
        (eb_deliveryLimit b < deliveries b x \<longrightarrow> map_of (eb_ByScheduler b) failedQueue \<noteq> None))"

text \<open>Timers: an armed wait timer is the one recorded for its evaluation; an armed Nack timer is its delivery's.\<close>

definition inv_timers :: "eval_broker \<Rightarrow> bool" where
  "inv_timers b \<longleftrightarrow>
     (\<forall>h cb. map_of (rt_active b) h = Some cb \<longrightarrow> h < rt_next b) \<and>
     (\<forall>h e. map_of (rt_active b) h = Some (WaitCb e) \<longrightarrow> map_of (eb_timeWait b) (ev_ID e) = Some h) \<and>
     (\<forall>x u. map_of (eb_unack b) x = Some u \<longrightarrow> ua_NackTimer u < rt_next b \<and>
        (\<forall>cb. map_of (rt_active b) (ua_NackTimer u) = Some cb \<longrightarrow> cb = NackCb x (ua_Token u)) \<and>
        (\<forall>y v. map_of (eb_unack b) y = Some v \<longrightarrow> ua_NackTimer v = ua_NackTimer u \<longrightarrow> y = x))"

definition inv_mid :: "evaluation list \<Rightarrow> string option \<Rightarrow> eval_broker \<Rightarrow> bool" where
  "inv_mid fl fr b \<longleftrightarrow> inv_keys fl b \<and> inv_jobs fl fr b \<and> inv_heaps b \<and> inv_stats b \<and> inv_counts b \<and> inv_timers b"

definition broker_inv :: "eval_broker \<Rightarrow> bool" where
  "broker_inv b \<longleftrightarrow> inv_mid [] None b"

lemmas inv_defs = inv_keys_def inv_jobs_def inv_heaps_def inv_stats_def inv_counts_def inv_timers_def

section \<open>Uniqueness\<close>

lemma mset_map_fst_count:
  "distinct (map fst m) \<Longrightarrow> count (mset (map fst m)) x = (if map_of m x = None then 0 else 1)"
  by (induction m) (auto simp: map_of_eq_None_iff image_iff)

lemma located_once:
  assumes "inv_keys fl b"
  shows "count (located b) x + count (image_mset ev_ID (mset fl)) x = (if map_of (eb_evals b) x = None then 0 else 1)"
proof -
  from assms have d: "distinct (map fst (eb_evals b))"
    and l: "located b + image_mset ev_ID (mset fl) = mset (map fst (eb_evals b))"
    unfolding inv_keys_def by blast+
  from arg_cong [OF l, of "\<lambda>M. count M x"] mset_map_fst_count [OF d, of x]
  show ?thesis by (simp only: count_union)
qed

text \<open>A tracked evaluation outside the queues occurs in none of them.\<close>

lemma floating_unique:
  assumes "inv_keys (e # fl) b"
  shows "ev_ID e \<notin># located b" "ev_ID e \<notin> ev_ID ` set fl" "map_of (eb_evals b) (ev_ID e) \<noteq> None" "ev_ID e \<noteq> ''''"
proof -
  have c: "count (located b) (ev_ID e) + count (image_mset ev_ID (mset (e # fl))) (ev_ID e) =
      (if map_of (eb_evals b) (ev_ID e) = None then 0 else 1)"
    by (rule located_once [OF assms])
  then show ev: "map_of (eb_evals b) (ev_ID e) \<noteq> None" by (auto split: if_splits)
  with c have z: "count (located b) (ev_ID e) = 0" "count (image_mset ev_ID (mset fl)) (ev_ID e) = 0" by auto
  from z(1) show "ev_ID e \<notin># located b" by (simp add: not_in_iff)
  from z(2) have "ev_ID e \<notin># image_mset ev_ID (mset fl)" by (simp only: not_in_iff)
  then show "ev_ID e \<notin> ev_ID ` set fl" by simp
  show "ev_ID e \<noteq> ''''" using ev assms by (auto simp: inv_keys_def)
qed


lemma image_mset_once:
  assumes "\<And>x. count (image_mset f M) x \<le> 1"
  shows "inj_on f (set_mset M)"
proof (rule inj_onI, rule ccontr)
  fix x y assume xy: "x \<in># M" "y \<in># M" "f x = f y" "x \<noteq> y"
  then have "{#x, y#} \<subseteq># M"
    by (simp add: insert_subset_eq_iff in_diff_count)
  then have "image_mset f {#x, y#} \<subseteq># image_mset f M" by (rule image_mset_subseteq_mono)
  then have "count (image_mset f {#x, y#}) (f x) \<le> count (image_mset f M) (f x)" by (rule mset_subset_eq_count)
  with xy(3) assms [of "f x"] show False by simp
qed

lemma located_le_one: "inv_keys fl b \<Longrightarrow> count (located b) x \<le> 1"
  using located_once [of fl b x] by (auto split: if_splits)

lemma ready_once: "inv_keys fl b \<Longrightarrow> inj_on ev_ID (set_mset (contents (eb_ready b)))"
proof (rule image_mset_once)
  fix x assume "inv_keys fl b"
  from located_le_one [OF this, of x]
  show "count (image_mset ev_ID (contents (eb_ready b))) x \<le> 1" by (simp add: located_def)
qed

lemma inv_jobsD:
  assumes "inv_jobs fl fr b"
  shows "e \<in># contents (eb_ready b) \<Longrightarrow> eb_jobEvals b (ev_JobID e) = Some (ev_ID e)"
    "map_of (eb_unack b) x = Some u \<Longrightarrow> ev_ID (ua_Eval u) = x"
    "map_of (eb_unack b) x = Some u \<Longrightarrow> eb_jobEvals b (ev_JobID (ua_Eval u)) = Some x"
    "map_of (eb_blocked b) j = Some es \<Longrightarrow> e \<in> set es \<Longrightarrow> ev_JobID e = j"
    "e \<in># contents (eb_blocked b) \<Longrightarrow> fr \<noteq> Some (ev_JobID e) \<Longrightarrow> eb_jobEvals b (ev_JobID e) \<noteq> None"
    "eb_jobEvals b j = Some x \<Longrightarrow> holds_slot fl b j x"
  using assms unfolding inv_jobs_def by blast+

lemma inv_jobsI:
  assumes "\<And>e. e \<in># contents (eb_ready b) \<Longrightarrow> eb_jobEvals b (ev_JobID e) = Some (ev_ID e)"
    "\<And>x u. map_of (eb_unack b) x = Some u \<Longrightarrow>
       ev_ID (ua_Eval u) = x \<and> eb_jobEvals b (ev_JobID (ua_Eval u)) = Some x"
    "\<And>j es e. map_of (eb_blocked b) j = Some es \<Longrightarrow> e \<in> set es \<Longrightarrow> ev_JobID e = j"
    "\<And>e. e \<in># contents (eb_blocked b) \<Longrightarrow> fr \<noteq> Some (ev_JobID e) \<Longrightarrow> eb_jobEvals b (ev_JobID e) \<noteq> None"
    "\<And>j x. eb_jobEvals b j = Some x \<Longrightarrow> holds_slot fl b j x"
  shows "inv_jobs fl fr b"
  using assms unfolding inv_jobs_def by blast

lemma blocked_queue_job:
  "inv_jobs fl fr b \<Longrightarrow> y \<in> set (amap_get [] (eb_blocked b) j) \<Longrightarrow> ev_JobID y = j"
  by (cases "map_of (eb_blocked b) j") (auto simp: go_get_def dest: inv_jobsD(4))

lemma ready_inj_job:
  assumes "inv_keys fl b" "inv_jobs fl fr b"
  shows "inj_on ev_JobID (set_mset (contents (eb_ready b)))"
proof (rule inj_onI)
  fix x y assume "x \<in># contents (eb_ready b)" "y \<in># contents (eb_ready b)" "ev_JobID x = ev_JobID y"
  moreover from this have "ev_ID x = ev_ID y" using inv_jobsD(1) [OF assms(2)] by (metis option.inject)
  ultimately show "x = y" using ready_once [OF assms(1)] by (auto simp: inj_on_def)
qed

text \<open>The membership facts that uniqueness gives.\<close>

lemma located_ready: "e \<in># contents (eb_ready b) \<Longrightarrow> ev_ID e \<in># located b"
  and located_blocked: "e \<in># contents (eb_blocked b) \<Longrightarrow> ev_ID e \<in># located b"
  and located_waiting: "e \<in># waiting_ms b \<Longrightarrow> ev_ID e \<in># located b"
  and located_unack: "map_of (eb_unack b) x = Some u \<Longrightarrow> x \<in># located b"
  by (auto simp: located_def dest: map_of_SomeD intro: rev_image_eqI)

lemma located_tracked:
  assumes "inv_keys fl b" "x \<in># located b"
  shows "map_of (eb_evals b) x \<noteq> None" "x \<noteq> ''''"
proof -
  show ev: "map_of (eb_evals b) x \<noteq> None"
    using located_once [OF assms(1), of x] assms(2) by (metis add_is_0 not_in_iff)
  with assms(1) show "x \<noteq> ''''" by (auto simp: inv_keys_def)
qed

lemma holder_nonempty:
  assumes "inv_keys fl b" "inv_jobs fl fr b" "eb_jobEvals b j = Some x"
  shows "x \<noteq> ''''"
proof -
  from inv_jobsD(6) [OF assms(2,3)] consider "x \<in># located b" | e where "e \<in> set fl" "ev_ID e = x"
    unfolding holds_slot_def by (auto dest: located_ready located_waiting located_unack)
  then show ?thesis
  proof cases
    case 1
    then show ?thesis using located_tracked [OF assms(1)] by blast
  next
    case 2
    then have "x \<in># image_mset ev_ID (mset fl)" by auto
    then have "map_of (eb_evals b) x \<noteq> None"
      using located_once [OF assms(1), of x] by (metis add_is_0 not_in_iff)
    with assms(1) show ?thesis by (auto simp: inv_keys_def)
  qed
qed

lemma go_get_holder:
  assumes "inv_keys fl b" "inv_jobs fl fr b"
  shows "go_get '''' (eb_jobEvals b) j = '''' \<longleftrightarrow> eb_jobEvals b j = None"
    "x \<noteq> '''' \<Longrightarrow> go_get '''' (eb_jobEvals b) j = x \<longleftrightarrow> eb_jobEvals b j = Some x"
  using holder_nonempty [OF assms, of j] by (auto simp: go_get_def split: option.splits)

section \<open>Enqueueing keeps the invariant\<close>

text \<open>An evaluation may go to a queue: its own type below the delivery limit, else the failed queue.\<close>

definition may_enqueue :: "evaluation \<Rightarrow> string \<Rightarrow> eval_broker \<Rightarrow> bool" where
  "may_enqueue e q b \<longleftrightarrow> right_queue b q e \<and>
     (eb_deliveryLimit b \<le> deliveries b (ev_ID e) \<longrightarrow> eb_jobEvals b (ev_JobID e) = Some (ev_ID e))"

lemma inv_countsD:
  assumes "inv_counts b"
  shows "0 < eb_deliveryLimit b"
    "e \<in> set (amap_get [] (eb_ready b) q) \<Longrightarrow> right_queue b q e"
    "e \<in># contents (eb_blocked b) \<Longrightarrow> deliveries b (ev_ID e) < eb_deliveryLimit b"
    "e \<in># waiting_ms b \<Longrightarrow> deliveries b (ev_ID e) < eb_deliveryLimit b"
    "map_of (eb_unack b) x = Some u \<Longrightarrow> map_of (eb_ByScheduler b) (ev_Type (ua_Eval u)) \<noteq> None"
    "map_of (eb_unack b) x = Some u \<Longrightarrow> eb_deliveryLimit b < deliveries b x \<Longrightarrow>
       map_of (eb_ByScheduler b) failedQueue \<noteq> None"
  using assms unfolding inv_counts_def by blast+

lemma inv_countsI:
  assumes "0 < eb_deliveryLimit b"
    "\<And>e q. e \<in> set (amap_get [] (eb_ready b) q) \<Longrightarrow> right_queue b q e"
    "\<And>e. e \<in># contents (eb_blocked b) \<Longrightarrow> deliveries b (ev_ID e) < eb_deliveryLimit b"
    "\<And>e. e \<in># waiting_ms b \<Longrightarrow> deliveries b (ev_ID e) < eb_deliveryLimit b"
    "\<And>x u. map_of (eb_unack b) x = Some u \<Longrightarrow> map_of (eb_ByScheduler b) (ev_Type (ua_Eval u)) \<noteq> None"
    "\<And>x u. map_of (eb_unack b) x = Some u \<Longrightarrow> eb_deliveryLimit b < deliveries b x \<Longrightarrow>
       map_of (eb_ByScheduler b) failedQueue \<noteq> None"
  shows "inv_counts b"
  using assms unfolding inv_counts_def by blast

lemma enqueueLocked_blocks:
  assumes "eb_enabled b" "eb_jobEvals b (ev_JobID e) = Some x" "x \<noteq> ev_ID e" "x \<noteq> ''''"
  shows "enqueueLocked e q b = b\<lparr>eb_blocked := amap_put (ev_JobID e)
      (heap_push Less e (amap_get [] (eb_blocked b) (ev_JobID e))) (eb_blocked b),
      eb_TotalBlocked := eb_TotalBlocked b + 1\<rparr>"
  using assms by (simp add: enqueueLocked_def go_get_def)

lemma enqueue_blocked_inv:
  assumes inv: "inv_mid (e # fl) None b" and en: "eb_enabled b" and may: "may_enqueue e q b"
    and x: "eb_jobEvals b (ev_JobID e) = Some x" "x \<noteq> ev_ID e"
  shows "inv_mid fl None (enqueueLocked e q b)"
proof -
  let ?h = "amap_get [] (eb_blocked b) (ev_JobID e)"
  let ?b = "b\<lparr>eb_blocked := amap_put (ev_JobID e) (heap_push Less e ?h) (eb_blocked b),
      eb_TotalBlocked := eb_TotalBlocked b + 1\<rparr>"
  from inv have k: "inv_keys (e # fl) b" and j: "inv_jobs (e # fl) None b" and h: "inv_heaps b"
    and s: "inv_stats b" and c: "inv_counts b" and t: "inv_timers b" by (simp_all add: inv_mid_def)
  have eq: "enqueueLocked e q b = ?b"
    by (rule enqueueLocked_blocks [OF en x holder_nonempty [OF k j x(1)]])
  have dk: "distinct (map fst (eb_blocked b))" using k by (simp add: inv_keys_def)
  have "contents (eb_blocked ?b) + mset ?h = add_mset e (contents (eb_blocked b)) + mset ?h"
    using contents_put [OF dk, of "ev_JobID e" "heap_push Less e ?h"] by (simp add: bq.heap_push_mset)
  then have cont: "contents (eb_blocked ?b) = add_mset e (contents (eb_blocked b))" by (rule add_right_imp_eq)
  have job: "\<forall>y \<in> set ?h. ev_JobID y = ev_JobID e"
    using blocked_queue_job [OF j] by blast
  have push: "set (heap_push Less e ?h) = insert e (set ?h)"
    by (metis bq.heap_push_mset set_mset_add_mset_insert set_mset_mset)
  have "inv_keys fl ?b" using k cont by (simp add: inv_keys_def located_def waiting_ms_def)
  moreover have "inv_jobs fl None ?b"
  proof (rule inv_jobsI)
    fix i es y assume "map_of (eb_blocked ?b) i = Some es" "y \<in> set es"
    then show "ev_JobID y = i" using inv_jobsD(4) [OF j] job push by (auto split: if_splits)
  next
    fix i y assume "eb_jobEvals ?b i = Some y"
    then have "holds_slot (e # fl) b i y" "\<not> (i = ev_JobID e \<and> y = ev_ID e)"
      using inv_jobsD(6) [OF j] x by auto
    then show "holds_slot fl ?b i y" by (auto simp: holds_slot_def waiting_ms_def)
  qed (use inv_jobsD [OF j] x cont in auto)
  moreover have "inv_heaps ?b"
  proof -
    have "bq.heap_inv ?h" using h bq.heap_inv_Nil by (auto simp: inv_heaps_def go_get_def split: option.splits)
    then have "bq.heap_inv (heap_push Less e ?h)" using job by (intro bq.heap_push_inv) auto
    with h show ?thesis by (simp add: inv_heaps_def)
  qed
  moreover have "inv_stats ?b" using s cont by (simp add: inv_stats_def waiting_ms_def sched_ready_def)
  moreover have "inv_counts ?b"
  proof (rule inv_countsI)
    fix y p assume "y \<in> set (amap_get [] (eb_ready ?b) p)"
    then show "right_queue ?b p y" using inv_countsD(2) [OF c, of y p] by (simp add: right_queue_def deliveries_def)
  next
    fix y assume "y \<in># contents (eb_blocked ?b)"
    then show "deliveries ?b (ev_ID y) < eb_deliveryLimit ?b"
      using inv_countsD(3) [OF c, of y] may x cont by (auto simp: may_enqueue_def deliveries_def)
  qed (use inv_countsD [OF c] in \<open>auto simp: deliveries_def waiting_ms_def\<close>)
  moreover have "inv_timers ?b" using t by (simp add: inv_timers_def)
  ultimately show ?thesis unfolding eq inv_mid_def by blast
qed


lemma enqueueLocked_ready:
  assumes "eb_enabled b" "eb_jobEvals b (ev_JobID e) = None \<or> eb_jobEvals b (ev_JobID e) = Some (ev_ID e)"
  shows "eb_jobEvals (enqueueLocked e q b) = (eb_jobEvals b)(ev_JobID e \<mapsto> ev_ID e)"
    "eb_ready (enqueueLocked e q b) =
       amap_put q (heap_push Less e (amap_get [] (eb_ready b) q)) (eb_ready b)"
    "eb_TotalReady (enqueueLocked e q b) = eb_TotalReady b + 1"
    "map_of (eb_ByScheduler (enqueueLocked e q b)) =
       (map_of (eb_ByScheduler b))(q \<mapsto>
          (case map_of (eb_ByScheduler b) q of None \<Rightarrow> \<lparr>ss_Ready = 1, ss_Unacked = 0\<rparr>
           | Some st \<Rightarrow> st\<lparr>ss_Ready := ss_Ready st + 1\<rparr>))"
  using assms
  by (auto simp: enqueueLocked_def go_get_def notify_def Let_def fun_upd_idem split: option.splits)

lemma enqueueLocked_frame:
  "eb_evals (enqueueLocked e q b) = eb_evals b" "eb_unack (enqueueLocked e q b) = eb_unack b"
  "rt_active (enqueueLocked e q b) = rt_active b" "rt_fired (enqueueLocked e q b) = rt_fired b"
  "rt_next (enqueueLocked e q b) = rt_next b" "eb_requeue (enqueueLocked e q b) = eb_requeue b"
  "eb_timeWait (enqueueLocked e q b) = eb_timeWait b" "eb_enabled (enqueueLocked e q b) = eb_enabled b"
  "eb_deliveryLimit (enqueueLocked e q b) = eb_deliveryLimit b"
  "eb_TotalUnacked (enqueueLocked e q b) = eb_TotalUnacked b"
  "eb_TotalWaiting (enqueueLocked e q b) = eb_TotalWaiting b"
  by (auto simp: enqueueLocked_def notify_def Let_def split: option.splits)

lemma enqueueLocked_ready_frame:
  assumes "eb_enabled b" "eb_jobEvals b (ev_JobID e) = None \<or> eb_jobEvals b (ev_JobID e) = Some (ev_ID e)"
  shows "eb_blocked (enqueueLocked e q b) = eb_blocked b"
    "eb_TotalBlocked (enqueueLocked e q b) = eb_TotalBlocked b"
  using assms by (auto simp: enqueueLocked_def go_get_def notify_def Let_def split: option.splits)

lemma enqueue_ready_inv:
  assumes inv: "inv_mid (e # fl) fr b" and en: "eb_enabled b" and may: "may_enqueue e q b"
    and fr: "fr = None \<or> fr = Some (ev_JobID e)"
    and x: "eb_jobEvals b (ev_JobID e) = None \<or> eb_jobEvals b (ev_JobID e) = Some (ev_ID e)"
  shows "inv_mid fl None (enqueueLocked e q b)"
proof -
  let ?h = "amap_get [] (eb_ready b) q" and ?b = "enqueueLocked e q b"
  note eqs = enqueueLocked_ready [OF en x, of q] enqueueLocked_frame [of e q b]
    enqueueLocked_ready_frame [OF en x, of q]
  from inv have k: "inv_keys (e # fl) b" and j: "inv_jobs (e # fl) fr b" and h: "inv_heaps b"
    and s: "inv_stats b" and c: "inv_counts b" and t: "inv_timers b" by (simp_all add: inv_mid_def)
  note fresh = floating_unique [OF k]
  have dk: "distinct (map fst (eb_ready b))" using k by (simp add: inv_keys_def)
  have "contents (eb_ready ?b) + mset ?h = add_mset e (contents (eb_ready b)) + mset ?h"
    using contents_put [OF dk, of q "heap_push Less e ?h"] by (simp add: eqs rq.heap_push_mset)
  then have cont: "contents (amap_put q (heap_push Less e ?h) (eb_ready b)) = add_mset e (contents (eb_ready b))"
    unfolding eqs by (rule add_right_imp_eq)
  have w: "waiting_ms ?b = waiting_ms b" by (simp add: waiting_ms_def eqs)
  have loc: "located ?b = add_mset (ev_ID e) (located b)" by (simp add: located_def cont w eqs)
  have other: "ev_JobID y \<noteq> ev_JobID e" if "y \<in># contents (eb_ready b)" for y
  proof
    assume "ev_JobID y = ev_JobID e"
    with inv_jobsD(1) [OF j that] x have "ev_ID y = ev_ID e" by auto
    with located_ready [OF that] fresh(1) show False by simp
  qed
  have other_un: "ev_JobID (ua_Eval u) \<noteq> ev_JobID e" if "map_of (eb_unack b) y = Some u" for y u
  proof
    assume "ev_JobID (ua_Eval u) = ev_JobID e"
    with inv_jobsD(3) [OF j that] x have "y = ev_ID e" by auto
    with located_unack [OF that] fresh(1) show False by simp
  qed
  have sub: "set ?h \<subseteq> set_mset (contents (eb_ready b))"
    by (rule amap_get_contents)
  have push: "set (heap_push Less e ?h) = insert e (set ?h)" "length (heap_push Less e ?h) = Suc (length ?h)"
    by (metis rq.heap_push_mset set_mset_add_mset_insert set_mset_mset)
      (metis rq.heap_push_mset size_add_mset size_mset)
  have "inv_keys fl ?b" using k by (simp add: inv_keys_def loc eqs)
  moreover have "inv_jobs fl None ?b"
  proof (rule inv_jobsI)
    fix y assume "y \<in># contents (eb_blocked ?b)"
    then show "eb_jobEvals ?b (ev_JobID y) \<noteq> None"
      using inv_jobsD(5) [OF j, of y] fr by (auto simp: eqs)
  next
    fix i y assume "eb_jobEvals ?b i = Some y"
    then consider "i = ev_JobID e" "y = ev_ID e" | "i \<noteq> ev_JobID e" "holds_slot (e # fl) b i y"
      using inv_jobsD(6) [OF j] by (auto simp: eqs split: if_splits)
    then show "holds_slot fl ?b i y" by cases (auto simp: holds_slot_def cont w eqs)
  qed (use inv_jobsD [OF j] other other_un in \<open>auto simp: cont eqs\<close>)
  moreover have "inv_heaps ?b"
  proof -
    have "inj_on ev_JobID (insert e (set ?h))"
    proof -
      have "ev_JobID y \<noteq> ev_JobID e" if "y \<in> set ?h" for y using other [of y] sub that by blast
      then have "\<forall>y \<in> set ?h. ev_JobID e \<noteq> ev_JobID y" by metis
      then have "ev_JobID e \<notin> ev_JobID ` (set ?h - {e})" by blast
      with inj_on_subset [OF ready_inj_job [OF k j] sub] show ?thesis by (simp add: inj_on_insert)
    qed
    moreover have "rq.heap_inv ?h" using h rq.heap_inv_Nil by (auto simp: inv_heaps_def go_get_def split: option.splits)
    ultimately have "rq.heap_inv (heap_push Less e ?h)" by (rule rq.heap_push_inv)
    with h show ?thesis by (simp add: inv_heaps_def eqs)
  qed
  moreover have "inv_stats ?b"
  proof -
    have "sched_ready ?b p = sched_ready b p + (if p = q then 1 else 0)" for p
      by (auto simp: sched_ready_def eqs split: option.splits)
    with s push(2) cont show ?thesis by (auto simp: inv_stats_def w eqs)
  qed
  moreover have "inv_counts ?b"
  proof -
    have d: "deliveries ?b y = deliveries b y" for y by (simp add: deliveries_def eqs)
    have rq: "right_queue ?b p y" if "right_queue b p y" for p y
      using that by (auto simp: right_queue_def d eqs)
    show ?thesis
    proof (rule inv_countsI)
      fix y p assume "y \<in> set (amap_get [] (eb_ready ?b) p)"
      then have "p = q \<and> y = e \<or> y \<in> set (amap_get [] (eb_ready b) p)"
        using push(1) by (auto simp: eqs split: if_splits)
      with may inv_countsD(2) [OF c] show "right_queue ?b p y" by (auto simp: may_enqueue_def intro: rq)
    qed (use inv_countsD [OF c] in \<open>auto simp: d w eqs\<close>)
  qed
  moreover have "inv_timers ?b" using t by (simp add: inv_timers_def eqs)
  ultimately show ?thesis unfolding inv_mid_def by blast
qed

lemma enqueueLocked_inv:
  assumes inv: "inv_mid (e # fl) fr b" and en: "eb_enabled b" and may: "may_enqueue e q b"
    and fr: "fr = None \<or> fr = Some (ev_JobID e) \<and> eb_jobEvals b (ev_JobID e) = None"
  shows "inv_mid fl None (enqueueLocked e q b)"
proof (cases "eb_jobEvals b (ev_JobID e) = None \<or> eb_jobEvals b (ev_JobID e) = Some (ev_ID e)")
  case True
  with assms show ?thesis by (intro enqueue_ready_inv) auto
next
  case False
  with assms show ?thesis by (auto intro: enqueue_blocked_inv)
qed


section \<open>Timers\<close>

definition wait_ms :: "callback multiset \<Rightarrow> evaluation multiset" where
  "wait_ms M = image_mset (\<lambda>cb. case cb of WaitCb e \<Rightarrow> e | NackCb _ _ \<Rightarrow> zero_eval)
     (filter_mset (\<lambda>cb. case cb of WaitCb _ \<Rightarrow> True | NackCb _ _ \<Rightarrow> False) M)"

lemma wait_ms_simps [simp]:
  "wait_ms {#} = {#}" "wait_ms (M + N) = wait_ms M + wait_ms N"
  "wait_ms (add_mset (WaitCb e) M) = add_mset e (wait_ms M)"
  "wait_ms (add_mset (NackCb x t) M) = wait_ms M"
  by (simp_all add: wait_ms_def)

lemma wait_evals_mset: "mset (wait_evals cbs) = wait_ms (mset cbs)"
  by (induction cbs) (auto simp: wait_evals_def List.map_filter_simps split: callback.splits)

lemma waiting_ms_eq: "waiting_ms b = wait_ms (mset (map snd (rt_active b))) + wait_ms (mset (rt_fired b))"
  unfolding waiting_ms_def wait_evals_mset ..

lemma waiting_active: "map_of (rt_active b) h = Some (WaitCb e) \<Longrightarrow> e \<in># waiting_ms b"
  by (auto simp: waiting_ms_eq wait_ms_def image_iff intro!: bexI [of _ "WaitCb e"] dest!: map_of_SomeD
      intro: rev_bexI)

lemma inv_timersD:
  assumes "inv_timers b"
  shows "map_of (rt_active b) h = Some cb \<Longrightarrow> h < rt_next b"
    "map_of (rt_active b) h = Some (WaitCb e) \<Longrightarrow> map_of (eb_timeWait b) (ev_ID e) = Some h"
    "map_of (eb_unack b) x = Some u \<Longrightarrow> ua_NackTimer u < rt_next b"
    "map_of (eb_unack b) x = Some u \<Longrightarrow> map_of (rt_active b) (ua_NackTimer u) = Some cb \<Longrightarrow>
       cb = NackCb x (ua_Token u)"
    "map_of (eb_unack b) x = Some u \<Longrightarrow> map_of (eb_unack b) y = Some v \<Longrightarrow>
       ua_NackTimer v = ua_NackTimer u \<Longrightarrow> y = x"
  using assms unfolding inv_timers_def by blast+

lemma inv_timersI:
  assumes "\<And>h cb. map_of (rt_active b) h = Some cb \<Longrightarrow> h < rt_next b"
    "\<And>h e. map_of (rt_active b) h = Some (WaitCb e) \<Longrightarrow> map_of (eb_timeWait b) (ev_ID e) = Some h"
    "\<And>x u. map_of (eb_unack b) x = Some u \<Longrightarrow> ua_NackTimer u < rt_next b"
    "\<And>x u cb. map_of (eb_unack b) x = Some u \<Longrightarrow> map_of (rt_active b) (ua_NackTimer u) = Some cb \<Longrightarrow>
       cb = NackCb x (ua_Token u)"
    "\<And>x y u v. map_of (eb_unack b) x = Some u \<Longrightarrow> map_of (eb_unack b) y = Some v \<Longrightarrow>
       ua_NackTimer v = ua_NackTimer u \<Longrightarrow> y = x"
  shows "inv_timers b"
  using assms unfolding inv_timers_def by blast

lemma fresh_handle: "inv_timers b \<Longrightarrow> map_of (rt_active b) (rt_next b) = None"
  using inv_timersD(1) [of b "rt_next b"] by (cases "map_of (rt_active b) (rt_next b)") auto

lemma holds_slot_mono:
  assumes "holds_slot fl b j x" "contents (eb_ready b) \<subseteq># contents (eb_ready b')"
    "set_mset (waiting_ms b) \<union> set fl \<subseteq> set_mset (waiting_ms b') \<union> set fl'" "eb_unack b' = eb_unack b"
  shows "holds_slot fl' b' j x"
proof -
  have r: "e \<in># contents (eb_ready b')" if "e \<in># contents (eb_ready b)" for e
    using assms(2) that by (rule mset_subset_eqD)
  from assms(1) show ?thesis unfolding holds_slot_def assms(4) using r assms(3) by blast
qed

text \<open>A tracked evaluation goes to wait for its timer.\<close>

lemma processWaitingEnqueue_inv:
  assumes inv: "inv_mid (e # fl) fr b" and del: "deliveries b (ev_ID e) < eb_deliveryLimit b"
  shows "inv_mid fl fr (processWaitingEnqueue e b)"
proof -
  let ?b = "processWaitingEnqueue e b"
  from inv have k: "inv_keys (e # fl) b" and j: "inv_jobs (e # fl) fr b" and h: "inv_heaps b"
    and s: "inv_stats b" and c: "inv_counts b" and t: "inv_timers b" by (simp_all add: inv_mid_def)
  note eqs = processWaitingEnqueue_def AfterFunc_def
  note new = fresh_handle [OF t]
  have w: "waiting_ms ?b = add_mset e (waiting_ms b)"
    by (simp add: waiting_ms_eq eqs mset_vals_put_new [OF new] del: mset_map)
  have loc: "located ?b = add_mset (ev_ID e) (located b)" unfolding located_def w by (simp add: eqs)
  have "inv_keys fl ?b" using k by (simp add: inv_keys_def loc) (simp add: eqs)
  moreover have "inv_jobs fl fr ?b"
  proof (rule inv_jobsI)
    fix i y assume "eb_jobEvals ?b i = Some y"
    then have "holds_slot (e # fl) b i y" using inv_jobsD(6) [OF j] by (simp add: eqs)
    then show "holds_slot fl ?b i y" by (rule holds_slot_mono) (auto simp: w, simp_all add: eqs)
  qed (use inv_jobsD [OF j] in \<open>auto simp: eqs\<close>)
  moreover have "inv_heaps ?b" using h by (simp add: inv_heaps_def eqs)
  moreover have "inv_stats ?b" using s by (simp add: inv_stats_def w) (simp add: eqs sched_ready_def)
  moreover have "inv_counts ?b"
  proof (rule inv_countsI)
    fix y assume "y \<in># waiting_ms ?b"
    then show "deliveries ?b (ev_ID y) < eb_deliveryLimit ?b"
      using inv_countsD(4) [OF c, of y] del unfolding w by (auto simp: deliveries_def eqs)
  next
    fix y p assume "y \<in> set (amap_get [] (eb_ready ?b) p)"
    then show "right_queue ?b p y" using inv_countsD(2) [OF c, of y p]
      by (simp add: right_queue_def deliveries_def eqs)
  qed (use inv_countsD [OF c] in \<open>auto simp: deliveries_def eqs\<close>)
  moreover have "inv_timers ?b"
  proof (rule inv_timersI)
    fix i y assume i: "map_of (rt_active ?b) i = Some (WaitCb y)"
    show "map_of (eb_timeWait ?b) (ev_ID y) = Some i"
    proof (cases "i = rt_next b")
      case True
      with i show ?thesis by (auto simp: eqs)
    next
      case False
      with i have a: "map_of (rt_active b) i = Some (WaitCb y)" by (simp add: eqs)
      have "ev_ID y \<noteq> ev_ID e"
        using located_waiting [OF waiting_active [OF a]] floating_unique(1) [OF k] by auto
      with inv_timersD(2) [OF t a] show ?thesis by (simp add: eqs)
    qed
  next
    fix i cb assume "map_of (rt_active ?b) i = Some cb"
    then show "i < rt_next ?b" using inv_timersD(1) [OF t, of i] by (auto simp: eqs split: if_splits)
  next
    fix x u cb assume u: "map_of (eb_unack ?b) x = Some u" "map_of (rt_active ?b) (ua_NackTimer u) = Some cb"
    then have "ua_NackTimer u < rt_next b" using inv_timersD(3) [OF t, of x u] by (simp add: eqs)
    with u show "cb = NackCb x (ua_Token u)" using inv_timersD(4) [OF t, of x u cb] by (simp add: eqs)
  qed (use inv_timersD(3,5) [OF t] in \<open>auto simp: eqs less_SucI\<close>)
  ultimately show ?thesis unfolding inv_mid_def by blast
qed


section \<open>Callers of enqueue\<close>

lemma inv_midD:
  assumes "inv_mid fl fr b"
  shows "inv_keys fl b" "inv_jobs fl fr b" "inv_heaps b" "inv_stats b" "inv_counts b" "inv_timers b"
  using assms by (simp_all add: inv_mid_def)

lemma inv_midI:
  assumes "inv_keys fl b" "inv_jobs fl fr b" "inv_heaps b" "inv_stats b" "inv_counts b" "inv_timers b"
  shows "inv_mid fl fr b"
  using assms by (simp add: inv_mid_def)

text \<open>A new evaluation starts to be tracked.\<close>

lemma track_inv:
  assumes inv: "inv_mid fl fr b" and new: "map_of (eb_evals b) (ev_ID e) = None" and id: "ev_ID e \<noteq> ''''"
  shows "inv_mid (e # fl) fr (b\<lparr>eb_evals := amap_put (ev_ID e) 0 (eb_evals b)\<rparr>)"
proof -
  let ?b = "b\<lparr>eb_evals := amap_put (ev_ID e) 0 (eb_evals b)\<rparr>"
  note k = inv_midD(1) [OF inv] and j = inv_midD(2) [OF inv] and c = inv_midD(5) [OF inv]
  have w: "waiting_ms ?b = waiting_ms b" and loc: "located ?b = located b"
    by (simp_all add: located_def waiting_ms_def)
  have d: "deliveries ?b x = deliveries b x" for x
    using new by (simp add: deliveries_def go_get_def)
  have keys: "mset (map fst (amap_put (ev_ID e) 0 (eb_evals b))) = add_mset (ev_ID e) (mset (map fst (eb_evals b)))"
    using new by (simp add: mset_keys_put del: mset_map)
  show ?thesis
  proof (rule inv_midI)
    from k have "located b + image_mset ev_ID (mset fl) = mset (map fst (eb_evals b))" unfolding inv_keys_def by blast
    with k id show "inv_keys (e # fl) ?b" unfolding inv_keys_def loc using keys by (simp del: mset_map)
    show "inv_jobs (e # fl) fr ?b"
    proof (rule inv_jobsI)
      fix i y assume "eb_jobEvals ?b i = Some y"
      then have "holds_slot fl b i y" using inv_jobsD(6) [OF j] by simp
      then show "holds_slot (e # fl) ?b i y" by (rule holds_slot_mono) (auto simp: w)
    qed (use inv_jobsD [OF j] in auto)
    show "inv_counts ?b"
      by (rule inv_countsI, use inv_countsD [OF c] in \<open>auto simp: d w right_queue_def\<close>)
  qed (use inv_midD(3,4,6) [OF inv] in \<open>simp_all add: inv_heaps_def inv_stats_def inv_timers_def w sched_ready_def\<close>)
qed

text \<open>The requeue map only holds evaluations with an ID; the notification channels do not matter.\<close>

lemma requeue_inv:
  assumes "inv_mid fl fr b" "\<And>t e. r t = Some e \<Longrightarrow> ev_ID e \<noteq> ''''"
  shows "inv_mid fl fr (b\<lparr>eb_requeue := r\<rparr>)"
proof -
  let ?b = "b\<lparr>eb_requeue := r\<rparr>"
  have eqs: "waiting_ms ?b = waiting_ms b" "located ?b = located b"
    "holds_slot fl ?b j x \<longleftrightarrow> holds_slot fl b j x" "deliveries ?b x = deliveries b x"
    "right_queue ?b q e \<longleftrightarrow> right_queue b q e" "sched_ready ?b q = sched_ready b q" for j x q e
    by (simp_all add: waiting_ms_def located_def holds_slot_def deliveries_def right_queue_def sched_ready_def)
  have "inv_keys fl ?b" using inv_midD(1) [OF assms(1)] assms(2) by (simp add: inv_keys_def eqs)
  moreover have "inv_jobs fl fr ?b = inv_jobs fl fr b" by (simp add: inv_jobs_def eqs)
  moreover have "inv_heaps ?b = inv_heaps b" by (simp add: inv_heaps_def)
  moreover have "inv_stats ?b = inv_stats b" by (simp add: inv_stats_def eqs)
  moreover have "inv_counts ?b = inv_counts b" by (simp add: inv_counts_def eqs)
  moreover have "inv_timers ?b = inv_timers b" by (simp add: inv_timers_def)
  ultimately show ?thesis using assms(1) by (simp add: inv_mid_def)
qed

lemma requeue_values: "inv_mid fl fr b \<Longrightarrow> eb_requeue b t = Some e \<Longrightarrow> ev_ID e \<noteq> ''''"
  by (simp add: inv_mid_def inv_keys_def)

lemma processEnqueue_inv:
  assumes inv: "broker_inv b" and en: "eb_enabled b" and id: "ev_ID e \<noteq> ''''"
  shows "broker_inv (processEnqueue e token b)"
proof (cases "map_of (eb_evals b) (ev_ID e) = None")
  case True
  let ?b = "b\<lparr>eb_evals := amap_put (ev_ID e) 0 (eb_evals b)\<rparr>"
  have mid: "inv_mid [e] None ?b" using inv True id unfolding broker_inv_def by (rule track_inv)
  have d: "deliveries ?b (ev_ID e) < eb_deliveryLimit ?b"
    using inv_countsD(1) [OF inv_midD(5) [OF mid]] by (simp add: deliveries_def)
  then have "may_enqueue e (ev_Type e) ?b" by (simp add: may_enqueue_def right_queue_def)
  with mid en have "inv_mid [] None (enqueueLocked e (ev_Type e) ?b)" by (intro enqueueLocked_inv) auto
  moreover have "inv_mid [] None (processWaitingEnqueue e ?b)" using mid d by (rule processWaitingEnqueue_inv)
  ultimately show ?thesis using True en by (simp add: processEnqueue_def broker_inv_def Let_def)
next
  case False
  have "broker_inv (b\<lparr>eb_requeue := (eb_requeue b)(token \<mapsto> e)\<rparr>)"
    using inv id unfolding broker_inv_def
    by (intro requeue_inv) (auto split: if_splits dest: requeue_values)
  with inv False show ?thesis by (auto simp: processEnqueue_def split: option.splits)
qed

lemma processEnqueue_enabled: "eb_enabled (processEnqueue e token b) = eb_enabled b"
  by (auto simp: processEnqueue_def processWaitingEnqueue_def AfterFunc_def enqueueLocked_frame Let_def
      split: option.splits)

text \<open>A timer fires: its evaluation stays among the waiting ones until the callback runs.\<close>

lemma fire_inv:
  assumes inv: "broker_inv b" and f: "fire h b = Some b'"
  shows "broker_inv b'"
proof -
  from f obtain cb where cb: "map_of (rt_active b) h = Some cb"
    and b': "b' = b\<lparr>rt_active := amap_del h (rt_active b), rt_fired := cb # rt_fired b\<rparr>"
    by (auto simp: fire_def)
  note mid = inv [unfolded broker_inv_def]
  note k = inv_midD(1) [OF mid] and j = inv_midD(2) [OF mid] and t = inv_midD(6) [OF mid] and c = inv_midD(5) [OF mid]
  have dk: "distinct (map fst (rt_active b))" using k by (simp add: inv_keys_def)
  have "wait_ms (mset (map snd (rt_active b))) = wait_ms (add_mset cb (mset (map snd (amap_del h (rt_active b)))))"
    using mset_vals_del [OF dk cb] by simp
  then have w: "waiting_ms b' = waiting_ms b"
    by (cases cb) (simp_all add: waiting_ms_eq b' del: mset_map)
  have loc: "located b' = located b" unfolding located_def w by (simp add: b')
  have "inv_mid [] None b'"
  proof (rule inv_midI)
    show "inv_keys [] b'" using k by (simp add: inv_keys_def loc) (simp add: b')
    show "inv_jobs [] None b'"
    proof (rule inv_jobsI)
      fix i y assume "eb_jobEvals b' i = Some y"
      then have "holds_slot [] b i y" using inv_jobsD(6) [OF j] by (simp add: b')
      then show "holds_slot [] b' i y" by (rule holds_slot_mono) (simp_all add: w, simp_all add: b')
    qed (use inv_jobsD [OF j] in \<open>auto simp: b'\<close>)
    show "inv_stats b'" using inv_midD(4) [OF mid] by (simp add: inv_stats_def w) (simp add: b' sched_ready_def)
    show "inv_counts b'"
    proof (rule inv_countsI)
      fix y assume "y \<in># waiting_ms b'"
      then show "deliveries b' (ev_ID y) < eb_deliveryLimit b'"
        using inv_countsD(4) [OF c, of y] unfolding w by (simp add: b' deliveries_def)
    qed (use inv_countsD [OF c] in \<open>auto simp: b' deliveries_def right_queue_def\<close>)
    show "inv_timers b'"
      by (rule inv_timersI, use inv_timersD [OF t] in \<open>auto simp: b' split: if_splits\<close>)
  qed (use inv_midD(3) [OF mid] in \<open>simp add: inv_heaps_def b'\<close>)
  then show ?thesis by (simp add: broker_inv_def)
qed

text \<open>The callback of a wait timer enqueues the evaluation.\<close>

lemma enqueueWaiting_inv:
  assumes inv: "broker_inv b" and en: "eb_enabled b" and cb: "WaitCb e \<in> set (rt_fired b)"
  shows "broker_inv (enqueueWaiting e (b\<lparr>rt_fired := remove1 (WaitCb e) (rt_fired b)\<rparr>))"
proof -
  let ?b = "b\<lparr>rt_fired := remove1 (WaitCb e) (rt_fired b), eb_timeWait := amap_del (ev_ID e) (eb_timeWait b),
    eb_TotalWaiting := eb_TotalWaiting b - 1\<rparr>"
  note mid = inv [unfolded broker_inv_def]
  note k = inv_midD(1) [OF mid] and j = inv_midD(2) [OF mid] and t = inv_midD(6) [OF mid] and c = inv_midD(5) [OF mid]
  have "mset (rt_fired b) = add_mset (WaitCb e) (mset (remove1 (WaitCb e) (rt_fired b)))" using cb by simp
  from arg_cong [OF this, of wait_ms]
  have "wait_ms (mset (rt_fired b)) = add_mset e (wait_ms (mset (remove1 (WaitCb e) (rt_fired b))))"
    by (simp only: wait_ms_simps)
  then have w: "waiting_ms b = add_mset e (waiting_ms ?b)" unfolding waiting_ms_eq by simp
  have loc: "located b = add_mset (ev_ID e) (located ?b)" unfolding located_def w by simp
  have kb: "inv_keys [e] ?b" using k by (simp add: inv_keys_def loc)
  have "inv_mid [e] None ?b"
  proof (rule inv_midI)
    show "inv_jobs [e] None ?b"
    proof (rule inv_jobsI)
      fix i y assume "eb_jobEvals ?b i = Some y"
      then have "holds_slot [] b i y" using inv_jobsD(6) [OF j] by simp
      then show "holds_slot [e] ?b i y" by (rule holds_slot_mono) (simp_all add: w)
    qed (use inv_jobsD [OF j] in auto)
    show "inv_stats ?b" using inv_midD(4) [OF mid] by (simp add: inv_stats_def w sched_ready_def)
    show "inv_counts ?b"
      by (rule inv_countsI, use inv_countsD [OF c] in \<open>auto simp: deliveries_def right_queue_def w\<close>)
    show "inv_timers ?b"
    proof (rule inv_timersI)
      fix h y assume "map_of (rt_active ?b) h = Some (WaitCb y)"
      moreover from this have "ev_ID y \<noteq> ev_ID e"
        using located_waiting [OF waiting_active] floating_unique(1) [OF kb] by metis
      ultimately show "map_of (eb_timeWait ?b) (ev_ID y) = Some h" using inv_timersD(2) [OF t] by simp
    qed (use inv_timersD [OF t] in auto)
  qed (use kb inv_midD(3) [OF mid] in \<open>simp_all add: inv_heaps_def\<close>)
  moreover have "may_enqueue e (ev_Type e) ?b"
    using inv_countsD(4) [OF c, of e] w by (simp add: may_enqueue_def right_queue_def deliveries_def)
  ultimately have "inv_mid [] None (enqueueLocked e (ev_Type e) ?b)" using en by (intro enqueueLocked_inv) auto
  then show ?thesis by (simp add: broker_inv_def enqueueWaiting_def)
qed

end
