(* ===== verification/Eval_Broker_Run.thy ===== *)
theory Eval_Broker_Run
  imports Eval_Broker_Inv
begin

text \<open>
  Delivery, acknowledgement, negative acknowledgement and the timer callbacks keep the broker's invariant.
\<close>

section \<open>Delivery\<close>

text \<open>The places are pairwise disjoint.\<close>

lemma places_disjoint:
  assumes "inv_keys fl b"
  shows "e \<in># contents (eb_ready b) \<Longrightarrow> f \<in># contents (eb_blocked b) \<Longrightarrow> ev_ID e \<noteq> ev_ID f"
    "e \<in># contents (eb_ready b) \<Longrightarrow> f \<in># waiting_ms b \<Longrightarrow> ev_ID e \<noteq> ev_ID f"
    "e \<in># contents (eb_ready b) \<Longrightarrow> map_of (eb_unack b) (ev_ID e) = None"
    "e \<in># contents (eb_blocked b) \<Longrightarrow> map_of (eb_unack b) (ev_ID e) = None"
    "e \<in># waiting_ms b \<Longrightarrow> map_of (eb_unack b) (ev_ID e) = None"
proof -
  have img: "1 \<le> count (image_mset ev_ID M) (ev_ID e)" if "e \<in># M" for M e
    using that by (simp add: count_greater_eq_one_iff)
  have un: "1 \<le> count (mset (map fst (eb_unack b))) x" if "map_of (eb_unack b) x \<noteq> None" for x
    using that by (simp add: count_greater_eq_one_iff map_of_eq_None_iff)
  note le = located_le_one [OF assms, unfolded located_def count_union]
  show "ev_ID e \<noteq> ev_ID f" if "e \<in># contents (eb_ready b)" "f \<in># contents (eb_blocked b)"
  proof
    assume eq: "ev_ID e = ev_ID f"
    from img [OF that(1)] img [OF that(2)] le [of "ev_ID e"] show False unfolding eq by linarith
  qed
  show "ev_ID e \<noteq> ev_ID f" if "e \<in># contents (eb_ready b)" "f \<in># waiting_ms b"
  proof
    assume eq: "ev_ID e = ev_ID f"
    from img [OF that(1)] img [OF that(2)] le [of "ev_ID e"] show False unfolding eq by linarith
  qed
  show "map_of (eb_unack b) (ev_ID e) = None" if "e \<in># contents (eb_ready b)"
    using img [OF that] un [of "ev_ID e"] le [of "ev_ID e"] by linarith
  show "map_of (eb_unack b) (ev_ID e) = None" if "e \<in># contents (eb_blocked b)"
    using img [OF that] un [of "ev_ID e"] le [of "ev_ID e"] by linarith
  show "map_of (eb_unack b) (ev_ID e) = None" if "e \<in># waiting_ms b"
    using img [OF that] un [of "ev_ID e"] le [of "ev_ID e"] by linarith
qed

text \<open>The state after a delivery, with everything the broker records of it.\<close>

definition delivered :: "string \<Rightarrow> evaluation \<Rightarrow> evaluation list \<Rightarrow> string \<Rightarrow> sched_stats \<Rightarrow> eval_broker \<Rightarrow> eval_broker" where
  "delivered sched e pending token st b = b\<lparr>
     eb_ready := amap_put sched pending (eb_ready b),
     rt_active := amap_put (rt_next b) (NackCb (ev_ID e) token) (rt_active b), rt_next := rt_next b + 1,
     eb_unack := amap_put (ev_ID e) \<lparr>ua_Eval = e, ua_Token = token, ua_NackTimer = rt_next b\<rparr> (eb_unack b),
     eb_evals := amap_put (ev_ID e) (amap_get 0 (eb_evals b) (ev_ID e) + 1) (eb_evals b),
     eb_TotalReady := eb_TotalReady b - 1, eb_TotalUnacked := eb_TotalUnacked b + 1,
     eb_ByScheduler := amap_put sched (st\<lparr>ss_Ready := ss_Ready st - 1, ss_Unacked := ss_Unacked st + 1\<rparr>)
       (eb_ByScheduler b)\<rparr>"

lemma dequeueForSched_eq:
  "dequeueForSched sched token b =
     Option.bind (heap_pop Less (amap_get [] (eb_ready b) sched)) (\<lambda>(e, pending).
       map_option (\<lambda>st. (e, token, delivered sched e pending token st b)) (map_of (eb_ByScheduler b) sched))"
  by (cases "heap_pop Less (amap_get [] (eb_ready b) sched)")
    (auto simp: dequeueForSched_def delivered_def AfterFunc_def Let_def split: option.splits)

lemma delivered_inv:
  assumes inv: "broker_inv b" and pop: "heap_pop Less (amap_get [] (eb_ready b) sched) = Some (e, pending)"
    and st: "map_of (eb_ByScheduler b) sched = Some st"
  shows "broker_inv (delivered sched e pending token st b)"
proof -
  let ?b = "delivered sched e pending token st b" and ?h = "amap_get [] (eb_ready b) sched"
  note mid = inv [unfolded broker_inv_def]
  note k = inv_midD(1) [OF mid] and j = inv_midD(2) [OF mid] and s = inv_midD(4) [OF mid]
    and c = inv_midD(5) [OF mid] and t = inv_midD(6) [OF mid]
  note perm = rq.heap_pop_perm(2) [OF pop]
  have dk: "distinct (map fst (eb_ready b))" using k by (simp add: inv_keys_def)
  have "contents (amap_put sched pending (eb_ready b)) + mset ?h = contents (eb_ready b) + mset pending"
    by (rule contents_put [OF dk])
  then have "add_mset e (contents (amap_put sched pending (eb_ready b))) + mset pending =
      contents (eb_ready b) + mset pending" unfolding perm by simp
  then have cont: "contents (eb_ready b) = add_mset e (contents (amap_put sched pending (eb_ready b)))"
    by (metis add_right_imp_eq)
  have e: "e \<in># contents (eb_ready b)" and eh: "e \<in> set ?h"
    using cont perm by (auto simp: set_mset_mset [symmetric] simp del: set_mset_mset)
  note tr = located_tracked(1) [OF k located_ready [OF e]] places_disjoint(3) [OF k e]
  have w: "waiting_ms ?b = waiting_ms b"
    by (simp add: waiting_ms_eq delivered_def mset_vals_put_new [OF fresh_handle [OF t]] del: mset_map)
  have keys: "mset (map fst (eb_unack ?b)) = add_mset (ev_ID e) (mset (map fst (eb_unack b)))"
    using tr(2) by (simp add: delivered_def mset_keys_put del: mset_map)
  have loc: "located ?b = located b"
    unfolding located_def w keys cont by (simp add: delivered_def)
  have d: "deliveries ?b x = deliveries b x + (if x = ev_ID e then 1 else 0)" for x
    by (simp add: deliveries_def delivered_def)
  have gone: "ev_ID y \<noteq> ev_ID e" if "y \<in># contents (amap_put sched pending (eb_ready b))" for y
  proof -
    have "count (image_mset ev_ID (contents (amap_put sched pending (eb_ready b)))) (ev_ID e) = 0"
      using located_le_one [OF k, of "ev_ID e", unfolded located_def count_union cont] by simp
    then have "ev_ID e \<notin># image_mset ev_ID (contents (amap_put sched pending (eb_ready b)))"
      by (simp only: not_in_iff)
    with that show ?thesis by (metis image_eqI set_image_mset)
  qed
  have fr: "deliveries ?b (ev_ID y) = deliveries b (ev_ID y)" if "ev_ID y \<noteq> ev_ID e" for y
    using that by (simp add: d)
  show ?thesis unfolding broker_inv_def
  proof (rule inv_midI)
    have "mset (map fst (eb_evals ?b)) = mset (map fst (eb_evals b))"
      using tr(1) by (simp add: delivered_def mset_keys_put del: mset_map)
    moreover have "map_of (eb_evals ?b) '''' = None" using k tr(1) by (auto simp: inv_keys_def delivered_def)
    moreover have "located b = mset (map fst (eb_evals b))" using k unfolding inv_keys_def by simp
    ultimately show "inv_keys [] ?b" using k unfolding inv_keys_def loc
      by (simp del: mset_map) (simp add: delivered_def)
    show "inv_jobs [] None ?b"
    proof (rule inv_jobsI)
      fix i y assume "eb_jobEvals ?b i = Some y"
      then have "holds_slot [] b i y" using inv_jobsD(6) [OF j] by (simp add: delivered_def)
      then show "holds_slot [] ?b i y"
        unfolding holds_slot_def w cont using tr(2) by (auto simp: delivered_def)
    next
      fix x u assume "map_of (eb_unack ?b) x = Some u"
      then show "ev_ID (ua_Eval u) = x \<and> eb_jobEvals ?b (ev_JobID (ua_Eval u)) = Some x"
        using inv_jobsD(2,3) [OF j, of x u] inv_jobsD(1) [OF j e] by (auto simp: delivered_def split: if_splits)
    qed (use inv_jobsD(1,4,5) [OF j] cont in \<open>auto simp: delivered_def\<close>)
    have hp: "rq.heap_inv ?h"
      using inv_midD(3) [OF mid] rq.heap_inv_Nil by (auto simp: inv_heaps_def go_get_def split: option.splits)
    have "inj_on ev_JobID (set ?h)" by (rule inj_on_subset [OF ready_inj_job [OF k j] amap_get_contents])
    from rq.heap_pop_inv [OF this hp pop] inv_midD(3) [OF mid]
    show "inv_heaps ?b" by (simp add: inv_heaps_def delivered_def)
    have sr: "sched_ready ?b q = sched_ready b q - (if q = sched then 1 else 0)" for q
      using st by (auto simp: sched_ready_def delivered_def)
    have "length (eb_unack ?b) = Suc (length (eb_unack b))"
      using arg_cong [OF keys, of size] by (simp del: mset_map)
    moreover have "length ?h = Suc (length pending)" using arg_cong [OF perm, of size] by simp
    moreover have "size (contents (eb_ready b)) = Suc (size (contents (amap_put sched pending (eb_ready b))))"
      unfolding cont by simp
    ultimately show "inv_stats ?b" using s unfolding inv_stats_def sr w
      by (auto simp: delivered_def)
    show "inv_counts ?b"
    proof (rule inv_countsI)
      fix y q assume y: "y \<in> set (amap_get [] (eb_ready ?b) q)"
      then have "y \<in># contents (amap_put sched pending (eb_ready b))"
        using amap_get_contents [of "eb_ready ?b" q] by (auto simp: delivered_def)
      moreover have "y \<in> set (amap_get [] (eb_ready b) q)"
        using y arg_cong [OF perm, of set_mset] by (auto simp: delivered_def split: if_splits)
      ultimately show "right_queue ?b q y"
        using inv_countsD(2) [OF c, of y q] gone [of y]
        by (auto simp: right_queue_def fr) (auto simp: delivered_def)
    next
      fix y assume "y \<in># contents (eb_blocked ?b)"
      then have "y \<in># contents (eb_blocked b)" by (simp add: delivered_def)
      with inv_countsD(3) [OF c this] places_disjoint(1) [OF k e this]
      show "deliveries ?b (ev_ID y) < eb_deliveryLimit ?b" by (simp add: d) (simp add: delivered_def)
    next
      fix y assume "y \<in># waiting_ms ?b"
      then have "y \<in># waiting_ms b" by (simp add: w)
      with inv_countsD(4) [OF c this] places_disjoint(2) [OF k e this]
      show "deliveries ?b (ev_ID y) < eb_deliveryLimit ?b" by (simp add: d) (simp add: delivered_def)
    next
      fix x u assume "map_of (eb_unack ?b) x = Some u"
      then show "map_of (eb_ByScheduler ?b) (ev_Type (ua_Eval u)) \<noteq> None"
        using inv_countsD(5) [OF c, of x u] inv_countsD(2) [OF c eh] st
        by (auto simp: delivered_def right_queue_def split: if_splits)
    next
      fix x u assume "map_of (eb_unack ?b) x = Some u" "eb_deliveryLimit ?b < deliveries ?b x"
      then show "map_of (eb_ByScheduler ?b) failedQueue \<noteq> None"
        using inv_countsD(6) [OF c, of x u] inv_countsD(2) [OF c eh] st
        by (auto simp: d right_queue_def) (auto simp: delivered_def split: if_splits)
    qed (use inv_countsD(1) [OF c] in \<open>simp add: delivered_def\<close>)
    show "inv_timers ?b"
    proof (rule inv_timersI)
      fix x u cb assume u: "map_of (eb_unack ?b) x = Some u" "map_of (rt_active ?b) (ua_NackTimer u) = Some cb"
      show "cb = NackCb x (ua_Token u)"
      proof (cases "x = ev_ID e")
        case True
        with u show ?thesis by (auto simp: delivered_def)
      next
        case False
        with u(1) have u0: "map_of (eb_unack b) x = Some u" by (simp add: delivered_def)
        with inv_timersD(3) [OF t u0] inv_timersD(4) [OF t u0, of cb] u(2) show ?thesis
          by (simp add: delivered_def)
      qed
    next
      fix x y u v assume "map_of (eb_unack ?b) x = Some u" "map_of (eb_unack ?b) y = Some v"
        "ua_NackTimer v = ua_NackTimer u"
      then show "y = x" using inv_timersD(3) [OF t, of x u] inv_timersD(3) [OF t, of y v]
          inv_timersD(5) [OF t, of x u y v] by (auto simp: delivered_def split: if_splits)
    next
      fix h y assume "map_of (rt_active ?b) h = Some (WaitCb y)"
      then show "map_of (eb_timeWait ?b) (ev_ID y) = Some h"
        using inv_timersD(2) [OF t, of h y] by (auto simp: delivered_def split: if_splits)
    next
      fix h cb assume "map_of (rt_active ?b) h = Some cb"
      then show "h < rt_next ?b" using inv_timersD(1) [OF t, of h cb] by (auto simp: delivered_def split: if_splits)
    next
      fix x u assume "map_of (eb_unack ?b) x = Some u"
      then show "ua_NackTimer u < rt_next ?b"
        using inv_timersD(3) [OF t, of x u] by (auto simp: delivered_def split: if_splits)
    qed
  qed
qed

section \<open>Return of a delivery\<close>

text \<open>An outstanding evaluation leaves the unacknowledged map and is in transit.\<close>

definition released :: "string \<Rightarrow> unack_eval \<Rightarrow> string \<Rightarrow> sched_stats \<Rightarrow> eval_broker \<Rightarrow> eval_broker" where
  "released x u q st b = b\<lparr>
     rt_active := amap_del (ua_NackTimer u) (rt_active b), eb_unack := amap_del x (eb_unack b),
     eb_TotalUnacked := eb_TotalUnacked b - 1,
     eb_ByScheduler := amap_put q (st\<lparr>ss_Unacked := ss_Unacked st - 1\<rparr>) (eb_ByScheduler b)\<rparr>"

lemma released_waiting:
  assumes "inv_mid fl fr b" "map_of (eb_unack b) x = Some u"
  shows "waiting_ms (released x u q st b) = waiting_ms b"
proof -
  note k = inv_midD(1) [OF assms(1)] and t = inv_midD(6) [OF assms(1)]
  have dk: "distinct (map fst (rt_active b))" using k by (simp add: inv_keys_def)
  have "wait_ms (mset (map snd (amap_del (ua_NackTimer u) (rt_active b)))) = wait_ms (mset (map snd (rt_active b)))"
  proof (cases "map_of (rt_active b) (ua_NackTimer u)")
    case None
    then show ?thesis by (simp add: del_None)
  next
    case (Some cb)
    with inv_timersD(4) [OF t assms(2)] have "cb = NackCb x (ua_Token u)" by blast
    then show ?thesis unfolding mset_vals_del [OF dk Some] by simp
  qed
  then show ?thesis by (simp add: waiting_ms_eq released_def del: mset_map)
qed

lemma released_inv:
  assumes inv: "broker_inv b" and u: "map_of (eb_unack b) x = Some u"
    and st: "map_of (eb_ByScheduler b) q = Some st"
    and e: "ev_ID e = x" "ev_JobID e = ev_JobID (ua_Eval u)"
  shows "inv_mid [e] None (released x u q st b)"
proof -
  let ?b = "released x u q st b"
  note mid = inv [unfolded broker_inv_def]
  note k = inv_midD(1) [OF mid] and j = inv_midD(2) [OF mid] and s = inv_midD(4) [OF mid]
    and c = inv_midD(5) [OF mid] and t = inv_midD(6) [OF mid]
  note w = released_waiting [OF mid u, of q st]
  have dk: "distinct (map fst (eb_unack b))" using k by (simp add: inv_keys_def)
  note keys = mset_keys_del [OF dk u]
  have loc: "located b = add_mset x (located ?b)"
    unfolding located_def w keys by (simp add: released_def del: mset_map)
  have d: "deliveries ?b y = deliveries b y" for y by (simp add: deliveries_def released_def)
  have sr: "sched_ready ?b p = sched_ready b p" for p using st by (auto simp: sched_ready_def released_def)
  show ?thesis
  proof (rule inv_midI)
    have "located b = mset (map fst (eb_evals b))" using k unfolding inv_keys_def by simp
    then have "add_mset x (located ?b) = mset (map fst (eb_evals ?b))" unfolding loc by (simp add: released_def)
    with k e(1) show "inv_keys [e] ?b" unfolding inv_keys_def by (simp del: mset_map) (simp add: released_def)
    show "inv_jobs [e] None ?b"
    proof (rule inv_jobsI)
      fix i y assume "eb_jobEvals ?b i = Some y"
      then have "holds_slot [] b i y" using inv_jobsD(6) [OF j] by (simp add: released_def)
      then show "holds_slot [e] ?b i y"
        unfolding holds_slot_def w using e u by (cases "y = x") (auto simp: released_def)
    qed (use inv_jobsD(1-5) [OF j] in \<open>auto simp: released_def split: if_splits\<close>)
    have "length (eb_unack b) = Suc (length (eb_unack ?b))"
      using arg_cong [OF keys, of size] by (simp add: released_def del: mset_map)
    with s show "inv_stats ?b" unfolding inv_stats_def sr w by (auto simp: released_def)
    show "inv_counts ?b"
      by (rule inv_countsI, use inv_countsD [OF c] in
        \<open>auto simp: d w right_queue_def\<close>, (auto simp: released_def split: if_splits)+)
    show "inv_timers ?b"
      by (rule inv_timersI, use inv_timersD [OF t] in \<open>auto simp: released_def split: if_splits\<close>)
  qed (use inv_midD(3) [OF mid] in \<open>simp add: inv_heaps_def released_def\<close>)
qed

text \<open>An evaluation in transit stops being tracked, and its job's slot is free.\<close>

lemma forget_inv:
  assumes inv: "inv_mid (e # fl) None b" and slot: "eb_jobEvals b (ev_JobID e) = Some (ev_ID e)"
  shows "inv_mid fl (Some (ev_JobID e))
    (b\<lparr>eb_evals := amap_del (ev_ID e) (eb_evals b), eb_jobEvals := (eb_jobEvals b)(ev_JobID e := None)\<rparr>)"
    (is "inv_mid fl _ ?b")
proof -
  note k = inv_midD(1) [OF inv] and j = inv_midD(2) [OF inv] and c = inv_midD(5) [OF inv]
  have w: "waiting_ms ?b = waiting_ms b" and loc: "located ?b = located b"
    by (simp_all add: located_def waiting_ms_def)
  note fresh = floating_unique [OF k]
  obtain v where v: "map_of (eb_evals b) (ev_ID e) = Some v" using fresh(3) by blast
  have d: "deliveries ?b x = deliveries b x" if "x \<in># located b" for x
    using that fresh(1) by (auto simp: deliveries_def)
  have noslot: "ev_JobID y \<noteq> ev_JobID e" if "eb_jobEvals b (ev_JobID y) = Some (ev_ID y)" "ev_ID y \<in># located b" for y
    using that slot fresh(1) by auto
  show ?thesis
  proof (rule inv_midI)
    have dk: "distinct (map fst (eb_evals b))" using k by (simp add: inv_keys_def)
    have "located b + image_mset ev_ID (mset (e # fl)) = mset (map fst (eb_evals b))"
      using k unfolding inv_keys_def by blast
    then have "located b + image_mset ev_ID (mset fl) = mset (map fst (amap_del (ev_ID e) (eb_evals b)))"
      unfolding mset_keys_del [OF dk v] by simp
    with k show "inv_keys fl ?b" unfolding inv_keys_def loc by (simp del: mset_map)
    show "inv_jobs fl (Some (ev_JobID e)) ?b"
    proof (rule inv_jobsI)
      fix i y assume iy: "eb_jobEvals ?b i = Some y"
      then have "holds_slot (e # fl) b i y" "i \<noteq> ev_JobID e"
        using inv_jobsD(6) [OF j] by (auto split: if_splits)
      then show "holds_slot fl ?b i y" unfolding holds_slot_def w by auto
    next
      fix y assume y: "y \<in># contents (eb_ready ?b)"
      then have "eb_jobEvals b (ev_JobID y) = Some (ev_ID y)" "ev_ID y \<in># located b"
        using inv_jobsD(1) [OF j, of y] located_ready [of y b] by simp_all
      with noslot [OF this] show "eb_jobEvals ?b (ev_JobID y) = Some (ev_ID y)" by simp
    next
      fix x u assume "map_of (eb_unack ?b) x = Some u"
      then have u: "map_of (eb_unack b) x = Some u" by simp
      with noslot [of "ua_Eval u"] inv_jobsD(2,3) [OF j u] located_unack [OF u]
      show "ev_ID (ua_Eval u) = x \<and> eb_jobEvals ?b (ev_JobID (ua_Eval u)) = Some x" by simp
    qed (use inv_jobsD(4,5) [OF j] in auto)
    show "inv_counts ?b"
    proof (rule inv_countsI)
      fix y q assume y: "y \<in> set (amap_get [] (eb_ready ?b) q)"
      then have "ev_ID y \<in># located b"
        using amap_get_contents [of "eb_ready b" q] by (auto intro: located_ready)
      with d inv_countsD(2) [OF c, of y q] y show "right_queue ?b q y" by (simp add: right_queue_def)
    qed (use inv_countsD [OF c] d located_blocked located_waiting located_unack in \<open>auto simp: w\<close>)
  qed (use inv_midD(3,4,6) [OF inv] in \<open>simp_all add: inv_heaps_def inv_stats_def inv_timers_def w sched_ready_def\<close>)
qed

section \<open>Acknowledgement\<close>

lemma pop_blocked_inv:
  assumes inv: "inv_mid [] (Some jb) b" and pop: "heap_pop Less (amap_get [] (eb_blocked b) jb) = Some (e, rest)"
  shows "inv_mid [e] (Some jb) (b\<lparr>eb_blocked := (if rest \<noteq> [] then amap_put jb rest (eb_blocked b)
      else amap_del jb (eb_blocked b)), eb_TotalBlocked := eb_TotalBlocked b - 1\<rparr>)" (is "inv_mid _ _ ?b")
    and "ev_JobID e = jb" and "e \<in># contents (eb_blocked b)"
proof -
  let ?h = "amap_get [] (eb_blocked b) jb"
  note k = inv_midD(1) [OF inv] and j = inv_midD(2) [OF inv] and c = inv_midD(5) [OF inv] and s = inv_midD(4) [OF inv]
  note perm = bq.heap_pop_perm(2) [OF pop]
  have dk: "distinct (map fst (eb_blocked b))" using k by (simp add: inv_keys_def)
  have sub: "set rest \<subseteq> set ?h" "e \<in> set ?h" using arg_cong [OF perm, of set_mset] by auto
  show job: "ev_JobID e = jb" using blocked_queue_job [OF j sub(2)] .
  have cont: "contents (eb_blocked b) = add_mset e (contents (eb_blocked ?b))"
  proof (cases "rest = []")
    case True
    with contents_del [OF dk, of jb] perm show ?thesis by simp
  next
    case False
    have "contents (amap_put jb rest (eb_blocked b)) + mset ?h = contents (eb_blocked b) + mset rest"
      by (rule contents_put [OF dk])
    then have "add_mset e (contents (amap_put jb rest (eb_blocked b))) + mset rest = contents (eb_blocked b) + mset rest"
      unfolding perm by simp
    then have "add_mset e (contents (amap_put jb rest (eb_blocked b))) = contents (eb_blocked b)"
      by (rule add_right_imp_eq)
    with False show ?thesis by simp
  qed
  then show "e \<in># contents (eb_blocked b)" by simp
  have w: "waiting_ms ?b = waiting_ms b" by (simp add: waiting_ms_def)
  have loc: "located b = add_mset (ev_ID e) (located ?b)" unfolding located_def w cont by simp
  have d: "deliveries ?b x = deliveries b x" for x by (simp add: deliveries_def)
  have sr: "sched_ready ?b p = sched_ready b p" for p by (simp add: sched_ready_def)
  have blk: "map_of (eb_blocked ?b) i = Some es \<Longrightarrow> i = jb \<and> es = rest \<or> map_of (eb_blocked b) i = Some es" for i es
    by (auto split: if_splits)
  show "inv_mid [e] (Some jb) ?b"
  proof (rule inv_midI)
    show "inv_keys [e] ?b" using k by (simp add: inv_keys_def loc)
    show "inv_jobs [e] (Some jb) ?b"
    proof (rule inv_jobsI)
      fix i y assume "eb_jobEvals ?b i = Some y"
      then have "holds_slot [] b i y" using inv_jobsD(6) [OF j] by simp
      then show "holds_slot [e] ?b i y" by (rule holds_slot_mono) (auto simp: w)
    next
      fix i es y assume "map_of (eb_blocked ?b) i = Some es" "y \<in> set es"
      with blk [of i es] show "ev_JobID y = i"
        using inv_jobsD(4) [OF j, of i es y] blocked_queue_job [OF j, of y jb] sub by blast
    next
      fix y assume "y \<in># contents (eb_blocked ?b)" "Some jb \<noteq> Some (ev_JobID y)"
      then show "eb_jobEvals ?b (ev_JobID y) \<noteq> None" using inv_jobsD(5) [OF j, of y] cont by simp
    qed (use inv_jobsD(1,2,3) [OF j] in auto)
    have hp: "bq.heap_inv ?h"
      using inv_midD(3) [OF inv] bq.heap_inv_Nil by (auto simp: inv_heaps_def go_get_def split: option.splits)
    have "\<exists>i. \<forall>y \<in> set ?h. ev_JobID y = i" using blocked_queue_job [OF j] by blast
    from bq.heap_pop_inv [OF this hp pop] inv_midD(3) [OF inv] blk
    show "inv_heaps ?b" unfolding inv_heaps_def by simp
    show "inv_stats ?b" using s unfolding inv_stats_def sr w cont by simp
    show "inv_counts ?b"
    proof (rule inv_countsI)
      fix y assume "y \<in># contents (eb_blocked ?b)"
      then show "deliveries ?b (ev_ID y) < eb_deliveryLimit ?b" using inv_countsD(3) [OF c, of y] cont by (simp add: d)
    qed (use inv_countsD [OF c] in \<open>auto simp: d w right_queue_def\<close>)
    show "inv_timers ?b" using inv_midD(6) [OF inv] by (simp add: inv_timers_def)
  qed
qed

lemma unblock_next_inv:
  assumes inv: "inv_mid [] (Some jb) b" and en: "eb_enabled b" and free: "eb_jobEvals b jb = None"
  shows "\<exists>b'. unblock_next jb b = Some b' \<and> broker_inv b' \<and> eb_enabled b' \<and> eb_requeue b' = eb_requeue b"
proof (cases "amap_get [] (eb_blocked b) jb = []")
  case True
  note j = inv_midD(2) [OF inv]
  have dk: "distinct (map fst (eb_blocked b))" using inv_midD(1) [OF inv] by (simp add: inv_keys_def)
  have "ev_JobID e \<noteq> jb" if "e \<in># contents (eb_blocked b)" for e
  proof
    assume "ev_JobID e = jb"
    from that obtain i es where "map_of (eb_blocked b) i = Some es" "e \<in> set es"
      by (auto simp: in_contents [OF dk])
    moreover from this have "i = jb" using inv_jobsD(4) [OF j, of i es e] \<open>ev_JobID e = jb\<close> by simp
    ultimately show False using True by (simp add: amap_get_Some)
  qed
  then have "inv_jobs [] None b" using inv_jobsD [OF j] by (intro inv_jobsI) (auto, metis option.inject)
  with inv have "broker_inv b" by (simp add: broker_inv_def inv_mid_def)
  with True en show ?thesis by (simp add: unblock_next_def)
next
  case False
  then obtain e rest where pop: "heap_pop Less (amap_get [] (eb_blocked b) jb) = Some (e, rest)"
    using bq.heap_pop_None [of "amap_get [] (eb_blocked b) jb"] by fastforce
  let ?b = "b\<lparr>eb_blocked := (if rest \<noteq> [] then amap_put jb rest (eb_blocked b)
      else amap_del jb (eb_blocked b)), eb_TotalBlocked := eb_TotalBlocked b - 1\<rparr>"
  note p = pop_blocked_inv [OF inv pop]
  have "may_enqueue e (ev_Type e) ?b"
    using inv_countsD(3) [OF inv_midD(5) [OF inv] p(3)] by (simp add: may_enqueue_def right_queue_def deliveries_def)
  then have "inv_mid [] None (enqueueLocked e (ev_Type e) ?b)"
    using p(1,2) en free by (intro enqueueLocked_inv) auto
  with pop False en show ?thesis
    by (simp add: unblock_next_def broker_inv_def enqueueLocked_frame)
qed

lemma requeue_del_inv: "broker_inv b \<Longrightarrow> broker_inv (b\<lparr>eb_requeue := (eb_requeue b)(t := None)\<rparr>)"
  unfolding broker_inv_def by (rule requeue_inv) (auto split: if_splits dest: requeue_values)

text \<open>\<open>Ack\<close> never panics and keeps the invariant, on every path.\<close>

lemma eb_Ack_inv:
  assumes inv: "broker_inv b" and en: "eb_enabled b"
  shows "\<exists>err b'. eb_Ack x token b = Some (err, b') \<and> broker_inv b' \<and> eb_enabled b'"
proof -
  note mid = inv [unfolded broker_inv_def]
  note j = inv_midD(2) [OF mid] and c = inv_midD(5) [OF mid]
  show ?thesis
  proof (cases "map_of (eb_unack b) x")
    case None
    with inv en show ?thesis by (simp add: eb_Ack_def requeue_del_inv)
  next
    case (Some u)
    consider (tok) "ua_Token u \<noteq> token" | (late) "ua_Token u = token" "map_of (rt_active b) (ua_NackTimer u) = None"
      | (ok) "ua_Token u = token" "map_of (rt_active b) (ua_NackTimer u) \<noteq> None" by blast
    then show ?thesis
    proof cases
      case tok
      with Some inv en show ?thesis by (simp add: eb_Ack_def requeue_del_inv)
    next
      case late
      then have "b\<lparr>rt_active := amap_del (ua_NackTimer u) (rt_active b)\<rparr> = b" by (simp add: del_None)
      with late Some inv en show ?thesis by (simp add: eb_Ack_def timer_Stop_def requeue_del_inv)
    next
      case ok
      define q where "q = (if amap_get 0 (eb_evals b) x > eb_deliveryLimit b then failedQueue else ev_Type (ua_Eval u))"
      obtain st where st: "map_of (eb_ByScheduler b) q = Some st"
        using inv_countsD(5,6) [OF c Some] unfolding q_def deliveries_def by fastforce
      let ?e = "ua_Eval u" and ?r = "released x u q st b"
      have id: "ev_ID ?e = x" and slot: "eb_jobEvals b (ev_JobID ?e) = Some x" using inv_jobsD(2,3) [OF j Some] by auto
      have r: "inv_mid [?e] None ?r" by (rule released_inv [OF inv Some st id refl])
      define b3 where "b3 = ?r\<lparr>eb_evals := amap_del x (eb_evals b), eb_jobEvals := (eb_jobEvals b)(ev_JobID ?e := None)\<rparr>"
      have b3: "inv_mid [] (Some (ev_JobID ?e)) b3" "eb_enabled b3" "eb_jobEvals b3 (ev_JobID ?e) = None"
        using forget_inv [OF r] id slot en by (simp_all add: b3_def released_def)
      obtain b4 where b4: "unblock_next (ev_JobID ?e) b3 = Some b4" "broker_inv b4" "eb_enabled b4"
        using unblock_next_inv [OF b3] by blast
      define b5 where "b5 = (case eb_requeue b4 token of None \<Rightarrow> b4 | Some ev \<Rightarrow> processEnqueue ev '''' b4)"
      have b5: "broker_inv b5" "eb_enabled b5"
        using b4(2,3) requeue_values [of "[]" None b4] processEnqueue_inv [of b4]
        by (auto simp: b5_def broker_inv_def processEnqueue_enabled split: option.splits)
      have state: "b\<lparr>rt_active := amap_del (ua_NackTimer u) (rt_active b),
          eb_TotalUnacked := eb_TotalUnacked b - 1,
          eb_ByScheduler := amap_put q (st\<lparr>ss_Unacked := ss_Unacked st - 1\<rparr>) (eb_ByScheduler b),
          eb_unack := amap_del x (eb_unack b), eb_evals := amap_del x (eb_evals b),
          eb_jobEvals := (eb_jobEvals b)(ev_JobID ?e := None)\<rparr> = b3"
        unfolding b3_def released_def by (rule eval_broker.equality) simp_all
      have "eb_Ack x token b = Some (None, b5\<lparr>eb_requeue := (eb_requeue b5)(token := None)\<rparr>)"
        using ok Some st b4(1) unfolding eb_Ack_def
        by (simp add: timer_Stop_def Let_def q_def [symmetric] state) (simp add: b5_def)
      with b5 show ?thesis by (simp add: requeue_del_inv)
    qed
  qed
qed


text \<open>\<open>Nack\<close> never panics and keeps the invariant; it is also what an expired Nack timer runs.\<close>

lemma eb_Nack_inv:
  assumes inv: "broker_inv b" and en: "eb_enabled b"
  shows "\<exists>err b'. eb_Nack x token b = Some (err, b') \<and> broker_inv b' \<and> eb_enabled b'"
proof -
  define b0 where "b0 = b\<lparr>eb_requeue := (eb_requeue b)(token := None)\<rparr>"
  have inv0: "broker_inv b0" unfolding b0_def by (rule requeue_del_inv [OF inv])
  have en0: "eb_enabled b0" using en by (simp add: b0_def)
  note mid = inv0 [unfolded broker_inv_def]
  note j = inv_midD(2) [OF mid] and c = inv_midD(5) [OF mid]
  show ?thesis
  proof (cases "map_of (eb_unack b0) x")
    case None
    with inv0 en0 show ?thesis by (simp add: eb_Nack_def b0_def [symmetric])
  next
    case (Some u)
    let ?e = "ua_Eval u"
    obtain st where st: "map_of (eb_ByScheduler b0) (ev_Type ?e) = Some st"
      using inv_countsD(5) [OF c Some] by blast
    have id: "ev_ID ?e = x" and slot: "eb_jobEvals b0 (ev_JobID ?e) = Some x" using inv_jobsD(2,3) [OF j Some] by auto
    define r where "r = released x u (ev_Type ?e) st b0"
    have en_r: "eb_enabled r" using en0 by (simp add: r_def released_def)
    have mid_r: "inv_mid [e] None r" if "ev_ID e = x" "ev_JobID e = ev_JobID ?e" for e
      unfolding r_def by (rule released_inv [OF inv0 Some st that])
    have d: "deliveries r x = amap_get 0 (eb_evals r) x" "eb_jobEvals r (ev_JobID ?e) = Some x"
      "map_of (eb_ByScheduler r) (ev_Type ?e) \<noteq> None"
      using slot by (simp_all add: deliveries_def r_def released_def)
    have run: "eb_Nack x token b = (if ua_Token u \<noteq> token then Some (Some TokenDoesNotMatch, b0)
        else if eb_deliveryLimit r \<le> deliveries r x then Some (None, enqueueLocked ?e failedQueue r)
        else let e' = ?e\<lparr>ev_Wait := nackReenqueueDelay r (deliveries r x)\<rparr>
             in if ev_Wait e' > 0 then Some (None, processWaitingEnqueue e' r)
                else Some (None, enqueueLocked e' (ev_Type e') r))"
    proof -
      have state: "b0\<lparr>rt_active := amap_del (ua_NackTimer u) (rt_active b0), eb_unack := amap_del x (eb_unack b0),
          eb_TotalUnacked := eb_TotalUnacked b0 - 1,
          eb_ByScheduler := amap_put (ev_Type ?e) (st\<lparr>ss_Unacked := ss_Unacked st - 1\<rparr>) (eb_ByScheduler b0)\<rparr> = r"
        by (simp add: r_def released_def)
      show ?thesis unfolding eb_Nack_def b0_def [symmetric]
        using Some st by (simp add: timer_Stop_def state d(1) Let_def)
    qed
    consider (tok) "ua_Token u \<noteq> token" | (failed) "ua_Token u = token" "eb_deliveryLimit r \<le> deliveries r x"
      | (again) "ua_Token u = token" "deliveries r x < eb_deliveryLimit r" by linarith
    then show ?thesis
    proof cases
      case tok
      with run inv0 en0 show ?thesis by simp
    next
      case failed
      have "broker_inv (enqueueLocked ?e failedQueue r)" unfolding broker_inv_def
        using mid_r [OF id refl] en_r failed(2) d id
        by (intro enqueueLocked_inv) (auto simp: may_enqueue_def right_queue_def)
      with run failed en_r show ?thesis by (simp add: enqueueLocked_frame)
    next
      case again
      let ?e' = "?e\<lparr>ev_Wait := nackReenqueueDelay r (deliveries r x)\<rparr>"
      have m: "inv_mid [?e'] None r" using id by (intro mid_r) simp_all
      have "inv_mid [] None (enqueueLocked ?e' (ev_Type ?e') r)"
        using m en_r again(2) id by (intro enqueueLocked_inv) (auto simp: may_enqueue_def right_queue_def)
      moreover have "inv_mid [] None (processWaitingEnqueue ?e' r)"
        using m again(2) id by (intro processWaitingEnqueue_inv) simp_all
      moreover have "eb_enabled (processWaitingEnqueue ?e' r)"
        using en_r by (simp add: processWaitingEnqueue_def AfterFunc_def)
      ultimately show ?thesis
        using run again en_r by (auto simp: broker_inv_def Let_def enqueueLocked_frame)
    qed
  qed
qed

section \<open>Timer resets\<close>

lemma timer_update_inv:
  assumes inv: "broker_inv b" and u: "map_of (eb_unack b) x = Some u"
    and a: "a = amap_del (ua_NackTimer u) (rt_active b) \<or>
      a = amap_put (ua_NackTimer u) (NackCb x (ua_Token u)) (rt_active b)"
  shows "broker_inv (b\<lparr>rt_active := a\<rparr>)"
proof -
  let ?b = "b\<lparr>rt_active := a\<rparr>"
  note mid = inv [unfolded broker_inv_def]
  note k = inv_midD(1) [OF mid] and j = inv_midD(2) [OF mid] and c = inv_midD(5) [OF mid] and t = inv_midD(6) [OF mid]
  have dk: "distinct (map fst (rt_active b))" using k by (simp add: inv_keys_def)
  have da: "distinct (map fst a)" using a dk by auto
  have "wait_ms (mset (map snd a)) = wait_ms (mset (map snd (rt_active b)))"
  proof (cases "map_of (rt_active b) (ua_NackTimer u)")
    case None
    with a show ?thesis by (auto simp: del_None mset_vals_put_new simp del: mset_map)
  next
    case (Some cb)
    with inv_timersD(4) [OF t u] have cb: "cb = NackCb x (ua_Token u)" by blast
    show ?thesis
    proof (cases "a = amap_del (ua_NackTimer u) (rt_active b)")
      case True
      then show ?thesis unfolding mset_vals_del [OF dk Some] cb by simp
    next
      case False
      with a have "a = amap_put (ua_NackTimer u) (NackCb x (ua_Token u)) (rt_active b)" by simp
      with mset_vals_put_old [OF Some, of "NackCb x (ua_Token u)"] cb show ?thesis by simp
    qed
  qed
  then have w: "waiting_ms ?b = waiting_ms b" by (simp add: waiting_ms_eq del: mset_map)
  have loc: "located ?b = located b" unfolding located_def w by simp
  have act: "map_of a h = Some cb \<Longrightarrow> map_of (rt_active b) h = Some cb \<or> h = ua_NackTimer u \<and> cb = NackCb x (ua_Token u)" for h cb
    using a by (auto split: if_splits)
  show ?thesis unfolding broker_inv_def
  proof (rule inv_midI)
    show "inv_keys [] ?b" using k da by (simp add: inv_keys_def loc)
    show "inv_jobs [] None ?b"
      by (rule inv_jobsI, use inv_jobsD [OF j] in \<open>auto simp: holds_slot_def w\<close>)
    show "inv_stats ?b" using inv_midD(4) [OF mid] by (simp add: inv_stats_def w sched_ready_def)
    show "inv_counts ?b"
      by (rule inv_countsI, use inv_countsD [OF c] in \<open>auto simp: w deliveries_def right_queue_def\<close>)
    show "inv_timers ?b"
    proof (rule inv_timersI)
      fix h e assume "map_of (rt_active ?b) h = Some (WaitCb e)"
      then show "map_of (eb_timeWait ?b) (ev_ID e) = Some h" using act [of h "WaitCb e"] inv_timersD(2) [OF t] by auto
    next
      fix y v cb assume v: "map_of (eb_unack ?b) y = Some v" "map_of (rt_active ?b) (ua_NackTimer v) = Some cb"
      then have v': "map_of (eb_unack b) y = Some v" by simp
      from v(2) consider "map_of (rt_active b) (ua_NackTimer v) = Some cb"
        | "ua_NackTimer v = ua_NackTimer u" "cb = NackCb x (ua_Token u)" using act by auto
      then show "cb = NackCb y (ua_Token v)"
      proof cases
        case 1
        then show ?thesis by (rule inv_timersD(4) [OF t v'])
      next
        case 2
        with inv_timersD(5) [OF t u v'] have "y = x" by blast
        with 2 u v' show ?thesis by simp
      qed
    next
      fix h cb assume "map_of (rt_active ?b) h = Some cb"
      then show "h < rt_next ?b" using act [of h cb] inv_timersD(1) [OF t, of h cb] inv_timersD(3) [OF t u] by auto
    qed (use inv_timersD(3,5) [OF t] in auto)
  qed (use inv_midD(3) [OF mid] in \<open>simp add: inv_heaps_def\<close>)
qed

lemma timer_methods_inv:
  assumes "broker_inv b"
  shows "broker_inv (snd (OutstandingReset x token b))" "broker_inv (snd (PauseNackTimeout x token b))"
    "broker_inv (snd (ResumeNackTimeout x token b))"
proof -
  have id: "ev_ID (ua_Eval u) = x" if "map_of (eb_unack b) x = Some u" for u
    using inv_jobsD(2) [OF inv_midD(2) [OF assms [unfolded broker_inv_def]] that] .
  show "broker_inv (snd (OutstandingReset x token b))" "broker_inv (snd (PauseNackTimeout x token b))"
    "broker_inv (snd (ResumeNackTimeout x token b))"
    using assms id timer_update_inv [OF assms]
    by (auto simp: OutstandingReset_def PauseNackTimeout_def ResumeNackTimeout_def timer_Reset_def timer_Stop_def
        Let_def split: option.splits)
qed

end
