(* ===== verification/Eval_Broker_System.thy ===== *)
theory Eval_Broker_System
  imports Eval_Broker_Run
begin

text \<open>
  The broker as a system: callers, timers and leadership changes in any order. A step is one critical
  section, so \<open>SetEnabled(false)\<close> is two, and any other step may come between them. Evaluations, with or
  without a wait time, are enqueued on enabled and on disabled brokers alike, since \<^verbatim>\<open>fsm.go\<close> enqueues on followers.

  What the broker guarantees while it is enabled depends on how it was enabled. \<open>SetEnabled(true)\<close> does not
  clear anything, and a wait timer that was started on the disabled broker, or whose callback was already running when
  \<open>Flush\<close> stopped the others, survives into the new term. A run is orderly if the broker is only ever enabled when it
  is idle: flushed, with no such timer left. Theorem \<open>leftover_wait_duplicates\<close> shows what can happen otherwise.
\<close>

section \<open>Steps\<close>

inductive broker_step :: "eval_broker \<Rightarrow> eval_broker \<Rightarrow> bool" where
  enqueue: "ev_ID e \<noteq> '''' \<Longrightarrow> broker_step b (eb_Enqueue e b)"
| enqueue_all: "list_all (\<lambda>(e, _). ev_ID e \<noteq> '''') evals \<Longrightarrow> broker_step b (EnqueueAll evals b)"
| scan: "scanForSchedulers schedulers token offset b = Some (res, b') \<Longrightarrow> broker_step b b'"
| wait: "broker_step b (waitForSchedulers schedulers b)"
| reset: "broker_step b (snd (OutstandingReset x token b))"
| pause: "broker_step b (snd (PauseNackTimeout x token b))"
| resume: "broker_step b (snd (ResumeNackTimeout x token b))"
| ack: "eb_Ack x token b = Some (err, b') \<Longrightarrow> broker_step b b'"
| nack: "eb_Nack x token b = Some (err, b') \<Longrightarrow> broker_step b b'"
| flag: "broker_step b (set_flag enabled b)"
| flush: "\<not> eb_enabled b \<Longrightarrow> broker_step b (eb_Flush b)"
| timer: "fire h b = Some b' \<Longrightarrow> broker_step b b'"
| callback: "cb \<in> set (rt_fired b) \<Longrightarrow> run_callback cb b = Some b' \<Longrightarrow> broker_step b b'"

text \<open>Nothing is queued, outstanding or waiting for a timer, armed or firing, and the counters are zero.\<close>

definition idle :: "eval_broker \<Rightarrow> bool" where
  "idle b \<longleftrightarrow> eb_ready b = [] \<and> eb_blocked b = [] \<and> eb_unack b = [] \<and> eb_evals b = [] \<and>
     eb_jobEvals b = Map.empty \<and> eb_ByScheduler b = [] \<and> waiting_ms b = {#} \<and>
     eb_TotalReady b = 0 \<and> eb_TotalUnacked b = 0 \<and> eb_TotalBlocked b = 0 \<and> eb_TotalWaiting b = 0"

definition orderly_step :: "eval_broker \<Rightarrow> eval_broker \<Rightarrow> bool" where
  "orderly_step b b' \<longleftrightarrow> broker_step b b' \<and> (\<not> eb_enabled b \<and> eb_enabled b' \<longrightarrow> idle b)"

definition broker_reachable :: "eval_broker \<Rightarrow> bool" where
  "broker_reachable b \<longleftrightarrow> (\<exists>timeout i s limit b0. NewEvalBroker timeout i s limit = Inr b0 \<and> 0 < limit \<and>
     orderly_step\<^sup>*\<^sup>* b0 b)"

section \<open>Enabled and disabled brokers\<close>

text \<open>
  While it is enabled the broker satisfies its invariant; while it is disabled, flushed or not, at
  least the timers and the statistics of what is outstanding are in order.
\<close>

definition books_ok :: "eval_broker \<Rightarrow> bool" where
  "books_ok b \<longleftrightarrow> 0 < eb_deliveryLimit b \<and> distinct (map fst (rt_active b)) \<and>
     (\<forall>h cb. map_of (rt_active b) h = Some cb \<longrightarrow> h < rt_next b) \<and>
     (\<forall>t e. eb_requeue b t = Some e \<longrightarrow> ev_ID e \<noteq> '''')"

definition disabled_inv :: "eval_broker \<Rightarrow> bool" where
  "disabled_inv b \<longleftrightarrow> books_ok b \<and>
     (\<forall>x u. map_of (eb_unack b) x = Some u \<longrightarrow> ua_NackTimer u < rt_next b \<and>
        map_of (eb_ByScheduler b) (ev_Type (ua_Eval u)) \<noteq> None \<and>
        (eb_deliveryLimit b < deliveries b x \<longrightarrow> map_of (eb_ByScheduler b) failedQueue \<noteq> None))"

definition quiet :: "eval_broker \<Rightarrow> bool" where
  "quiet b \<longleftrightarrow> idle b \<and> books_ok b"

lemmas quiet_defs = quiet_def idle_def books_ok_def

definition system_inv :: "eval_broker \<Rightarrow> bool" where
  "system_inv b \<longleftrightarrow> (if eb_enabled b then broker_inv b else disabled_inv b)"

lemma broker_inv_disabled:
  assumes "broker_inv b"
  shows "disabled_inv b"
proof -
  note mid = assms [unfolded broker_inv_def]
  note t = inv_midD(6) [OF mid] and c = inv_midD(5) [OF mid]
  have "books_ok b"
    using inv_midD(1) [OF mid] inv_timersD(1) [OF t] inv_countsD(1) [OF c] requeue_values [OF mid]
    by (auto simp: books_ok_def inv_keys_def)
  moreover have "ua_NackTimer u < rt_next b" if "map_of (eb_unack b) x = Some u" for x u
    using t that by (auto simp: inv_timers_def)
  ultimately show ?thesis using inv_countsD(5,6) [OF c] by (auto simp: disabled_inv_def)
qed

lemma quiet_inv:
  assumes "quiet b"
  shows "broker_inv b"
proof -
  have no_wait: "map_of (rt_active b) h \<noteq> Some (WaitCb e)" for h e
    using assms waiting_active [of b h e] by (auto simp: quiet_defs)
  show ?thesis unfolding broker_inv_def
  proof (rule inv_midI)
    show "inv_timers b" using assms no_wait by (intro inv_timersI) (auto simp: quiet_defs)
    show "inv_jobs [] None b" using assms by (intro inv_jobsI) (auto simp: quiet_defs)
    show "inv_counts b" using assms by (intro inv_countsI) (auto simp: quiet_defs)
  qed (use assms in \<open>auto simp: quiet_defs inv_keys_def inv_heaps_def inv_stats_def located_def sched_ready_def\<close>)
qed

lemma waiting_field_inv:
  assumes "inv_mid fl fr b"
  shows "inv_mid fl fr (b\<lparr>eb_waiting := w\<rparr>)"
proof -
  let ?b = "b\<lparr>eb_waiting := w\<rparr>"
  have eqs: "waiting_ms ?b = waiting_ms b" "located ?b = located b"
    "holds_slot fl ?b j x \<longleftrightarrow> holds_slot fl b j x" "deliveries ?b x = deliveries b x"
    "right_queue ?b q e \<longleftrightarrow> right_queue b q e" "sched_ready ?b q = sched_ready b q" for j x q e
    by (simp_all add: waiting_ms_def located_def holds_slot_def deliveries_def right_queue_def sched_ready_def)
  have "inv_keys fl ?b = inv_keys fl b" by (simp add: inv_keys_def eqs)
  moreover have "inv_jobs fl fr ?b = inv_jobs fl fr b" by (simp add: inv_jobs_def eqs)
  moreover have "inv_heaps ?b = inv_heaps b" by (simp add: inv_heaps_def)
  moreover have "inv_stats ?b = inv_stats b" by (simp add: inv_stats_def eqs)
  moreover have "inv_counts ?b = inv_counts b" by (simp add: inv_counts_def eqs)
  moreover have "inv_timers ?b = inv_timers b" by (simp add: inv_timers_def)
  ultimately show ?thesis using assms by (simp add: inv_mid_def)
qed

lemma waitForSchedulers_inv:
  "system_inv b \<Longrightarrow> system_inv (waitForSchedulers schedulers b)"
proof -
  have "system_inv (b\<lparr>eb_waiting := w\<rparr>)" if "system_inv b" for b w
    using that waiting_field_inv [of "[]" None b w]
    by (simp add: system_inv_def broker_inv_def disabled_inv_def books_ok_def deliveries_def split: if_splits)
  then have "system_inv b \<Longrightarrow> system_inv (fold (\<lambda>sched b. if map_of (eb_waiting b) sched = None
      then b\<lparr>eb_waiting := amap_put sched False (eb_waiting b)\<rparr> else b) schedulers b)"
    by (induction schedulers arbitrary: b) auto
  then show "system_inv b \<Longrightarrow> system_inv (waitForSchedulers schedulers b)"
    by (simp add: waitForSchedulers_def)
qed

section \<open>Flushing\<close>

lemma fold_stop:
  "fold (\<lambda>h b. snd (timer_Stop h b)) hs b = b\<lparr>rt_active := filter (\<lambda>(h, _). h \<notin> set hs) (rt_active b)\<rparr>"
proof (induction hs arbitrary: b)
  case (Cons h hs)
  have "filter (\<lambda>(i, _). i \<notin> set hs) (amap_del h m) = filter (\<lambda>(i, _). i \<notin> set (h # hs)) m" for m :: "(nat \<times> callback) list"
    by (induction m) auto
  with Cons show ?case by (simp add: timer_Stop_def)
qed simp

lemma eb_Flush_eq:
  "eb_Flush b = b\<lparr>eb_waiting := [],
     rt_active := filter (\<lambda>(h, _). h \<notin> set (map (ua_NackTimer \<circ> snd) (eb_unack b) @ map snd (eb_timeWait b))) (rt_active b),
     eb_TotalReady := 0, eb_TotalUnacked := 0, eb_TotalBlocked := 0, eb_TotalWaiting := 0,
     eb_ByScheduler := [], eb_evals := [], eb_jobEvals := Map.empty, eb_blocked := [],
     eb_ready := [], eb_unack := [], eb_timeWait := []\<rparr>"
proof -
  have 1: "fold (\<lambda>(_, unack) b. snd (timer_Stop (ua_NackTimer unack) b)) us b =
      fold (\<lambda>h b. snd (timer_Stop h b)) (map (ua_NackTimer \<circ> snd) us) b" for us :: "(string \<times> unack_eval) list" and b
    by (induction us arbitrary: b) auto
  have 2: "fold (\<lambda>(_, wait) b. snd (timer_Stop wait b)) ws b = fold (\<lambda>h b. snd (timer_Stop h b)) (map snd ws) b"
    for ws :: "(string \<times> nat) list" and b
    by (induction ws arbitrary: b) auto
  show ?thesis unfolding eb_Flush_def Let_def 1 2 fold_stop
    by (rule eval_broker.equality) (auto intro: filter_cong)
qed

lemma flush_disabled:
  assumes "disabled_inv b"
  shows "disabled_inv (eb_Flush b)"
proof -
  have b: "books_ok b" using assms by (simp add: disabled_inv_def)
  have "h < rt_next b" if "map_of (filter P (rt_active b)) h = Some cb" for P h cb
  proof -
    have "(h, cb) \<in> set (rt_active b)" using map_of_SomeD [OF that] by simp
    then have "map_of (rt_active b) h = Some cb" using b by (simp add: books_ok_def)
    then show ?thesis using b unfolding books_ok_def by blast
  qed
  then show ?thesis using b
    by (simp add: disabled_inv_def books_ok_def eb_Flush_eq distinct_map_filter)
qed

section \<open>The invariant holds in every reachable state\<close>

lemma enqueueLocked_disabled: "\<not> eb_enabled b \<Longrightarrow> enqueueLocked e q b = b"
  by (simp add: enqueueLocked_def)

lemma processWaitingEnqueue_disabled:
  assumes "disabled_inv b"
  shows "disabled_inv (processWaitingEnqueue e b)"
  using assms by (auto simp: processWaitingEnqueue_def AfterFunc_def disabled_inv_def books_ok_def deliveries_def
      less_Suc_eq split: if_splits)

lemma processEnqueue_disabled:
  assumes "disabled_inv b" "\<not> eb_enabled b" "ev_ID e \<noteq> ''''"
  shows "disabled_inv (processEnqueue e token b)"
proof -
  have "disabled_inv (b\<lparr>eb_requeue := (eb_requeue b)(token \<mapsto> e)\<rparr>)"
    using assms by (auto simp: disabled_inv_def books_ok_def deliveries_def split: if_splits)
  then show ?thesis
    using assms processWaitingEnqueue_disabled [OF assms(1)]
    by (simp add: processEnqueue_def enqueueLocked_disabled split: option.split)
qed

lemma processEnqueue_system:
  assumes "system_inv b" "ev_ID e \<noteq> ''''"
  shows "system_inv (processEnqueue e token b) \<and> eb_enabled (processEnqueue e token b) = eb_enabled b"
  using assms processEnqueue_inv [of b e token] processEnqueue_disabled [of b e token]
  by (simp add: system_inv_def processEnqueue_enabled)

lemma EnqueueAll_system:
  assumes "system_inv b" "list_all (\<lambda>(e, _). ev_ID e \<noteq> '''') evals"
  shows "system_inv (EnqueueAll evals b) \<and> eb_enabled (EnqueueAll evals b) = eb_enabled b"
  using assms
proof (induction evals arbitrary: b)
  case (Cons p evals)
  obtain e token where p: "p = (e, token)" by fastforce
  from Cons.prems p have "system_inv (processEnqueue e token b)" "eb_enabled (processEnqueue e token b) = eb_enabled b"
    using processEnqueue_system [of b e token] by auto
  with Cons.IH [of "processEnqueue e token b"] Cons.prems p show ?case by (simp add: EnqueueAll_def)
qed (simp add: EnqueueAll_def)

text \<open>The eligible schedulers of a scan have work.\<close>

lemma scan_eligible:
  assumes "\<forall>q \<in> set (fst acc). amap_get [] (eb_ready b) q \<noteq> [] \<and> (q \<in> set qs \<or> q \<in> A)"
  shows "\<forall>q \<in> set (fst (fold (scan_one b) qs acc)). amap_get [] (eb_ready b) q \<noteq> [] \<and> (q \<in> set qs \<or> q \<in> A)"
  using assms
proof (induction qs arbitrary: acc A)
  case (Cons q qs)
  have "\<forall>p \<in> set (fst (scan_one b q acc)). amap_get [] (eb_ready b) p \<noteq> [] \<and> (p \<in> set qs \<or> p \<in> insert q A)"
    using Cons.prems
    by (auto simp: scan_one_def Peek_def amap_get_Some split: prod.splits option.splits if_splits)
  from Cons.IH [OF this] show ?case by auto
qed simp

lemma scan_cases:
  assumes inv: "broker_inv b" and en: "eb_enabled b"
  obtains (none) "scanForSchedulers schedulers token offset b = Some (Inr None, b)"
  | (got) q e pending st where "q \<in> set schedulers"
      "heap_pop Less (amap_get [] (eb_ready b) q) = Some (e, pending)" "map_of (eb_ByScheduler b) q = Some st"
      "scanForSchedulers schedulers token offset b =
         Some (Inr (Some (e, token)), delivered q e pending token st b)"
proof -
  obtain el pr where f: "fold (scan_one b) schedulers ([], 0) = (el, pr)" by fastforce
  have el: "\<forall>q \<in> set el. amap_get [] (eb_ready b) q \<noteq> [] \<and> q \<in> set schedulers"
    using scan_eligible [of "([], 0)" b schedulers "{}"] f by simp
  show ?thesis
  proof (cases "el = []")
    case True
    with f en show ?thesis by (intro none) (simp add: scanForSchedulers_def)
  next
    case False
    define q where "q = el ! (if length el = 1 then 0 else offset mod length el)"
    have "q \<in> set el" using False by (simp add: q_def)
    with el have ne: "amap_get [] (eb_ready b) q \<noteq> []" and mem: "q \<in> set schedulers" by auto
    from ne obtain e pending where pop: "heap_pop Less (amap_get [] (eb_ready b) q) = Some (e, pending)"
      using rq.heap_pop_None [of "amap_get [] (eb_ready b) q"] by fastforce
    have "map_of (eb_ready b) q \<noteq> None" using ne amap_get_None [of "eb_ready b" q "[]"] by blast
    then obtain st where st: "map_of (eb_ByScheduler b) q = Some st"
      using inv by (auto simp: broker_inv_def inv_mid_def inv_stats_def)
    show ?thesis
      by (rule got [OF mem pop st])
        (use f en False pop st in \<open>simp add: scanForSchedulers_def dequeueForSched_eq q_def\<close>)
  qed
qed

lemma scan_system:
  assumes "system_inv b"
  shows "\<exists>res b'. scanForSchedulers schedulers token offset b = Some (res, b') \<and> system_inv b' \<and> eb_enabled b' = eb_enabled b"
proof (cases "eb_enabled b")
  case True
  from assms True have inv: "broker_inv b" by (simp add: system_inv_def)
  show ?thesis
  proof (cases rule: scan_cases [OF inv True, of schedulers token offset, case_names none got])
    case none
    with assms show ?thesis by simp
  next
    case (got q e pending st)
    with delivered_inv [OF inv got(2,3), of token] True show ?thesis
      by (simp add: system_inv_def) (simp add: delivered_def)
  qed
next
  case False
  with assms show ?thesis by (simp add: scanForSchedulers_def)
qed

lemma disabled_requeue: "disabled_inv b \<Longrightarrow> disabled_inv (b\<lparr>eb_requeue := (eb_requeue b)(t := None)\<rparr>)"
  by (auto simp: disabled_inv_def books_ok_def deliveries_def split: if_splits)

text \<open>What is outstanding may be dropped, with its timer; the statistics keep their entries.\<close>

lemma disabled_drop:
  assumes "disabled_inv b" "map_of (eb_ByScheduler b) q = Some st0"
  shows "disabled_inv (b\<lparr>rt_active := amap_del h (rt_active b), eb_TotalUnacked := n,
      eb_ByScheduler := amap_put q st (eb_ByScheduler b), eb_unack := amap_del x (eb_unack b)\<rparr>)"
    "disabled_inv (b\<lparr>rt_active := amap_del h (rt_active b), eb_TotalUnacked := n,
      eb_ByScheduler := amap_put q st (eb_ByScheduler b), eb_unack := amap_del x (eb_unack b),
      eb_evals := amap_del x (eb_evals b), eb_jobEvals := js\<rparr>)"
  using assms by (auto simp: disabled_inv_def books_ok_def deliveries_def go_get_def split: if_splits)

lemma unblock_next_disabled:
  assumes "disabled_inv b" "\<not> eb_enabled b"
  shows "\<exists>b'. unblock_next j b = Some b' \<and> disabled_inv b' \<and> \<not> eb_enabled b'"
proof (cases "amap_get [] (eb_blocked b) j = []")
  case False
  then obtain e rest where "heap_pop Less (amap_get [] (eb_blocked b) j) = Some (e, rest)"
    using rq.heap_pop_None [of "amap_get [] (eb_blocked b) j"] by fastforce
  with False assms show ?thesis
    by (simp add: unblock_next_def Let_def enqueueLocked_disabled disabled_inv_def books_ok_def deliveries_def)
qed (use assms in \<open>simp add: unblock_next_def\<close>)

lemma eb_Ack_disabled:
  assumes inv: "disabled_inv b" and en: "\<not> eb_enabled b"
  shows "\<exists>err b'. eb_Ack x token b = Some (err, b') \<and> disabled_inv b' \<and> \<not> eb_enabled b'"
proof (cases "map_of (eb_unack b) x")
  case None
  with inv en show ?thesis by (simp add: eb_Ack_def disabled_requeue)
next
  case (Some u)
  consider (tok) "ua_Token u \<noteq> token" | (late) "ua_Token u = token" "map_of (rt_active b) (ua_NackTimer u) = None"
    | (ok) "ua_Token u = token" "map_of (rt_active b) (ua_NackTimer u) \<noteq> None" by blast
  then show ?thesis
  proof cases
    case tok
    with Some inv en show ?thesis by (simp add: eb_Ack_def disabled_requeue)
  next
    case late
    then have "b\<lparr>rt_active := amap_del (ua_NackTimer u) (rt_active b)\<rparr> = b" by (simp add: del_None)
    with late Some inv en show ?thesis by (simp add: eb_Ack_def timer_Stop_def disabled_requeue)
  next
    case ok
    define q where "q = (if amap_get 0 (eb_evals b) x > eb_deliveryLimit b then failedQueue else ev_Type (ua_Eval u))"
    obtain st where st: "map_of (eb_ByScheduler b) q = Some st"
      using inv Some unfolding q_def disabled_inv_def deliveries_def by fastforce
    define b3 where "b3 = b\<lparr>rt_active := amap_del (ua_NackTimer u) (rt_active b), eb_TotalUnacked := eb_TotalUnacked b - 1,
      eb_ByScheduler := amap_put q (st\<lparr>ss_Unacked := ss_Unacked st - 1\<rparr>) (eb_ByScheduler b), eb_unack := amap_del x (eb_unack b),
      eb_evals := amap_del x (eb_evals b), eb_jobEvals := (eb_jobEvals b)(ev_JobID (ua_Eval u) := None)\<rparr>"
    have b3: "disabled_inv b3" "\<not> eb_enabled b3" using disabled_drop(2) [OF inv st] en by (simp_all add: b3_def)
    obtain b4 where b4: "unblock_next (ev_JobID (ua_Eval u)) b3 = Some b4" "disabled_inv b4" "\<not> eb_enabled b4"
      using unblock_next_disabled [OF b3] by blast
    define b5 where "b5 = (case eb_requeue b4 token of None \<Rightarrow> b4 | Some ev \<Rightarrow> processEnqueue ev '''' b4)"
    have "ev_ID ev \<noteq> ''''" if "eb_requeue b4 token = Some ev" for ev
      using b4(2) that by (auto simp: disabled_inv_def books_ok_def)
    then have b5: "disabled_inv b5" "\<not> eb_enabled b5"
      using b4(2,3) processEnqueue_disabled by (auto simp: b5_def processEnqueue_enabled split: option.splits)
    have "eb_Ack x token b = Some (None, b5\<lparr>eb_requeue := (eb_requeue b5)(token := None)\<rparr>)"
      using ok Some st b4(1) unfolding eb_Ack_def
      by (simp add: timer_Stop_def Let_def q_def [symmetric] b3_def [symmetric]) (simp add: b5_def)
    with b5 show ?thesis by (simp add: disabled_requeue)
  qed
qed

lemma eb_Nack_disabled:
  assumes "disabled_inv b" and en: "\<not> eb_enabled b"
  shows "\<exists>err b'. eb_Nack x token b = Some (err, b') \<and> disabled_inv b' \<and> \<not> eb_enabled b'"
proof -
  define b0 where "b0 = b\<lparr>eb_requeue := (eb_requeue b)(token := None)\<rparr>"
  have inv: "disabled_inv b0" "\<not> eb_enabled b0" using disabled_requeue [OF assms(1)] en by (simp_all add: b0_def)
  show ?thesis
  proof (cases "\<exists>u. map_of (eb_unack b0) x = Some u \<and> ua_Token u = token")
    case False
    with inv show ?thesis by (auto simp: eb_Nack_def b0_def [symmetric] split: option.splits)
  next
    case True
    then obtain u where u: "map_of (eb_unack b0) x = Some u" "ua_Token u = token" by blast
    obtain st where st: "map_of (eb_ByScheduler b0) (ev_Type (ua_Eval u)) = Some st"
      using inv(1) u(1) by (auto simp: disabled_inv_def)
    define r where "r = b0\<lparr>rt_active := amap_del (ua_NackTimer u) (rt_active b0), eb_TotalUnacked := eb_TotalUnacked b0 - 1,
      eb_ByScheduler := amap_put (ev_Type (ua_Eval u)) (st\<lparr>ss_Unacked := ss_Unacked st - 1\<rparr>) (eb_ByScheduler b0),
      eb_unack := amap_del x (eb_unack b0)\<rparr>"
    have r: "disabled_inv r" "\<not> eb_enabled r" using disabled_drop(1) [OF inv(1) st] inv(2) by (simp_all add: r_def)
    have pw: "\<not> eb_enabled (processWaitingEnqueue e r)" for e
      using r(2) by (simp add: processWaitingEnqueue_def AfterFunc_def)
    have state: "b0\<lparr>rt_active := amap_del (ua_NackTimer u) (rt_active b0), eb_unack := amap_del x (eb_unack b0),
        eb_TotalUnacked := eb_TotalUnacked b0 - 1,
        eb_ByScheduler := amap_put (ev_Type (ua_Eval u)) (st\<lparr>ss_Unacked := ss_Unacked st - 1\<rparr>) (eb_ByScheduler b0)\<rparr> = r"
      by (simp add: r_def)
    show ?thesis unfolding eb_Nack_def b0_def [symmetric]
      using u st r pw processWaitingEnqueue_disabled [OF r(1)]
      by (simp add: timer_Stop_def state Let_def enqueueLocked_disabled [OF r(2)])
  qed
qed

lemma ack_system:
  assumes "system_inv b"
  shows "\<exists>err b'. eb_Ack x token b = Some (err, b') \<and> system_inv b' \<and> eb_enabled b' = eb_enabled b"
    and "\<exists>err b'. eb_Nack x token b = Some (err, b') \<and> system_inv b' \<and> eb_enabled b' = eb_enabled b"
  using assms eb_Ack_inv [of b x token] eb_Nack_inv [of b x token] eb_Ack_disabled [of b x token] eb_Nack_disabled [of b x token]
  by (auto simp: system_inv_def)

lemma fire_system:
  assumes "system_inv b" "fire h b = Some b'"
  shows "system_inv b'"
proof -
  have "disabled_inv b'" if "disabled_inv b"
    using assms(2) that by (auto simp: fire_def disabled_inv_def books_ok_def deliveries_def split: if_splits) blast
  then show ?thesis using assms fire_inv [of b h b'] by (auto simp: system_inv_def fire_def split: if_splits)
qed

lemma fired_nack_system:
  assumes "system_inv b"
  shows "system_inv (b\<lparr>rt_fired := remove1 (NackCb x t) (rt_fired b)\<rparr>)"
proof -
  let ?b = "b\<lparr>rt_fired := remove1 (NackCb x t) (rt_fired b)\<rparr>"
  have "wait_ms (mset (remove1 (NackCb x t) fs)) = wait_ms (mset fs)" for fs
  proof (cases "NackCb x t \<in> set fs")
    case True
    then have "mset fs = add_mset (NackCb x t) (mset (remove1 (NackCb x t) fs))" by simp
    from arg_cong [OF this, of wait_ms] show ?thesis by (simp only: wait_ms_simps)
  qed (simp add: remove1_idem)
  then have w: "waiting_ms ?b = waiting_ms b" by (simp add: waiting_ms_eq)
  have eqs: "located ?b = located b" "holds_slot fl ?b j y \<longleftrightarrow> holds_slot fl b j y" "deliveries ?b y = deliveries b y"
    "right_queue ?b q e \<longleftrightarrow> right_queue b q e" "sched_ready ?b q = sched_ready b q" for fl j y q e
    by (simp_all add: located_def holds_slot_def deliveries_def right_queue_def sched_ready_def w)
  have "broker_inv ?b = broker_inv b"
    unfolding broker_inv_def inv_mid_def inv_defs by (simp add: eqs w)
  moreover have "disabled_inv ?b = disabled_inv b" by (simp add: disabled_inv_def books_ok_def eqs)
  ultimately show ?thesis using assms by (simp add: system_inv_def)
qed

lemma callback_system:
  assumes inv: "system_inv b" and cb: "cb \<in> set (rt_fired b)"
  shows "\<exists>b'. run_callback cb b = Some b' \<and> system_inv b' \<and> eb_enabled b' = eb_enabled b"
proof (cases cb)
  case (NackCb x t)
  from ack_system(2) [OF fired_nack_system [OF inv], of x t x t] NackCb show ?thesis
    by (auto simp: run_callback_def)
next
  case (WaitCb e)
  show ?thesis
  proof (cases "eb_enabled b")
    case True
    with inv cb WaitCb enqueueWaiting_inv [of b e] show ?thesis
      by (auto simp: run_callback_def system_inv_def enqueueWaiting_def enqueueLocked_frame)
  next
    case False
    with inv WaitCb show ?thesis
      by (simp add: run_callback_def system_inv_def enqueueWaiting_def enqueueLocked_disabled disabled_inv_def
          books_ok_def deliveries_def)
  qed
qed

lemma timer_methods_system:
  assumes "system_inv b"
  shows "system_inv (snd (OutstandingReset x token b))" "system_inv (snd (PauseNackTimeout x token b))"
    "system_inv (snd (ResumeNackTimeout x token b))"
proof -
  have en: "eb_enabled (snd (OutstandingReset x token b)) = eb_enabled b"
    "eb_enabled (snd (PauseNackTimeout x token b)) = eb_enabled b"
    "eb_enabled (snd (ResumeNackTimeout x token b)) = eb_enabled b"
    by (auto simp: OutstandingReset_def PauseNackTimeout_def ResumeNackTimeout_def timer_Reset_def timer_Stop_def
        Let_def split: option.splits)
  have "disabled_inv (snd (timer_Reset h cb b))" if "disabled_inv b" "h < rt_next b" for h cb
    using that by (auto simp: timer_Reset_def disabled_inv_def books_ok_def deliveries_def split: if_splits)
  moreover have "disabled_inv (snd (timer_Stop h b))" if "disabled_inv b" for h
    using that by (auto simp: timer_Stop_def disabled_inv_def books_ok_def deliveries_def split: if_splits)
  moreover have "ua_NackTimer u < rt_next b" if "disabled_inv b" "map_of (eb_unack b) x = Some u" for u
    using that by (auto simp: disabled_inv_def)
  ultimately have "disabled_inv (snd (OutstandingReset x token b))" "disabled_inv (snd (PauseNackTimeout x token b))"
    "disabled_inv (snd (ResumeNackTimeout x token b))" if "disabled_inv b"
    using that by (auto simp: OutstandingReset_def PauseNackTimeout_def ResumeNackTimeout_def Let_def
        split: option.splits prod.splits) (metis snd_conv)+
  then show "system_inv (snd (OutstandingReset x token b))" "system_inv (snd (PauseNackTimeout x token b))"
    "system_inv (snd (ResumeNackTimeout x token b))"
    using assms timer_methods_inv [of b x token] en by (auto simp: system_inv_def)
qed

lemma flag_inv: "broker_inv (set_flag v b) = broker_inv b" "disabled_inv (set_flag v b) = disabled_inv b"
proof -
  let ?b = "set_flag v b"
  have eqs: "waiting_ms ?b = waiting_ms b" "located ?b = located b" "holds_slot fl ?b j y \<longleftrightarrow> holds_slot fl b j y"
    "deliveries ?b y = deliveries b y" "right_queue ?b q e \<longleftrightarrow> right_queue b q e"
    "sched_ready ?b q = sched_ready b q" for fl j y q e
    by (simp_all add: set_flag_def waiting_ms_def located_def holds_slot_def deliveries_def right_queue_def sched_ready_def)
  show "broker_inv ?b = broker_inv b" unfolding broker_inv_def inv_mid_def inv_defs eqs by (simp add: set_flag_def)
  show "disabled_inv ?b = disabled_inv b" unfolding disabled_inv_def books_ok_def eqs by (simp add: set_flag_def)
qed

lemma step_inv:
  assumes "broker_step b b'" "\<not> eb_enabled b \<Longrightarrow> eb_enabled b' \<Longrightarrow> idle b" "system_inv b"
  shows "system_inv b'"
  using assms
proof (induction rule: broker_step.induct)
  case (enqueue e b)
  then show ?case using processEnqueue_system by (auto simp: eb_Enqueue_def)
next
  case (enqueue_all evals b)
  then show ?case using EnqueueAll_system by blast
next
  case (scan schedulers token offset b res b')
  then show ?case using scan_system [of b schedulers token offset] by auto
next
  case (ack x token b err b')
  then show ?case using ack_system(1) [of b x token] by auto
next
  case (nack x token b err b')
  then show ?case using ack_system(2) [of b x token] by auto
next
  case (flag b v)
  have "broker_inv b" if "v" "\<not> eb_enabled b"
    using flag that by (intro quiet_inv) (simp add: quiet_def system_inv_def disabled_inv_def set_flag_def)
  with flag(2) broker_inv_disabled [of b] show ?case
    by (auto simp: system_inv_def flag_inv) (simp_all add: set_flag_def split: if_splits)
next
  case (flush b)
  then show ?case using flush_disabled [of b] by (simp add: system_inv_def) (simp add: eb_Flush_eq)
next
  case (callback cb b b')
  then show ?case using callback_system [of b cb] by auto
qed (auto intro: waitForSchedulers_inv timer_methods_system fire_system)

lemma reachable_inv: "broker_reachable b \<Longrightarrow> system_inv b"
proof -
  assume "broker_reachable b"
  then obtain timeout i s limit b0 where b0: "NewEvalBroker timeout i s limit = Inr b0" "0 < limit"
    and run: "orderly_step\<^sup>*\<^sup>* b0 b" by (auto simp: broker_reachable_def)
  have "disabled_inv b0" "\<not> eb_enabled b0" using b0 by (auto simp: NewEvalBroker_def disabled_inv_def books_ok_def split: if_splits)
  then have "system_inv b0" by (simp add: system_inv_def)
  with run show "system_inv b" by (induction rule: rtranclp_induct) (auto simp: orderly_step_def intro: step_inv)
qed

lemma enabled_inv: "broker_reachable b \<Longrightarrow> eb_enabled b \<Longrightarrow> broker_inv b"
  using reachable_inv [of b] by (simp add: system_inv_def)

section \<open>Unacknowledged evaluations per scheduler\<close>

text \<open>The counts per scheduler add up to the total in every run, orderly or not.\<close>

definition unacked_sum :: "eval_broker \<Rightarrow> bool" where
  "unacked_sum b \<longleftrightarrow> sum_list (map (ss_Unacked \<circ> snd) (eb_ByScheduler b)) = eb_TotalUnacked b"

lemma sum_put:
  fixes f :: "'v \<Rightarrow> int"
  shows "sum_list (map (f \<circ> snd) (AList.update k w m)) =
    sum_list (map (f \<circ> snd) m) + f w - (case map_of m k of None \<Rightarrow> 0 | Some v \<Rightarrow> f v)"
  by (induction m) auto

lemma enqueueLocked_unacked: "unacked_sum (enqueueLocked e q b) = unacked_sum b"
  by (simp add: enqueueLocked_def notify_def unacked_sum_def Let_def sum_put split: option.split)

lemma processWaitingEnqueue_unacked: "unacked_sum (processWaitingEnqueue e b) = unacked_sum b"
  by (simp add: processWaitingEnqueue_def AfterFunc_def unacked_sum_def)

lemma processEnqueue_unacked: "unacked_sum (processEnqueue e token b) = unacked_sum b"
proof -
  have "unacked_sum (b\<lparr>eb_evals := es\<rparr>) = unacked_sum b" "unacked_sum (b\<lparr>eb_requeue := rq\<rparr>) = unacked_sum b" for es rq
    by (simp_all add: unacked_sum_def)
  then show ?thesis
    by (simp add: processEnqueue_def Let_def enqueueLocked_unacked processWaitingEnqueue_unacked split: option.split)
qed

lemma EnqueueAll_unacked: "unacked_sum (EnqueueAll evals b) = unacked_sum b"
  unfolding EnqueueAll_def
  by (induction evals arbitrary: b) (simp_all add: processEnqueue_unacked split: prod.split)

lemma dequeueForSched_unacked:
  "dequeueForSched sched token b = Some (e, t, b') \<Longrightarrow> unacked_sum b \<Longrightarrow> unacked_sum b'"
  by (auto simp: dequeueForSched_def AfterFunc_def unacked_sum_def Let_def sum_put bind_eq_Some_conv split: option.splits)

lemma unblock_next_unacked: "unblock_next j b = Some b' \<Longrightarrow> unacked_sum b \<Longrightarrow> unacked_sum b'"
proof -
  have "unacked_sum (b\<lparr>eb_blocked := bl, eb_TotalBlocked := n\<rparr>) = unacked_sum b" for bl n by (simp add: unacked_sum_def)
  then show "unblock_next j b = Some b' \<Longrightarrow> unacked_sum b \<Longrightarrow> unacked_sum b'"
    by (auto simp: unblock_next_def Let_def enqueueLocked_unacked split: if_splits option.splits)
qed

lemma forget_unacked: "unacked_sum (b\<lparr>eb_requeue := rq\<rparr>) = unacked_sum b"
  by (simp add: unacked_sum_def)

lemma timers_unacked: "unacked_sum (b\<lparr>rt_active := ts\<rparr>) = unacked_sum b"
  by (simp add: unacked_sum_def)

lemma eb_Ack_unacked:
  assumes "eb_Ack x token b = Some (err, b')" "unacked_sum b"
  shows "unacked_sum b'"
proof -
  have drop: "unacked_sum (b\<lparr>rt_active := ts, eb_TotalUnacked := eb_TotalUnacked b - 1,
      eb_ByScheduler := amap_put q (st\<lparr>ss_Unacked := ss_Unacked st - 1\<rparr>) (eb_ByScheduler b),
      eb_unack := un, eb_evals := es, eb_jobEvals := js\<rparr>)" if "map_of (eb_ByScheduler b) q = Some st" for ts q st un es js
    using assms(2) that by (simp add: unacked_sum_def sum_put)
  from assms(1) show ?thesis using assms(2)
    by (auto simp: eb_Ack_def timer_Stop_def Let_def forget_unacked timers_unacked processEnqueue_unacked bind_eq_Some_conv
        split: option.splits if_splits) (blast intro: unblock_next_unacked [OF _ drop])+
qed

lemma eb_Nack_unacked:
  assumes "eb_Nack x token b = Some (err, b')" "unacked_sum b"
  shows "unacked_sum b'"
proof -
  have drop: "unacked_sum (b\<lparr>eb_requeue := rq, rt_active := ts, eb_unack := un, eb_TotalUnacked := eb_TotalUnacked b - 1,
      eb_ByScheduler := amap_put q (st\<lparr>ss_Unacked := ss_Unacked st - 1\<rparr>) (eb_ByScheduler b)\<rparr>)"
    if "map_of (eb_ByScheduler b) q = Some st" for rq ts q st un
    using assms(2) that by (simp add: unacked_sum_def sum_put)
  with assms show ?thesis
    by (auto simp: eb_Nack_def timer_Stop_def Let_def forget_unacked enqueueLocked_unacked processWaitingEnqueue_unacked
        split: option.splits if_splits)
qed

lemma waitForSchedulers_unacked: "unacked_sum (waitForSchedulers schedulers b) = unacked_sum b"
proof -
  have "unacked_sum (fold (\<lambda>sched b. if map_of (eb_waiting b) sched = None
      then b\<lparr>eb_waiting := amap_put sched False (eb_waiting b)\<rparr> else b) schedulers b) = unacked_sum b"
    by (induction schedulers arbitrary: b) (simp_all add: unacked_sum_def)
  then show ?thesis by (simp add: waitForSchedulers_def)
qed

lemma step_unacked: "broker_step b b' \<Longrightarrow> unacked_sum b \<Longrightarrow> unacked_sum b'"
proof (induction rule: broker_step.induct)
  case (scan schedulers token offset b res b')
  then show ?case
    using dequeueForSched_unacked by (auto simp: scanForSchedulers_def Let_def split: if_splits prod.splits)
next
  case (callback cb b b')
  have "unacked_sum (b\<lparr>rt_fired := fs\<rparr>) = unacked_sum b" "unacked_sum (b\<lparr>rt_fired := fs, eb_timeWait := tw, eb_TotalWaiting := n\<rparr>) = unacked_sum b" for fs tw n
    by (simp_all add: unacked_sum_def)
  with callback show ?case
    using eb_Nack_unacked by (auto simp: run_callback_def enqueueWaiting_def enqueueLocked_unacked Let_def split: callback.splits)
next
  case (flag b enabled)
  then show ?case by (simp add: unacked_sum_def set_flag_def)
next
  case (flush b)
  then show ?case by (simp add: unacked_sum_def eb_Flush_def Let_def)
next
  case (timer h b b')
  then show ?case by (auto simp: unacked_sum_def fire_def split: option.splits)
qed (auto simp: eb_Enqueue_def processEnqueue_unacked EnqueueAll_unacked waitForSchedulers_unacked timers_unacked
    OutstandingReset_def PauseNackTimeout_def ResumeNackTimeout_def timer_Reset_def timer_Stop_def Let_def
    intro: eb_Ack_unacked eb_Nack_unacked split: option.splits)

lemma reachable_unacked: "broker_reachable b \<Longrightarrow> unacked_sum b"
proof -
  assume "broker_reachable b"
  then obtain timeout i s limit b0 where b0: "NewEvalBroker timeout i s limit = Inr b0"
    and run: "orderly_step\<^sup>*\<^sup>* b0 b" by (auto simp: broker_reachable_def)
  have "unacked_sum b0" using b0 by (auto simp: NewEvalBroker_def unacked_sum_def split: if_splits)
  with run show "unacked_sum b" by (induction rule: rtranclp_induct) (auto simp: orderly_step_def intro: step_unacked)
qed

section \<open>Consequences\<close>

text \<open>The evaluations a scheduler may hold or be given: ready or unacknowledged.\<close>

definition active_ms :: "eval_broker \<Rightarrow> evaluation multiset" where
  "active_ms b = contents (eb_ready b) + mset (map (ua_Eval \<circ> snd) (eb_unack b))"

lemma unack_ids:
  assumes "inv_jobs fl fr b" "distinct (map fst (eb_unack b))"
  shows "map (ev_ID \<circ> (ua_Eval \<circ> snd)) (eb_unack b) = map fst (eb_unack b)"
proof (rule map_cong [OF refl])
  fix p assume "p \<in> set (eb_unack b)"
  then have "map_of (eb_unack b) (fst p) = Some (snd p)" using assms(2) by (simp add: map_of_is_SomeI)
  from inv_jobsD(2) [OF assms(1) this] show "(ev_ID \<circ> (ua_Eval \<circ> snd)) p = fst p" by simp
qed

lemma active_slot:
  assumes "broker_inv b" "e \<in># active_ms b"
  shows "eb_jobEvals b (ev_JobID e) = Some (ev_ID e)"
proof -
  note mid = assms(1) [unfolded broker_inv_def]
  note j = inv_midD(2) [OF mid]
  have dk: "distinct (map fst (eb_unack b))" using inv_midD(1) [OF mid] by (simp add: inv_keys_def)
  from assms(2) consider "e \<in># contents (eb_ready b)" | x u where "(x, u) \<in> set (eb_unack b)" "e = ua_Eval u"
    by (auto simp: active_ms_def)
  then show ?thesis
  proof cases
    case 1
    then show ?thesis by (rule inv_jobsD(1) [OF j])
  next
    case 2
    then have "map_of (eb_unack b) x = Some u" using dk by simp
    from inv_jobsD(2,3) [OF j this] 2 show ?thesis by simp
  qed
qed

lemma active_one_per_job:
  assumes "broker_inv b"
  shows "size (filter_mset (\<lambda>e. ev_JobID e = jb) (active_ms b)) \<le> 1"
proof -
  let ?M = "filter_mset (\<lambda>e. ev_JobID e = jb) (active_ms b)"
  note mid = assms [unfolded broker_inv_def]
  have dk: "distinct (map fst (eb_unack b))" using inv_midD(1) [OF mid] by (simp add: inv_keys_def)
  have id: "ev_ID e = ev_ID f" if "e \<in># ?M" "f \<in># ?M" for e f
    using active_slot [OF assms, of e] active_slot [OF assms, of f] that by auto
  have un: "image_mset ev_ID (mset (map (ua_Eval \<circ> snd) (eb_unack b))) = mset (map fst (eb_unack b))"
    unfolding unack_ids [OF inv_midD(2) [OF mid] dk, symmetric] mset_map [symmetric] map_map ..
  have img: "image_mset ev_ID (active_ms b) \<subseteq># located b"
    unfolding active_ms_def located_def image_mset_union un
    by (simp add: subset_mset.add_increasing2 union_ac del: mset_map)
  show ?thesis
  proof (cases "?M = {#}")
    case False
    then obtain e where e: "e \<in># ?M" by blast
    have "image_mset ev_ID ?M = replicate_mset (size ?M) (ev_ID e)"
      using id [OF _ e] by (metis (no_types, lifting) image_mset_cong image_mset_const_eq)
    moreover have "image_mset ev_ID ?M \<subseteq># image_mset ev_ID (active_ms b)"
      by (intro image_mset_subseteq_mono multiset_filter_subset)
    ultimately have "size ?M \<le> count (image_mset ev_ID (active_ms b)) (ev_ID e)"
      by (metis count_replicate_mset mset_subset_eq_count)
    also have "\<dots> \<le> count (located b) (ev_ID e)" using img by (rule mset_subset_eq_count)
    also have "\<dots> \<le> 1" by (rule located_le_one [OF inv_midD(1) [OF mid]])
    finally show ?thesis .
  next
    case True
    then show ?thesis by (metis size_empty zero_le)
  qed
qed

lemma nack_fields:
  assumes "eb_Nack x token b = Some (err, b')" "map_of (eb_unack b) x = Some u" "ua_Token u = token"
    "map_of (eb_ByScheduler b) (ev_Type (ua_Eval u)) = Some st"
    "eb_jobEvals b (ev_JobID (ua_Eval u)) = Some x" "ev_ID (ua_Eval u) = x" "eb_enabled b"
  shows "err = None" "eb_unack b' = amap_del x (eb_unack b)" "eb_evals b' = eb_evals b"
    "eb_jobEvals b' (ev_JobID (ua_Eval u)) = Some x"
  using assms
  by (auto simp: eb_Nack_def timer_Stop_def Let_def enqueueLocked_frame enqueueLocked_ready
      processWaitingEnqueue_def AfterFunc_def split: if_splits)

section \<open>A concrete run\<close>

definition ex_eval :: "string \<Rightarrow> string \<Rightarrow> int \<Rightarrow> nat \<Rightarrow> evaluation" where
  "ex_eval name job prio idx = zero_eval\<lparr>ev_ID := name, ev_JobID := job, ev_Priority := prio,
     ev_Type := ''service'', ev_CreateIndex := idx\<rparr>"

definition ex_new :: eval_broker where
  "ex_new = projr (NewEvalBroker 60 1 20 3)"

definition ex_full :: eval_broker where
  "ex_full = EnqueueAll [(ex_eval ''e1'' ''j1'' 50 1, ''''), (ex_eval ''e2'' ''j1'' 50 2, ''''),
     (ex_eval ''e3'' ''j2'' 80 3, '''')] (eb_SetEnabled True ex_new)"

definition ex_taken :: eval_broker where
  "ex_taken = snd (the (scanForSchedulers [''service''] ''t1'' 0 ex_full))"

lemma ex_new_reachable: "broker_reachable ex_new"
  unfolding broker_reachable_def
  by (rule exI [of _ 60], rule exI [of _ 1], rule exI [of _ 20], rule exI [of _ 3])
    (simp add: ex_new_def NewEvalBroker_def)

lemma step_reachable:
  "broker_reachable b \<Longrightarrow> broker_step b b' \<Longrightarrow> (\<not> eb_enabled b \<Longrightarrow> eb_enabled b' \<Longrightarrow> idle b) \<Longrightarrow> broker_reachable b'"
  unfolding broker_reachable_def by (meson orderly_step_def rtranclp.rtrancl_into_rtrancl)

lemma ex_enabled_reachable: "broker_reachable (eb_SetEnabled True ex_new)"
  unfolding eb_SetEnabled_def Let_def
  by (simp, rule step_reachable [OF ex_new_reachable broker_step.flag])
    (simp add: idle_def ex_new_def NewEvalBroker_def waiting_ms_def wait_evals_def List.map_filter_simps)

lemma ex_full_reachable: "broker_reachable ex_full"
proof -
  show ?thesis unfolding ex_full_def
    by (rule step_reachable [OF ex_enabled_reachable broker_step.enqueue_all])
      (simp_all add: ex_eval_def zero_eval_def eb_SetEnabled_def set_flag_def)
qed

lemma ex_full_enabled: "eb_enabled ex_full" and ex_taken_enabled: "eb_enabled ex_taken"
  by code_simp+

lemma ex_full_scan:
  "scanForSchedulers [''service''] ''t1'' 0 ex_full = Some (Inr (Some (ex_eval ''e3'' ''j2'' 80 3, ''t1'')), ex_taken)"
proof -
  have "map_option fst (scanForSchedulers [''service''] ''t1'' 0 ex_full) =
      Some (Inr (Some (ex_eval ''e3'' ''j2'' 80 3, ''t1'')))" by code_simp
  then show ?thesis by (auto simp: ex_taken_def)
qed

lemma ex_taken_reachable: "broker_reachable ex_taken"
  by (rule step_reachable [OF ex_full_reachable broker_step.scan [OF ex_full_scan]]) (use ex_full_enabled in simp)

section \<open>Properties\<close>

text \<open>
  C1: in every orderly run, one in which the broker is only enabled when it is idle, an enabled
  broker has each tracked evaluation in exactly one place: a ready queue, a blocked queue, a wait timer, or
  outstanding. No interleaving of callers and timers within a term of leadership loses or duplicates one.
\<close>

theorem broker_conservation:
  assumes "broker_reachable b" "eb_enabled b"
  shows "located b = mset (map fst (eb_evals b)) \<and> distinct (map fst (eb_evals b))"
  using enabled_inv [OF assms] by (simp add: broker_inv_def inv_mid_def inv_keys_def)

theorem broker_conservation_witness:
  "located ex_full = mset (map fst (eb_evals ex_full)) \<and> map fst (eb_evals ex_full) = [''e1'', ''e2'', ''e3'']"
proof -
  have "map fst (eb_evals ex_full) = [''e1'', ''e2'', ''e3'']" by code_simp
  with broker_conservation [OF ex_full_reachable ex_full_enabled] show ?thesis by blast
qed

text \<open>
  C2: in every orderly run, one in which the broker is only enabled when it is idle, an enabled broker
  serialises the evaluations of a job: at most one of them is ready or outstanding.
\<close>

theorem broker_serialises_jobs:
  assumes "broker_reachable b" "eb_enabled b"
  shows "size (filter_mset (\<lambda>e. ev_JobID e = jb) (active_ms b)) \<le> 1"
  by (rule active_one_per_job [OF enabled_inv [OF assms]])

theorem broker_serialises_jobs_witness:
  "size (filter_mset (\<lambda>e. ev_JobID e = ''j1'') (active_ms ex_full)) \<le> 1 \<and>
   map_of (eb_blocked ex_full) ''j1'' = Some [ex_eval ''e2'' ''j1'' 50 2]"
proof -
  have "map_of (eb_blocked ex_full) ''j1'' = Some [ex_eval ''e2'' ''j1'' 50 2]" by code_simp
  with broker_serialises_jobs [OF ex_full_reachable ex_full_enabled, of "''j1''"] show ?thesis by blast
qed

text \<open>
  C11: in an orderly run, one in which the broker is only enabled when it is idle, a blocked evaluation of an
  enabled broker is never orphaned: its job's slot is held by another evaluation that is ready,
  waiting for a timer, or outstanding, so an acknowledgement of that one will release it.
\<close>

theorem broker_blocked_has_holder:
  assumes "broker_reachable b" "eb_enabled b" "e \<in># contents (eb_blocked b)"
  shows "\<exists>x. eb_jobEvals b (ev_JobID e) = Some x \<and> x \<noteq> ev_ID e \<and> holds_slot [] b (ev_JobID e) x"
proof -
  from enabled_inv [OF assms(1,2)] have mid: "inv_mid [] None b" by (simp add: broker_inv_def)
  note k = inv_midD(1) [OF mid] and j = inv_midD(2) [OF mid]
  obtain x where x: "eb_jobEvals b (ev_JobID e) = Some x" using inv_jobsD(5) [OF j assms(3)] by blast
  have slot: "holds_slot [] b (ev_JobID e) x" by (rule inv_jobsD(6) [OF j x])
  have "x \<noteq> ev_ID e"
  proof
    assume eq: "x = ev_ID e"
    have 1: "1 \<le> count (image_mset ev_ID (contents (eb_blocked b))) (ev_ID e)"
      using assms(3) by (simp add: count_greater_eq_one_iff)
    from slot eq consider f where "f \<in># contents (eb_ready b)" "ev_ID f = ev_ID e"
      | f where "f \<in># waiting_ms b" "ev_ID f = ev_ID e" | u where "map_of (eb_unack b) (ev_ID e) = Some u"
      by (auto simp: holds_slot_def)
    then show False
    proof cases
      case 1
      then show ?thesis using places_disjoint(1) [OF k _ assms(3)] by blast
    next
      case (2 f)
      then have "1 \<le> count (image_mset ev_ID (waiting_ms b)) (ev_ID e)"
        by (metis count_greater_eq_one_iff image_eqI set_image_mset)
      with 1 located_le_one [OF k, of "ev_ID e", unfolded located_def count_union] show ?thesis by linarith
    next
      case 3
      then show ?thesis using places_disjoint(4) [OF k assms(3)] by simp
    qed
  qed
  with x slot show ?thesis by blast
qed

theorem broker_blocked_has_holder_witness:
  "\<exists>x. eb_jobEvals ex_full ''j1'' = Some x \<and> x \<noteq> ''e2'' \<and> holds_slot [] ex_full ''j1'' x"
proof -
  have e: "ev_JobID (ex_eval ''e2'' ''j1'' 50 2) = ''j1''" "ev_ID (ex_eval ''e2'' ''j1'' 50 2) = ''e2''"
    by (simp_all add: ex_eval_def)
  have "eb_blocked ex_full = [(''j1'', [ex_eval ''e2'' ''j1'' 50 2])]" by code_simp
  then have "ex_eval ''e2'' ''j1'' 50 2 \<in># contents (eb_blocked ex_full)" by (simp add: contents_def)
  from broker_blocked_has_holder [OF ex_full_reachable ex_full_enabled this] show ?thesis unfolding e .
qed

text \<open>
  C10: in an orderly run, one in which the broker is only enabled when it is idle, no method of the
  broker panics, enabled or disabled: dequeue, acknowledgement, negative acknowledgement and the timer
  callbacks all return.
\<close>

theorem broker_no_panic:
  assumes "broker_reachable b"
  shows "scanForSchedulers schedulers token offset b \<noteq> None \<and> eb_Ack x token b \<noteq> None \<and>
    eb_Nack x token b \<noteq> None \<and> (\<forall>cb \<in> set (rt_fired b). run_callback cb b \<noteq> None)"
proof -
  note inv = reachable_inv [OF assms]
  show ?thesis
    using scan_system [OF inv, of schedulers token offset] ack_system [OF inv, of x token] callback_system [OF inv]
    by fastforce
qed

theorem broker_no_panic_witness:
  "eb_Ack ''e3'' ''t1'' ex_taken \<noteq> None \<and> eb_Nack ''e3'' ''t1'' ex_taken \<noteq> None"
  using broker_no_panic [OF ex_taken_reachable] by blast

text \<open>
  C3: in an orderly run, one in which the broker is only enabled when it is idle, a dequeue delivers the
  best evaluation of the queue it takes from: one of a requested scheduler, with no ready evaluation of that
  queue of higher priority, nor of equal priority and earlier creation. The delivery is counted and
  outstanding under the new token; unless it comes from the failed queue, it is within the delivery limit.
\<close>

theorem broker_dequeue_best:
  assumes "broker_reachable b" "scanForSchedulers schedulers token offset b = Some (Inr (Some (e, tok)), b')"
  shows "\<exists>q \<in> set schedulers. e \<in> set (amap_get [] (eb_ready b) q) \<and> tok = token \<and>
    (\<forall>f \<in> set (amap_get [] (eb_ready b) q). ev_Priority f \<le> ev_Priority e \<and>
       (ev_Priority f = ev_Priority e \<longrightarrow> ev_CreateIndex e \<le> ev_CreateIndex f)) \<and>
    Outstanding (ev_ID e) b' = (token, True) \<and>
    deliveries b' (ev_ID e) = deliveries b (ev_ID e) + 1 \<and>
    (q \<noteq> failedQueue \<longrightarrow> deliveries b' (ev_ID e) \<le> eb_deliveryLimit b)"
proof -
  have en: "eb_enabled b" using assms(2) by (auto simp: scanForSchedulers_def split: if_splits)
  have inv: "broker_inv b" by (rule enabled_inv [OF assms(1) en])
  note mid = inv [unfolded broker_inv_def]
  note k = inv_midD(1) [OF mid] and j = inv_midD(2) [OF mid]
  obtain q pending st where q: "q \<in> set schedulers"
    "heap_pop Less (amap_get [] (eb_ready b) q) = Some (e, pending)"
    and b': "b' = delivered q e pending token st b" "tok = token"
  proof (cases rule: scan_cases [OF inv en, of schedulers token offset, case_names none got])
    case none
    with assms(2) show ?thesis by simp
  next
    case (got q f pending st)
    from got(4) assms(2) have "f = e" "tok = token" "b' = delivered q f pending token st b" by simp_all
    with got(1,2) show ?thesis by (intro that) simp_all
  qed
  let ?h = "amap_get [] (eb_ready b) q"
  note perm = rq.heap_pop_perm(2) [OF q(2)]
  have set_h: "set ?h = insert e (set pending)" using arg_cong [OF perm, of set_mset] by simp
  have inj: "inj_on ev_JobID (set ?h)" by (rule inj_on_subset [OF ready_inj_job [OF k j] amap_get_contents])
  have hp: "rq.heap_inv ?h"
    using inv_midD(3) [OF mid] rq.heap_inv_Nil by (auto simp: inv_heaps_def go_get_def split: option.splits)
  have best: "\<not> Less f e" if "f \<in> set pending" for f by (rule rq.heap_pop_min [OF inj hp q(2) that])
  have order: "ev_Priority f \<le> ev_Priority e \<and> (ev_Priority f = ev_Priority e \<longrightarrow> ev_CreateIndex e \<le> ev_CreateIndex f)"
    if "f \<in> set ?h" for f
  proof (cases "f = e")
    case False
    then have "ev_JobID f \<noteq> ev_JobID e" "f \<in> set pending" using inj that set_h by (auto simp: inj_on_def)
    with best [of f] show ?thesis by (auto simp: Less_def split: if_splits)
  qed simp
  have "right_queue b q e" using inv_countsD(2) [OF inv_midD(5) [OF mid], of e q] set_h by simp
  then have "q \<noteq> failedQueue \<longrightarrow> deliveries b' (ev_ID e) \<le> eb_deliveryLimit b"
    by (auto simp: b' delivered_def deliveries_def right_queue_def)
  moreover have "Outstanding (ev_ID e) b' = (token, True)" "deliveries b' (ev_ID e) = deliveries b (ev_ID e) + 1"
    by (simp_all add: b' delivered_def Outstanding_def deliveries_def)
  ultimately show ?thesis using q(1) set_h order b'(2) by (intro bexI [of _ q]) auto
qed

theorem broker_dequeue_best_witness:
  "scanForSchedulers [''service''] ''t1'' 0 ex_full = Some (Inr (Some (ex_eval ''e3'' ''j2'' 80 3, ''t1'')), ex_taken) \<and>
   Outstanding ''e3'' ex_taken = (''t1'', True)"
  using broker_dequeue_best [OF ex_full_reachable ex_full_scan] ex_full_scan by (auto simp: ex_eval_def)

text \<open>
  C4: at-least-once delivery, in an orderly run, one in which the broker is only enabled when it is idle:
  when an evaluation that is outstanding on an enabled broker is returned under its token, by a caller or by
  its expired timer, it is no longer outstanding and sits in a ready queue or waits for a timer; the
  broker keeps tracking it with the same delivery count.
\<close>

theorem broker_nack_redelivers:
  assumes "broker_reachable b" "eb_enabled b" "Outstanding x b = (token, True)"
  shows "\<exists>b'. eb_Nack x token b = Some (None, b') \<and> Outstanding x b' = ('''', False) \<and>
    x \<in> ev_ID ` set_mset (contents (eb_ready b') + waiting_ms b') \<and> deliveries b' x = deliveries b x"
proof -
  note inv = reachable_inv [OF assms(1)]
  have bi: "broker_inv b" by (rule enabled_inv [OF assms(1,2)])
  note mid = bi [unfolded broker_inv_def]
  from assms(3) obtain u where u: "map_of (eb_unack b) x = Some u" "ua_Token u = token"
    by (auto simp: Outstanding_def split: option.splits)
  note slot = inv_jobsD(2,3) [OF inv_midD(2) [OF mid] u(1)]
  obtain st where st: "map_of (eb_ByScheduler b) (ev_Type (ua_Eval u)) = Some st"
    using inv_countsD(5) [OF inv_midD(5) [OF mid] u(1)] by blast
  obtain err b' where run: "eb_Nack x token b = Some (err, b')" "system_inv b'" "eb_enabled b'"
    using ack_system(2) [OF inv, of x token] assms(2) by blast
  have res: "err = None" "eb_unack b' = amap_del x (eb_unack b)" "eb_evals b' = eb_evals b"
    "eb_jobEvals b' (ev_JobID (ua_Eval u)) = Some x"
    using nack_fields [OF run(1) u st slot(2,1) assms(2)] by auto
  have mid': "inv_mid [] None b'" using run(2,3) by (simp add: system_inv_def broker_inv_def)
  have un: "map_of (eb_unack b') x = None" by (simp add: res)
  from inv_jobsD(6) [OF inv_midD(2) [OF mid'] res(4)] un
  have "x \<in> ev_ID ` set_mset (contents (eb_ready b') + waiting_ms b')" by (auto simp: holds_slot_def)
  with run(1) res(1,3) un show ?thesis by (simp add: Outstanding_def deliveries_def)
qed

theorem broker_nack_redelivers_witness:
  "eb_enabled ex_taken \<and> Outstanding ''e3'' ex_taken = (''t1'', True) \<and>
   (\<exists>b'. eb_Nack ''e3'' ''t1'' ex_taken = Some (None, b') \<and>
      ''e3'' \<in> ev_ID ` set_mset (contents (eb_ready b') + waiting_ms b'))"
proof -
  have "eb_enabled ex_taken" "Outstanding ''e3'' ex_taken = (''t1'', True)" by code_simp+
  with broker_nack_redelivers [OF ex_taken_reachable this] show ?thesis by blast
qed

text \<open>
  C12: in an orderly run, one in which the broker is only enabled when it is idle, the totals of an enabled
  broker that \<open>Stats\<close> reports and its ready count per scheduler are exact. Of the unacknowledged counts per
  scheduler only the sum is: it is the number of outstanding evaluations.
\<close>

theorem broker_stats_exact:
  assumes "broker_reachable b" "eb_enabled b"
  shows "eb_Stats b = (int (size (contents (eb_ready b))), int (length (eb_unack b)),
      int (size (contents (eb_blocked b))), int (size (waiting_ms b)), eb_ByScheduler b) \<and>
    (\<forall>q. sched_ready b q = int (length (amap_get [] (eb_ready b) q))) \<and>
    sum_list (map (ss_Unacked \<circ> snd) (eb_ByScheduler b)) = int (length (eb_unack b))"
  using enabled_inv [OF assms] reachable_unacked [OF assms(1)]
  by (simp add: broker_inv_def inv_mid_def inv_stats_def eb_Stats_def unacked_sum_def)

theorem broker_stats_exact_witness:
  "fst (eb_Stats ex_taken) = 1 \<and> eb_Stats ex_taken = (int (size (contents (eb_ready ex_taken))), int (length (eb_unack ex_taken)),
      int (size (contents (eb_blocked ex_taken))), int (size (waiting_ms ex_taken)), eb_ByScheduler ex_taken)"
proof -
  have "fst (eb_Stats ex_taken) = 1" by code_simp
  with broker_stats_exact [OF ex_taken_reachable ex_taken_enabled] show ?thesis by blast
qed

text \<open>
  C13: only the holder of the token can acknowledge: with no delivery outstanding, or another token,
  \<open>Ack\<close> and \<open>Nack\<close> return an error and change nothing but the requeue entry of the given token.
\<close>

theorem broker_token_safety:
  "Outstanding x b \<noteq> (token, True) \<Longrightarrow>
     eb_Ack x token b = Some (Some (if snd (Outstanding x b) then TokenDoesNotMatch else EvalNotFound),
       b\<lparr>eb_requeue := (eb_requeue b)(token := None)\<rparr>) \<and>
     eb_Nack x token b = Some (Some (if snd (Outstanding x b) then TokenDoesNotMatch else EvalNotFound),
       b\<lparr>eb_requeue := (eb_requeue b)(token := None)\<rparr>)"
  by (auto simp: Outstanding_def eb_Ack_def eb_Nack_def split: option.splits)

theorem broker_token_safety_witness:
  "Outstanding ''e3'' ex_taken \<noteq> (''t2'', True) \<and>
   eb_Ack ''e3'' ''t2'' ex_taken = Some (Some TokenDoesNotMatch, ex_taken\<lparr>eb_requeue := (eb_requeue ex_taken)(''t2'' := None)\<rparr>)"
proof -
  have "Outstanding ''e3'' ex_taken = (''t1'', True)" by code_simp
  with broker_token_safety [of "''e3''" ex_taken "''t2''"] show ?thesis by simp
qed

section \<open>Deviations\<close>

text \<open>The states of the run of theorem \<open>leftover_wait_duplicates\<close>.\<close>

lemma push_same: "heap_push Less e [] = [e]" "heap_push Less e [e] = [e, e]"
  by (simp_all add: heap_push_def heap_up.simps [of Less 0] heap_up.simps [of Less "Suc 0"] parent_def Less_def nth_append)

lemma pop_same: "heap_pop Less [e, e] = Some (e, [e])" "heap_pop Less [e] = Some (e, [])"
  by (simp_all add: heap_pop_def heap_down.simps [of Less 0 "Suc 0"] heap_down.simps [of Less 0 0] swap_def)

lemma leftover_enqueued:
  assumes "idle b" "\<not> eb_enabled b" "0 < ev_Wait e"
  shows "eb_Enqueue e (eb_SetEnabled True (eb_Enqueue e b)) =
    b\<lparr>eb_enabled := True, eb_evals := [(ev_ID e, 0)], eb_TotalWaiting := 2,
      eb_timeWait := amap_put (ev_ID e) (rt_next b + 1) (amap_put (ev_ID e) (rt_next b) (eb_timeWait b)),
      rt_active := amap_put (rt_next b + 1) (WaitCb e) (amap_put (rt_next b) (WaitCb e) (rt_active b)),
      rt_next := rt_next b + 2\<rparr>"
  using assms
  by (simp add: eb_Enqueue_def processEnqueue_def processWaitingEnqueue_def AfterFunc_def eb_SetEnabled_def set_flag_def idle_def)

lemma leftover_fired:
  assumes "rt_active b = amap_put (Suc n) (WaitCb e) (amap_put n (WaitCb e) ts)"
  obtains ts' where "broker_step\<^sup>*\<^sup>* b (b\<lparr>rt_active := ts', rt_fired := WaitCb e # WaitCb e # rt_fired b\<rparr>)"
proof -
  let ?c = "b\<lparr>rt_active := amap_del n (rt_active b), rt_fired := WaitCb e # rt_fired b\<rparr>"
  let ?d = "?c\<lparr>rt_active := amap_del (Suc n) (rt_active ?c), rt_fired := WaitCb e # rt_fired ?c\<rparr>"
  have "fire n b = Some ?c" using assms by (simp add: fire_def update_conv')
  then have 1: "broker_step b ?c" by (rule broker_step.timer)
  have "map_of (amap_del n (rt_active b)) (Suc n) = Some (WaitCb e)"
    using assms by (simp add: delete_conv' update_conv')
  then have "fire (Suc n) ?c = Some ?d" by (simp add: fire_def)
  then have "broker_step ?c ?d" by (rule broker_step.timer)
  with 1 have "broker_step\<^sup>*\<^sup>* b ?d" by (meson converse_rtranclp_into_rtranclp r_into_rtranclp)
  then show ?thesis using that by simp
qed

lemma leftover_queued:
  assumes "eb_enabled b" "WaitCb e \<in> set (rt_fired b)"
    "eb_jobEvals b (ev_JobID e) = None \<or> eb_jobEvals b (ev_JobID e) = Some (ev_ID e)"
  obtains c where "broker_step b c" "eb_enabled c" "rt_fired c = remove1 (WaitCb e) (rt_fired b)"
    "eb_jobEvals c (ev_JobID e) = Some (ev_ID e)"
    "eb_ready c = amap_put (ev_Type e) (heap_push Less e (amap_get [] (eb_ready b) (ev_Type e))) (eb_ready b)"
    "dom (map_of (eb_ByScheduler c)) = insert (ev_Type e) (dom (map_of (eb_ByScheduler b)))"
    "eb_evals c = eb_evals b" "eb_unack c = eb_unack b" "eb_TotalUnacked c = eb_TotalUnacked b"
    "eb_deliveryLimit c = eb_deliveryLimit b"
proof -
  let ?b = "b\<lparr>rt_fired := remove1 (WaitCb e) (rt_fired b), eb_timeWait := amap_del (ev_ID e) (eb_timeWait b),
    eb_TotalWaiting := eb_TotalWaiting b - 1\<rparr>"
  let ?c = "enqueueLocked e (ev_Type e) ?b"
  have en: "eb_enabled ?b" "eb_jobEvals ?b (ev_JobID e) = None \<or> eb_jobEvals ?b (ev_JobID e) = Some (ev_ID e)"
    using assms by simp_all
  have "run_callback (WaitCb e) b = Some ?c" by (simp add: run_callback_def enqueueWaiting_def)
  then have "broker_step b ?c" by (rule broker_step.callback [OF assms(2)])
  then show ?thesis
    by (rule that) (simp_all add: enqueueLocked_ready [OF en] enqueueLocked_frame assms)
qed

definition twice_ready :: "evaluation \<Rightarrow> eval_broker \<Rightarrow> bool" where
  "twice_ready e b \<longleftrightarrow> eb_enabled b \<and> eb_ready b = [(ev_Type e, [e, e])] \<and> eb_evals b = [(ev_ID e, 0)] \<and>
     eb_unack b = [] \<and> eb_TotalUnacked b = 0 \<and> dom (map_of (eb_ByScheduler b)) = {ev_Type e}"

lemma leftover_run:
  assumes "idle b" "\<not> eb_enabled b" "0 < ev_Wait e"
  obtains b' where "broker_step\<^sup>*\<^sup>* (eb_Enqueue e (eb_SetEnabled True (eb_Enqueue e b))) b'" "twice_ready e b'"
    "eb_deliveryLimit b' = eb_deliveryLimit b"
proof -
  let ?b = "eb_Enqueue e (eb_SetEnabled True (eb_Enqueue e b))"
  note b = leftover_enqueued [OF assms]
  have "rt_active ?b = amap_put (Suc (rt_next b)) (WaitCb e) (amap_put (rt_next b) (WaitCb e) (rt_active b))"
    by (simp add: b)
  then obtain ts where run: "broker_step\<^sup>*\<^sup>* ?b (?b\<lparr>rt_active := ts, rt_fired := WaitCb e # WaitCb e # rt_fired ?b\<rparr>)"
    by (rule leftover_fired)
  let ?c = "?b\<lparr>rt_active := ts, rt_fired := WaitCb e # WaitCb e # rt_fired ?b\<rparr>"
  have "eb_enabled ?c" "WaitCb e \<in> set (rt_fired ?c)" "eb_jobEvals ?c (ev_JobID e) = None \<or> eb_jobEvals ?c (ev_JobID e) = Some (ev_ID e)"
    using assms(1) by (simp_all add: b idle_def)
  then obtain d where d: "broker_step ?c d" "eb_enabled d" "rt_fired d = remove1 (WaitCb e) (rt_fired ?c)"
    "eb_jobEvals d (ev_JobID e) = Some (ev_ID e)"
    "eb_ready d = amap_put (ev_Type e) (heap_push Less e (amap_get [] (eb_ready ?c) (ev_Type e))) (eb_ready ?c)"
    "dom (map_of (eb_ByScheduler d)) = insert (ev_Type e) (dom (map_of (eb_ByScheduler ?c)))"
    "eb_evals d = eb_evals ?c" "eb_unack d = eb_unack ?c" "eb_TotalUnacked d = eb_TotalUnacked ?c"
    "eb_deliveryLimit d = eb_deliveryLimit ?c"
    by (rule leftover_queued)
  have "WaitCb e \<in> set (rt_fired d)" "eb_jobEvals d (ev_JobID e) = None \<or> eb_jobEvals d (ev_JobID e) = Some (ev_ID e)"
    by (simp_all add: d)
  from leftover_queued [OF d(2) this] obtain f where f: "broker_step d f" "eb_enabled f"
    "eb_ready f = amap_put (ev_Type e) (heap_push Less e (amap_get [] (eb_ready d) (ev_Type e))) (eb_ready d)"
    "dom (map_of (eb_ByScheduler f)) = insert (ev_Type e) (dom (map_of (eb_ByScheduler d)))"
    "eb_evals f = eb_evals d" "eb_unack f = eb_unack d" "eb_TotalUnacked f = eb_TotalUnacked d"
    "eb_deliveryLimit f = eb_deliveryLimit d"
    by metis
  have "broker_step\<^sup>*\<^sup>* ?b f"
    by (rule rtranclp.rtrancl_into_rtrancl [OF rtranclp.rtrancl_into_rtrancl [OF run d(1)] f(1)])
  moreover have "twice_ready e f" "eb_deliveryLimit f = eb_deliveryLimit b"
    using assms(1) f(2) by (simp_all add: twice_ready_def f(3-8) d(5-10) b idle_def push_same go_get_def)
  ultimately show ?thesis by (rule that)
qed

lemma twice_delivered:
  assumes "twice_ready e b"
  obtains c d where "scanForSchedulers [ev_Type e] t1 0 b = Some (Inr (Some (e, t1)), c)"
    "scanForSchedulers [ev_Type e] t2 0 c = Some (Inr (Some (e, t2)), d)"
    "eb_TotalUnacked d = 2" "map fst (eb_unack d) = [ev_ID e]"
    "eb_deliveryLimit b = 1 \<Longrightarrow> ev_Type e \<noteq> failedQueue \<Longrightarrow> eb_Ack (ev_ID e) t2 d = None"
proof -
  let ?q = "ev_Type e"
  from assms have dm: "dom (map_of (eb_ByScheduler b)) = {?q}" by (simp add: twice_ready_def)
  then obtain st where st: "map_of (eb_ByScheduler b) ?q = Some st" by blast
  have fq: "map_of (eb_ByScheduler b) failedQueue = None" if "?q \<noteq> failedQueue"
  proof -
    have "failedQueue \<notin> dom (map_of (eb_ByScheduler b))" unfolding dm using that by simp
    then show ?thesis by (simp only: domIff not_not)
  qed
  let ?c = "delivered ?q e [e] t1 st b"
  let ?st = "st\<lparr>ss_Ready := ss_Ready st - 1, ss_Unacked := ss_Unacked st + 1\<rparr>"
  let ?d = "delivered ?q e [] t2 ?st ?c"
  have 1: "scanForSchedulers [?q] t1 0 b = Some (Inr (Some (e, t1)), ?c)"
    using assms by (simp add: twice_ready_def scanForSchedulers_def scan_one_def Peek_def dequeueForSched_eq pop_same st go_get_def)
  have 2: "scanForSchedulers [?q] t2 0 ?c = Some (Inr (Some (e, t2)), ?d)"
    using assms
    by (simp add: twice_ready_def scanForSchedulers_def scan_one_def Peek_def dequeueForSched_eq pop_same go_get_def delivered_def)
  have 3: "eb_TotalUnacked ?d = 2" "map fst (eb_unack ?d) = [ev_ID e]"
    using assms by (simp_all add: twice_ready_def delivered_def)
  have 4: "eb_Ack (ev_ID e) t2 ?d = None" if "eb_deliveryLimit b = 1" "?q \<noteq> failedQueue"
    using assms fq [OF that(2)] that
    by (simp add: twice_ready_def delivered_def eb_Ack_def timer_Stop_def go_get_def update_conv')
  show ?thesis by (rule that [OF 1 2 3 4])
qed

text \<open>
  C16: a wait timer that is started on a disabled broker breaks the order of the next term. From any
  idle disabled broker and for any evaluation with a wait time: when the evaluation is enqueued, as it is on a
  follower, the broker is then enabled, and the evaluation is enqueued again, as the new leader does when it restores
  the evaluations, then both timers can fire and leave the evaluation twice in the ready queue. Both copies
  are delivered, under two tokens; two evaluations are counted as unacknowledged and one is on record. With
  a delivery limit of one, acknowledging the second delivery panics.
\<close>

theorem leftover_wait_duplicates:
  assumes "idle b" "\<not> eb_enabled b" "0 < ev_Wait e"
  shows "\<exists>b'. broker_step\<^sup>*\<^sup>* (eb_Enqueue e (eb_SetEnabled True (eb_Enqueue e b))) b' \<and>
    amap_get [] (eb_ready b') (ev_Type e) = [e, e] \<and>
    (\<exists>c d. scanForSchedulers [ev_Type e] t1 0 b' = Some (Inr (Some (e, t1)), c) \<and>
       scanForSchedulers [ev_Type e] t2 0 c = Some (Inr (Some (e, t2)), d) \<and>
       eb_TotalUnacked d = 2 \<and> map fst (eb_unack d) = [ev_ID e] \<and>
       (eb_deliveryLimit b = 1 \<and> ev_Type e \<noteq> failedQueue \<longrightarrow> eb_Ack (ev_ID e) t2 d = None))"
proof -
  from leftover_run [OF assms] obtain b' where
    run: "broker_step\<^sup>*\<^sup>* (eb_Enqueue e (eb_SetEnabled True (eb_Enqueue e b))) b'" and two: "twice_ready e b'"
    and lim: "eb_deliveryLimit b' = eb_deliveryLimit b" .
  obtain c d where "scanForSchedulers [ev_Type e] t1 0 b' = Some (Inr (Some (e, t1)), c)"
    "scanForSchedulers [ev_Type e] t2 0 c = Some (Inr (Some (e, t2)), d)"
    "eb_TotalUnacked d = 2" "map fst (eb_unack d) = [ev_ID e]"
    "eb_deliveryLimit b' = 1 \<Longrightarrow> ev_Type e \<noteq> failedQueue \<Longrightarrow> eb_Ack (ev_ID e) t2 d = None"
    using twice_delivered [OF two, of t1 t2] by metis
  moreover have "amap_get [] (eb_ready b') (ev_Type e) = [e, e]" using two by (simp add: twice_ready_def go_get_def)
  ultimately show ?thesis using run lim by metis
qed

definition ex_waiting_eval :: evaluation where
  "ex_waiting_eval = (ex_eval ''e1'' ''j1'' 50 1)\<lparr>ev_Wait := 30\<rparr>"

theorem leftover_wait_duplicates_witness:
  "\<exists>b' c d. broker_step\<^sup>*\<^sup>* (eb_Enqueue ex_waiting_eval (eb_SetEnabled True (eb_Enqueue ex_waiting_eval (projr (NewEvalBroker 60 1 20 1))))) b' \<and>
    amap_get [] (eb_ready b') ''service'' = [ex_waiting_eval, ex_waiting_eval] \<and>
    scanForSchedulers [''service''] ''t1'' 0 b' = Some (Inr (Some (ex_waiting_eval, ''t1'')), c) \<and>
    scanForSchedulers [''service''] ''t2'' 0 c = Some (Inr (Some (ex_waiting_eval, ''t2'')), d) \<and>
    eb_Ack ''e1'' ''t2'' d = None"
proof -
  let ?b = "projr (NewEvalBroker 60 1 20 1)"
  have "idle ?b" "\<not> eb_enabled ?b" "eb_deliveryLimit ?b = 1"
    by (simp_all add: idle_def NewEvalBroker_def waiting_ms_def wait_evals_def List.map_filter_simps)
  moreover have "0 < ev_Wait ex_waiting_eval" "ev_Type ex_waiting_eval = ''service''" "ev_ID ex_waiting_eval = ''e1''"
    "''service'' \<noteq> failedQueue"
    by code_simp+
  ultimately show ?thesis
    using leftover_wait_duplicates [of ?b ex_waiting_eval "''t1''" "''t2''"] by simp metis
qed

text \<open>Two schedulers' queues; in the first the evaluation of highest priority is not the last of the slice.\<close>

definition ex_two_queues :: eval_broker where
  "ex_two_queues = EnqueueAll [(ex_eval ''e1'' ''j1'' 90 1, ''''), (ex_eval ''e2'' ''j2'' 10 2, ''''),
     ((ex_eval ''e3'' ''j3'' 50 3)\<lparr>ev_Type := ''batch''\<rparr>, '''')] (eb_SetEnabled True ex_new)"

text \<open>
  \<open>Peek\<close> reads the last cell of the slice, not the root of the heap, so a scan over several
  schedulers may deliver an evaluation although one of strictly higher priority is ready for
  another requested scheduler.
\<close>

theorem scan_skips_higher_priority:
  "map_option fst (scanForSchedulers [''service'', ''batch''] ''t'' 0 ex_two_queues) =
     Some (Inr (Some ((ex_eval ''e3'' ''j3'' 50 3)\<lparr>ev_Type := ''batch''\<rparr>, ''t''))) \<and>
   ex_eval ''e1'' ''j1'' 90 1 \<in> set (amap_get [] (eb_ready ex_two_queues) ''service'')"
  by code_simp

text \<open>One evaluation with a delivery limit of one, delivered, returned, delivered from the failed queue, returned.\<close>

definition ex_failed_run :: "eval_broker option" where
  "ex_failed_run =
     (let b0 = eb_Enqueue (ex_eval ''e1'' ''j1'' 50 1) (eb_SetEnabled True (projr (NewEvalBroker 60 0 0 1)));
          take = (\<lambda>q t b. map_option snd (scanForSchedulers [q] t 0 b));
          nack = (\<lambda>t b. map_option snd (eb_Nack ''e1'' t b))
      in Option.bind (take ''service'' ''t1'' b0) (\<lambda>b1. Option.bind (nack ''t1'' b1) (\<lambda>b2.
         Option.bind (take failedQueue ''t2'' b2) (nack ''t2''))))"

text \<open>
  A negative acknowledgement of an evaluation delivered from the failed queue decrements the
  unacknowledged counter of the evaluation's own scheduler, so the per-scheduler counters drift:
  with nothing outstanding the failed queue reports one and the other scheduler minus one.
\<close>

theorem nack_counter_drift:
  "map_option (\<lambda>b. (map fst (eb_unack b), map_option ss_Unacked (map_of (eb_ByScheduler b) failedQueue),
     map_option ss_Unacked (map_of (eb_ByScheduler b) ''service''))) ex_failed_run =
   Some ([], Some 1, Some (- 1))"
  by code_simp

end
