(* ===== verification/Blocked_Evals.thy ===== *)
theory Blocked_Evals
  imports Eval_Broker_System
begin

text \<open>
  \<^verbatim>\<open>nomad/blocked_evals.go\<close>: the tracker of evaluations that found no capacity. It releases them
  to the evaluation broker when the capacity of a node class changes.

  The maps that are ranged over are association lists. The two channels are a queue and a flag.
  \<open>Unblock\<close> records the index in one critical section and sends to the capacity channel after
  releasing the lock; \<open>be_sending\<close> holds the updates between the two. The goroutine
  \<open>watchCapacity\<close> receives an update and only then takes the lock for \<open>unblock\<close>; \<open>be_received\<close> holds the
  updates between the two. The map \<open>unblocked\<close>, keyed by pointer, is keyed by the evaluation here; the broker ranges
  over it in the order that the parameter \<open>order\<close> gives. Of the two critical sections of \<open>SetEnabled(false)\<close> the
  first leaves the tracker disabled and every other method without effect, so it is one operation.
\<close>

section \<open>State\<close>

definition unblockBuffer :: nat where "unblockBuffer = 8096"

record capacity_update =
  cu_computedClass :: string
  cu_index :: nat

record wrapped_eval =
  we_eval :: evaluation
  we_token :: string

record blocked_evals =
  be_evalBroker :: eval_broker
  be_enabled :: bool
  be_TotalEscaped :: int
  be_TotalBlocked :: int
  be_captured :: "(string \<times> wrapped_eval) list"
  be_escaped :: "(string \<times> wrapped_eval) list"
  be_capacityChangeCh :: "capacity_update list"
  be_jobs :: "string \<rightharpoonup> string"
  be_unblockIndexes :: "(string \<times> nat) list"
  be_duplicates :: "evaluation list"
  be_duplicateCh :: bool
  be_sending :: "capacity_update list"
  be_received :: "capacity_update list"

definition NewBlockedEvals :: "eval_broker \<Rightarrow> blocked_evals" where
  "NewBlockedEvals broker = \<lparr>
     be_evalBroker = broker, be_enabled = False, be_TotalEscaped = 0, be_TotalBlocked = 0,
     be_captured = [], be_escaped = [], be_capacityChangeCh = [], be_jobs = Map.empty,
     be_unblockIndexes = [], be_duplicates = [], be_duplicateCh = False, be_sending = [],
     be_received = []\<rparr>"

section \<open>Operations\<close>

definition be_Flush :: "blocked_evals \<Rightarrow> blocked_evals" where
  "be_Flush b = b\<lparr>
     be_TotalEscaped := 0, be_TotalBlocked := 0, be_captured := [], be_escaped := [],
     be_jobs := Map.empty, be_duplicates := [], be_capacityChangeCh := [], be_duplicateCh := False\<rparr>"

definition be_SetEnabled :: "bool \<Rightarrow> blocked_evals \<Rightarrow> blocked_evals" where
  "be_SetEnabled enabled b =
     (if be_enabled b = enabled then b
      else let b1 = b\<lparr>be_enabled := enabled\<rparr> in if \<not> enabled then be_Flush b1 else b1)"

text \<open>The range loop of \<open>missedUnblock\<close> with its early returns, then the check against the maximum.\<close>

fun missed_loop :: "evaluation \<Rightarrow> (string \<times> nat) list \<Rightarrow> nat \<Rightarrow> bool" where
  "missed_loop eval [] mx \<longleftrightarrow> ev_EscapedComputedClass eval \<and> ev_SnapshotIndex eval < mx"
| "missed_loop eval ((cls, index) # rest) mx \<longleftrightarrow>
     (let mx' = (if mx < index then index else mx);
          elig = map_of (ev_ClassEligibility eval) cls
      in if elig = None \<and> ev_SnapshotIndex eval < index then True
         else if elig = Some True \<and> ev_SnapshotIndex eval < index then True
         else missed_loop eval rest mx')"

definition missedUnblock :: "blocked_evals \<Rightarrow> evaluation \<Rightarrow> bool" where
  "missedUnblock b eval \<longleftrightarrow> missed_loop eval (be_unblockIndexes b) 0"

definition processBlock :: "evaluation \<Rightarrow> string \<Rightarrow> blocked_evals \<Rightarrow> blocked_evals" where
  "processBlock eval token b =
     (if \<not> be_enabled b then b
      else if be_jobs b (ev_JobID eval) \<noteq> None
      then b\<lparr>be_duplicates := be_duplicates b @ [eval], be_duplicateCh := True\<rparr>
      else if missedUnblock b eval
      then b\<lparr>be_evalBroker := EnqueueAll [(eval, token)] (be_evalBroker b)\<rparr>
      else
        let b1 = b\<lparr>be_TotalBlocked := be_TotalBlocked b + 1,
                   be_jobs := (be_jobs b)(ev_JobID eval \<mapsto> ev_ID eval)\<rparr>;
            wrapped = \<lparr>we_eval = eval, we_token = token\<rparr>
        in if ev_EscapedComputedClass eval
           then b1\<lparr>be_escaped := amap_put (ev_ID eval) wrapped (be_escaped b1),
                   be_TotalEscaped := be_TotalEscaped b1 + 1\<rparr>
           else b1\<lparr>be_captured := amap_put (ev_ID eval) wrapped (be_captured b1)\<rparr>)"

definition be_Block :: "evaluation \<Rightarrow> blocked_evals \<Rightarrow> blocked_evals" where
  "be_Block eval b = processBlock eval '''' b"

definition be_Reblock :: "evaluation \<Rightarrow> string \<Rightarrow> blocked_evals \<Rightarrow> blocked_evals" where
  "be_Reblock eval token b = processBlock eval token b"

definition Untrack :: "string \<Rightarrow> blocked_evals \<Rightarrow> blocked_evals" where
  "Untrack jobID b =
     (if \<not> be_enabled b then b
      else case be_jobs b jobID of
        None \<Rightarrow> b
      | Some evalID \<Rightarrow>
          let b1 = (case map_of (be_captured b) evalID of
                      None \<Rightarrow> b
                    | Some w \<Rightarrow> b\<lparr>be_jobs := (be_jobs b)(ev_JobID (we_eval w) := None),
                                  be_captured := amap_del evalID (be_captured b),
                                  be_TotalBlocked := be_TotalBlocked b - 1\<rparr>)
          in (case map_of (be_escaped b1) evalID of
                None \<Rightarrow> b1
              | Some w \<Rightarrow> b1\<lparr>be_jobs := (be_jobs b1)(ev_JobID (we_eval w) := None),
                             be_escaped := amap_del evalID (be_escaped b1),
                             be_TotalEscaped := be_TotalEscaped b1 - 1,
                             be_TotalBlocked := be_TotalBlocked b1 - 1\<rparr>))"

definition be_Unblock :: "string \<Rightarrow> nat \<Rightarrow> blocked_evals \<Rightarrow> blocked_evals" where
  "be_Unblock computedClass index b =
     (if \<not> be_enabled b then b
      else b\<lparr>be_unblockIndexes := amap_put computedClass index (be_unblockIndexes b),
             be_sending := be_sending b @ [\<lparr>cu_computedClass = computedClass, cu_index = index\<rparr>]\<rparr>)"

text \<open>The send of \<open>Unblock\<close>: it blocks while the channel is full.\<close>

definition be_send :: "capacity_update \<Rightarrow> blocked_evals \<Rightarrow> blocked_evals option" where
  "be_send u b =
     (if u \<in> set (be_sending b) \<and> length (be_capacityChangeCh b) < unblockBuffer
      then Some (b\<lparr>be_sending := remove1 u (be_sending b),
                   be_capacityChangeCh := be_capacityChangeCh b @ [u]\<rparr>)
      else None)"

text \<open>
  The range loops of \<open>unblock\<close> and \<open>UnblockFailed\<close>: an entry that satisfies \<open>P\<close> is added to the
  unblocked evaluations and deleted from the tracking maps.
\<close>

type_synonym released = "(evaluation \<times> string) list \<times> (string \<times> wrapped_eval) list \<times> (string \<rightharpoonup> string) \<times> nat"

definition release_one :: "(wrapped_eval \<Rightarrow> bool) \<Rightarrow> string \<times> wrapped_eval \<Rightarrow> released \<Rightarrow> released" where
  "release_one P = (\<lambda>(x, wrapped) (unblocked, tracked, jobs, n).
     if P wrapped
     then (amap_put (we_eval wrapped) (we_token wrapped) unblocked, amap_del x tracked,
           jobs(ev_JobID (we_eval wrapped) := None), n + 1)
     else (unblocked, tracked, jobs, n))"

definition release :: "(wrapped_eval \<Rightarrow> bool) \<Rightarrow> (evaluation \<times> string) list \<Rightarrow>
    (string \<times> wrapped_eval) list \<Rightarrow> (string \<rightharpoonup> string) \<Rightarrow> released" where
  "release P unblocked tracked jobs = fold (release_one P) tracked (unblocked, tracked, jobs, 0)"

type_synonym range_order = "(evaluation \<times> string) list \<Rightarrow> (evaluation \<times> string) list"

definition unblock :: "range_order \<Rightarrow> string \<Rightarrow> nat \<Rightarrow> blocked_evals \<Rightarrow> blocked_evals" where
  "unblock order computedClass index b =
     (if \<not> be_enabled b then b
      else
        let (unblocked, escaped, jobs, _) = release (\<lambda>_. True) [] (be_escaped b) (be_jobs b);
            (unblocked, captured, jobs, _) =
              release (\<lambda>w. map_of (ev_ClassEligibility (we_eval w)) computedClass \<noteq> Some False)
                unblocked (be_captured b) jobs;
            b1 = b\<lparr>be_escaped := escaped, be_captured := captured, be_jobs := jobs\<rparr>
        in if length unblocked \<noteq> 0
           then b1\<lparr>be_TotalEscaped := 0, be_TotalBlocked := be_TotalBlocked b1 - int (length unblocked),
                   be_evalBroker := EnqueueAll (order unblocked) (be_evalBroker b1)\<rparr>
           else b1)"

text \<open>One round of the loop of \<open>watchCapacity\<close> on a capacity change: the receive, then the call.\<close>

definition watchCapacity_receive :: "blocked_evals \<Rightarrow> blocked_evals option" where
  "watchCapacity_receive b =
     (case be_capacityChangeCh b of
        [] \<Rightarrow> None
      | u # us \<Rightarrow> Some (b\<lparr>be_capacityChangeCh := us, be_received := be_received b @ [u]\<rparr>))"

definition watchCapacity_unblock :: "range_order \<Rightarrow> capacity_update \<Rightarrow> blocked_evals \<Rightarrow> blocked_evals option" where
  "watchCapacity_unblock order u b =
     (if u \<in> set (be_received b)
      then Some (unblock order (cu_computedClass u) (cu_index u) (b\<lparr>be_received := remove1 u (be_received b)\<rparr>))
      else None)"

definition UnblockFailed :: "range_order \<Rightarrow> blocked_evals \<Rightarrow> blocked_evals" where
  "UnblockFailed order b =
     (if \<not> be_enabled b then b
      else
        let P = (\<lambda>w. ev_TriggeredBy (we_eval w) = EvalTriggerMaxPlans);
            (unblocked, captured, jobs, _) = release P [] (be_captured b) (be_jobs b);
            (unblocked, escaped, jobs, n) = release P unblocked (be_escaped b) jobs;
            b1 = b\<lparr>be_captured := captured, be_escaped := escaped, be_jobs := jobs,
                   be_TotalEscaped := be_TotalEscaped b - int n\<rparr>
        in if length unblocked > 0
           then b1\<lparr>be_TotalBlocked := be_TotalBlocked b1 - int (length unblocked),
                   be_evalBroker := EnqueueAll (order unblocked) (be_evalBroker b1)\<rparr>
           else b1)"

text \<open>
  One pass of \<open>GetDuplicates\<close>: the duplicates, when there are any; else the caller waits for the
  duplicate channel, whose signal it consumes.
\<close>

definition GetDuplicates :: "blocked_evals \<Rightarrow> evaluation list \<times> blocked_evals" where
  "GetDuplicates b =
     (if length (be_duplicates b) \<noteq> 0 then (be_duplicates b, b\<lparr>be_duplicates := []\<rparr>)
      else ([], b\<lparr>be_duplicateCh := False\<rparr>))"

definition be_Stats :: "blocked_evals \<Rightarrow> int \<times> int" where
  "be_Stats b = (be_TotalEscaped b, be_TotalBlocked b)"

section \<open>The release loop\<close>

lemma release_one_simps [simp]:
  "release_one P (x, w) (u, m, jobs, n) =
     (if P w then (amap_put (we_eval w) (we_token w) u, amap_del x m, jobs(ev_JobID (we_eval w) := None), n + 1)
      else (u, m, jobs, n))"
  by (simp add: release_one_def)

lemma put_fresh: "k \<notin> fst ` set m \<Longrightarrow> AList.update k v m = m @ [(k, v)]"
  by (induction m) auto

lemma del_filter: "AList.delete k m = filter (\<lambda>(x, _). x \<noteq> k) m"
  by (induction m) auto

definition handed :: "(string \<times> wrapped_eval) list \<Rightarrow> (evaluation \<times> string) list" where
  "handed es = map (\<lambda>(_, w). (we_eval w, we_token w)) es"

definition entry_jobs :: "(string \<times> wrapped_eval) list \<Rightarrow> string set" where
  "entry_jobs es = (\<lambda>(_, w). ev_JobID (we_eval w)) ` set es"

lemma fold_release:
  assumes "distinct (map fst (u @ handed (filter (P \<circ> snd) es)))"
  shows "fold (release_one P) es (u, m, jobs, n) =
    (u @ handed (filter (P \<circ> snd) es), filter (\<lambda>(x, _). x \<notin> fst ` set (filter (P \<circ> snd) es)) m,
     jobs |` (- entry_jobs (filter (P \<circ> snd) es)), n + length (filter (P \<circ> snd) es))"
  using assms
proof (induction es arbitrary: u m jobs n)
  case Nil
  then show ?case by (simp add: handed_def entry_jobs_def case_prod_unfold)
next
  case (Cons p es)
  obtain x w where p: "p = (x, w)" by (cases p)
  show ?case
  proof (cases "P w")
    case False
    with Cons show ?thesis by (simp add: p)
  next
    case True
    let ?u = "u @ [(we_eval w, we_token w)]"
    from Cons.prems True have fresh: "we_eval w \<notin> fst ` set u" by (auto simp: p handed_def)
    from Cons.prems True have d: "distinct (map fst (?u @ handed (filter (P \<circ> snd) es)))"
      by (simp add: p handed_def o_def)
    have j: "(jobs(ev_JobID (we_eval w) := None)) |` (- entry_jobs (filter (P \<circ> snd) es)) =
        jobs |` (- entry_jobs (filter (P \<circ> snd) (p # es)))"
      using True by (auto simp: p entry_jobs_def restrict_map_def fun_eq_iff)
    have f: "filter (\<lambda>(y, _). y \<notin> fst ` set (filter (P \<circ> snd) es)) (amap_del x m) =
        filter (\<lambda>(y, _). y \<notin> fst ` set (filter (P \<circ> snd) (p # es))) m"
      using True by (auto simp: p del_filter intro!: filter_cong)
    have "fold (release_one P) (p # es) (u, m, jobs, n) =
        fold (release_one P) es (?u, amap_del x m, jobs(ev_JobID (we_eval w) := None), n + 1)"
      using True by (simp add: p put_fresh [OF fresh] del: fun_upd_apply)
    also have "\<dots> = (u @ handed (filter (P \<circ> snd) (p # es)),
        filter (\<lambda>(y, _). y \<notin> fst ` set (filter (P \<circ> snd) (p # es))) m,
        jobs |` (- entry_jobs (filter (P \<circ> snd) (p # es))), n + length (filter (P \<circ> snd) (p # es)))"
      unfolding Cons.IH [OF d] j f using True by (simp add: p handed_def)
    finally show ?thesis .
  qed
qed

lemma filter_unselected:
  assumes "distinct (map fst es)"
  shows "filter (\<lambda>(x, _). x \<notin> fst ` set (filter Q es)) es = filter (Not \<circ> Q) es"
proof (rule filter_cong [OF refl])
  fix p assume p: "p \<in> set es"
  have "Q p" if "q \<in> set es" "Q q" "fst p = fst q" for q
    using that p assms by (metis eq_key_imp_eq_value prod.collapse)
  then show "(case p of (x, _) \<Rightarrow> x \<notin> fst ` set (filter Q es)) \<longleftrightarrow> (Not \<circ> Q) p"
    using p by (auto simp: image_iff)
qed

lemma release_eq:
  assumes "distinct (map fst es)" "distinct (map fst (u @ handed (filter (P \<circ> snd) es)))"
  shows "release P u es jobs =
    (u @ handed (filter (P \<circ> snd) es), filter (Not \<circ> (P \<circ> snd)) es,
     jobs |` (- entry_jobs (filter (P \<circ> snd) es)), length (filter (P \<circ> snd) es))"
  unfolding release_def fold_release [OF assms(2)] filter_unselected [OF assms(1)] by simp


section \<open>Missed unblocks\<close>

text \<open>A capacity change of a node class may let the evaluation progress.\<close>

definition could_use :: "evaluation \<Rightarrow> string \<Rightarrow> bool" where
  "could_use e cls \<longleftrightarrow> ev_EscapedComputedClass e \<or> map_of (ev_ClassEligibility e) cls \<noteq> Some False"

lemma missed_loop_iff:
  "missed_loop e idx mx \<longleftrightarrow> (\<exists>(c, i) \<in> set idx. ev_SnapshotIndex e < i \<and> could_use e c) \<or>
     (ev_EscapedComputedClass e \<and> ev_SnapshotIndex e < mx)"
proof (induction e idx mx rule: missed_loop.induct)
  case (2 eval cls index rest mx)
  consider "map_of (ev_ClassEligibility eval) cls = None" | "map_of (ev_ClassEligibility eval) cls = Some True"
    | "map_of (ev_ClassEligibility eval) cls = Some False"
    by (metis (full_types) not_None_eq)
  then show ?case using 2 by cases (auto simp: could_use_def Let_def)
qed simp

section \<open>Invariant\<close>

abbreviation tracked :: "blocked_evals \<Rightarrow> (string \<times> wrapped_eval) list" where
  "tracked b \<equiv> be_captured b @ be_escaped b"

text \<open>Updates that \<open>Unblock\<close> announced and \<open>watchCapacity\<close> has not handled yet.\<close>

definition pending_updates :: "blocked_evals \<Rightarrow> capacity_update set" where
  "pending_updates b = set (be_capacityChangeCh b) \<union> set (be_sending b) \<union> set (be_received b)"

definition entry_ok :: "(string \<Rightarrow> string) \<Rightarrow> string \<Rightarrow> wrapped_eval \<Rightarrow> bool" where
  "entry_ok job_of x w \<longleftrightarrow> ev_ID (we_eval w) = x \<and> x \<noteq> '''' \<and> ev_JobID (we_eval w) = job_of x"

definition inv_entries :: "(string \<Rightarrow> string) \<Rightarrow> blocked_evals \<Rightarrow> bool" where
  "inv_entries job_of b \<longleftrightarrow> distinct (map fst (tracked b)) \<and> (\<forall>x w. (x, w) \<in> set (tracked b) \<longrightarrow> entry_ok job_of x w) \<and>
     (\<forall>x w. (x, w) \<in> set (be_captured b) \<longrightarrow> \<not> ev_EscapedComputedClass (we_eval w)) \<and>
     (\<forall>x w. (x, w) \<in> set (be_escaped b) \<longrightarrow> ev_EscapedComputedClass (we_eval w))"

definition inv_slots :: "(string \<Rightarrow> string) \<Rightarrow> blocked_evals \<Rightarrow> bool" where
  "inv_slots job_of b \<longleftrightarrow> (\<forall>j x. be_jobs b j = Some x \<longleftrightarrow> x \<in> fst ` set (tracked b) \<and> job_of x = j)"

definition inv_totals :: "blocked_evals \<Rightarrow> bool" where
  "inv_totals b \<longleftrightarrow> be_TotalBlocked b = int (length (tracked b)) \<and> be_TotalEscaped b = int (length (be_escaped b))"

text \<open>A tracked evaluation that a recorded capacity change could help has the change still pending.\<close>

definition inv_wakeup :: "blocked_evals \<Rightarrow> bool" where
  "inv_wakeup b \<longleftrightarrow> (\<forall>x w c i. (x, w) \<in> set (tracked b) \<longrightarrow>
     map_of (be_unblockIndexes b) c = Some i \<longrightarrow> ev_SnapshotIndex (we_eval w) < i \<longrightarrow> could_use (we_eval w) c \<longrightarrow>
     (\<exists>u \<in> pending_updates b. cu_computedClass u = c))"

definition blocked_inv :: "(string \<Rightarrow> string) \<Rightarrow> blocked_evals \<Rightarrow> bool" where
  "blocked_inv job_of b \<longleftrightarrow> inv_entries job_of b \<and> inv_slots job_of b \<and> inv_totals b \<and> inv_wakeup b \<and>
     distinct (map fst (be_unblockIndexes b)) \<and>
     (\<not> be_enabled b \<longrightarrow> tracked b = [])"

lemmas blocked_inv_defs = blocked_inv_def inv_entries_def inv_slots_def inv_totals_def inv_wakeup_def

lemma blocked_invI:
  assumes "inv_entries job_of b" "inv_slots job_of b" "inv_totals b" "inv_wakeup b"
    "distinct (map fst (be_unblockIndexes b))" "\<not> be_enabled b \<Longrightarrow> tracked b = []"
  shows "blocked_inv job_of b"
  using assms by (simp add: blocked_inv_def)

lemma blocked_invD:
  assumes "blocked_inv job_of b"
  shows "inv_entries job_of b" "inv_slots job_of b" "inv_totals b" "inv_wakeup b"
    "distinct (map fst (be_unblockIndexes b))" "\<not> be_enabled b \<Longrightarrow> tracked b = []"
  using assms by (simp_all add: blocked_inv_def)

lemma entry_job: "inv_entries job_of b \<Longrightarrow> (x, w) \<in> set (tracked b) \<Longrightarrow> entry_ok job_of x w"
  by (auto simp: inv_entries_def)

lemma tracked_distinct_evals:
  assumes "inv_entries job_of b"
  shows "distinct (map fst (handed (tracked b)))"
proof -
  have "map ev_ID (map fst (handed (tracked b))) = map fst (tracked b)"
    unfolding handed_def map_map
    by (rule map_cong [OF refl]) (use assms in \<open>auto simp: inv_entries_def entry_ok_def\<close>)
  then show ?thesis using assms by (metis distinct_map inv_entries_def)
qed

section \<open>Preservation\<close>

lemma processBlock_tracks:
  assumes inv: "blocked_inv job_of b" and new: "be_jobs b (ev_JobID e) = None" "\<not> missedUnblock b e"
    and e: "ev_JobID e = job_of (ev_ID e)" "ev_ID e \<noteq> ''''" and en: "be_enabled b"
  shows "blocked_inv job_of (processBlock e token b)"
proof -
  let ?w = "\<lparr>we_eval = e, we_token = token\<rparr>" and ?b = "processBlock e token b"
  note I = blocked_invD [OF inv]
  have fresh: "ev_ID e \<notin> fst ` set (tracked b)"
    using I(2) new(1) e(1) by (metis inv_slots_def option.distinct(1))
  then have put: "amap_put (ev_ID e) ?w (be_captured b) = be_captured b @ [(ev_ID e, ?w)]"
    "amap_put (ev_ID e) ?w (be_escaped b) = be_escaped b @ [(ev_ID e, ?w)]"
    by (auto intro!: put_fresh)
  have tr: "set (tracked ?b) = insert (ev_ID e, ?w) (set (tracked b))"
    and ln: "length (tracked ?b) = Suc (length (tracked b))"
    and dk: "distinct (map fst (tracked ?b))"
    and cap: "set (be_captured ?b) \<subseteq> (if ev_EscapedComputedClass e then {} else {(ev_ID e, ?w)}) \<union> set (be_captured b)"
    and esc: "set (be_escaped ?b) \<subseteq> (if ev_EscapedComputedClass e then {(ev_ID e, ?w)} else {}) \<union> set (be_escaped b)"
    and fields: "be_jobs ?b = (be_jobs b)(ev_JobID e \<mapsto> ev_ID e)" "be_unblockIndexes ?b = be_unblockIndexes b"
      "be_evalBroker ?b = be_evalBroker b" "be_TotalBlocked ?b = be_TotalBlocked b + 1"
      "be_TotalEscaped ?b - int (length (be_escaped ?b)) = be_TotalEscaped b - int (length (be_escaped b))"
      "pending_updates ?b = pending_updates b" "be_enabled ?b"
    using new en fresh I(1) by (auto simp: processBlock_def Let_def put inv_entries_def pending_updates_def)
  show ?thesis
  proof (rule blocked_invI)
    show "inv_entries job_of ?b" unfolding inv_entries_def
    proof (intro conjI)
      show "\<forall>x w. (x, w) \<in> set (tracked ?b) \<longrightarrow> entry_ok job_of x w"
        unfolding tr using I(1) e by (auto simp: inv_entries_def entry_ok_def)
    qed (use dk cap esc I(1) in \<open>auto simp: inv_entries_def split: if_splits\<close>)
    have other: "job_of x \<noteq> ev_JobID e" if "x \<in> fst ` set (tracked b)" for x
      using I(2) new(1) that by (metis inv_slots_def option.distinct(1))
    show "inv_slots job_of ?b" unfolding inv_slots_def tr fields(1)
    proof (intro allI)
      fix j x
      show "((be_jobs b)(ev_JobID e \<mapsto> ev_ID e)) j = Some x \<longleftrightarrow>
          x \<in> fst ` insert (ev_ID e, ?w) (set (tracked b)) \<and> job_of x = j"
        using I(2) [unfolded inv_slots_def, rule_format, of j x] other [of x] e(1) by auto
    qed
    show "inv_totals ?b" using I(3) fields(4,5) ln by (simp add: inv_totals_def)
    have idx: "\<not> (ev_SnapshotIndex e < i \<and> could_use e c)" if "map_of (be_unblockIndexes b) c = Some i" for c i
      using new(2) map_of_SomeD [OF that] by (auto simp: missedUnblock_def missed_loop_iff)
    show "inv_wakeup ?b" unfolding inv_wakeup_def tr fields(2,6)
      using I(4) idx by (auto simp: inv_wakeup_def)
  qed (use I(5,6) fields in auto)
qed

lemma blocked_inv_cong:
  assumes "be_captured b' = be_captured b" "be_escaped b' = be_escaped b" "be_jobs b' = be_jobs b"
    "be_enabled b' = be_enabled b"
    "be_TotalBlocked b' = be_TotalBlocked b" "be_TotalEscaped b' = be_TotalEscaped b"
    "be_unblockIndexes b' = be_unblockIndexes b" "pending_updates b' = pending_updates b"
    "blocked_inv job_of b"
  shows "blocked_inv job_of b'"
  using assms by (simp add: blocked_inv_defs)

lemma processBlock_inv:
  assumes inv: "blocked_inv job_of b" and e: "ev_JobID e = job_of (ev_ID e)" "ev_ID e \<noteq> ''''"
  shows "blocked_inv job_of (processBlock e token b)"
proof (cases "be_enabled b \<and> be_jobs b (ev_JobID e) = None \<and> \<not> missedUnblock b e")
  case True
  then show ?thesis using processBlock_tracks [OF inv _ _ e] by blast
next
  case False
  then have "be_captured (processBlock e token b) = be_captured b" "be_escaped (processBlock e token b) = be_escaped b"
    "be_jobs (processBlock e token b) = be_jobs b" "be_enabled (processBlock e token b) = be_enabled b"
    "be_TotalBlocked (processBlock e token b) = be_TotalBlocked b"
    "be_TotalEscaped (processBlock e token b) = be_TotalEscaped b"
    "be_unblockIndexes (processBlock e token b) = be_unblockIndexes b"
    "pending_updates (processBlock e token b) = pending_updates b"
    using e by (auto simp: processBlock_def pending_updates_def)
  then show ?thesis using inv by (rule blocked_inv_cong)
qed


text \<open>Dropping entries: what the removing operations have in common.\<close>

lemma shrink_inv:
  assumes inv: "blocked_inv job_of b"
    and cap: "be_captured b' = filter K (be_captured b)" and esc: "be_escaped b' = filter K (be_escaped b)"
    and jobs: "be_jobs b' = be_jobs b |` (- entry_jobs (filter (Not \<circ> K) (tracked b)))"
    and en: "be_enabled b' = be_enabled b" and totals: "inv_totals b'" and idx: "be_unblockIndexes b' = be_unblockIndexes b"
    and handled: "\<And>u x w. u \<in> pending_updates b - pending_updates b' \<Longrightarrow> (x, w) \<in> set (tracked b) \<Longrightarrow> K (x, w) \<Longrightarrow>
      \<not> could_use (we_eval w) (cu_computedClass u)"
  shows "blocked_inv job_of b'"
proof (rule blocked_invI)
  note I = blocked_invD [OF inv]
  have tr: "tracked b' = filter K (tracked b)" by (simp add: cap esc)
  have dk: "distinct (map fst (tracked b))" using I(1) by (simp add: inv_entries_def)
  show "inv_entries job_of b'" unfolding inv_entries_def tr
    using I(1) distinct_map_filter [OF dk] by (auto simp: inv_entries_def cap esc)
  have job: "ev_JobID (we_eval w) = job_of x" if "(x, w) \<in> set (tracked b)" for x w
    using entry_job [OF I(1) that] by (simp add: entry_ok_def)
  have slot: "be_jobs b j = Some x \<longleftrightarrow> x \<in> fst ` set (tracked b) \<and> job_of x = j" for j x
    using I(2) by (simp add: inv_slots_def)
  show "inv_slots job_of b'" unfolding inv_slots_def
  proof (intro allI iffI)
    fix j x assume a: "be_jobs b' j = Some x"
    then have j: "j \<notin> entry_jobs (filter (Not \<circ> K) (tracked b))" and x: "be_jobs b j = Some x"
      by (auto simp: jobs restrict_map_def split: if_splits)
    from x slot obtain w where w: "(x, w) \<in> set (tracked b)" and xj: "job_of x = j" by fastforce
    with j job [OF w] have "K (x, w)" by (auto simp: entry_jobs_def)
    with w xj show "x \<in> fst ` set (tracked b') \<and> job_of x = j" unfolding tr by force
  next
    fix j x assume a: "x \<in> fst ` set (tracked b') \<and> job_of x = j"
    then obtain w where w: "(x, w) \<in> set (tracked b)" "K (x, w)" unfolding tr by (auto simp del: set_append filter_append)
    then have x: "be_jobs b j = Some x" using a slot by force
    have "j \<notin> entry_jobs (filter (Not \<circ> K) (tracked b))"
    proof
      assume "j \<in> entry_jobs (filter (Not \<circ> K) (tracked b))"
      then obtain y v where y: "(y, v) \<in> set (tracked b)" "\<not> K (y, v)" "ev_JobID (we_eval v) = j"
        by (auto simp: entry_jobs_def)
      then have "be_jobs b j = Some y" using slot job by force
      with x have "y = x" by simp
      with y w dk show False by (metis map_of_is_SomeI option.inject)
    qed
    with x show "be_jobs b' j = Some x" by (simp add: jobs)
  qed
  show "inv_wakeup b'" unfolding inv_wakeup_def tr idx
  proof (intro allI impI)
    fix x w c i
    assume a: "(x, w) \<in> set (filter K (tracked b))" "map_of (be_unblockIndexes b) c = Some i"
      "ev_SnapshotIndex (we_eval w) < i" "could_use (we_eval w) c"
    from a(1) have w: "(x, w) \<in> set (tracked b)" "K (x, w)" by auto
    obtain u where u: "u \<in> pending_updates b" "cu_computedClass u = c"
      using I(4) [unfolded inv_wakeup_def, rule_format, OF w(1) a(2-4)] by blast
    with handled [of u x w] a(4) w show "\<exists>u \<in> pending_updates b'. cu_computedClass u = c" by auto
  qed
qed (use totals idx en cap esc blocked_invD(5,6) [OF inv] in auto)

text \<open>The specification of \<open>unblock\<close>: exactly the evaluations that could use the class leave, all of them for the broker.\<close>

definition unblock_spec :: "(evaluation \<Rightarrow> bool) \<Rightarrow> blocked_evals \<Rightarrow> blocked_evals" where
  "unblock_spec P b =
     (let gone = filter (\<lambda>(_, w). P (we_eval w)); keep = filter (\<lambda>(_, w). \<not> P (we_eval w)) in
      b\<lparr>be_captured := keep (be_captured b), be_escaped := keep (be_escaped b),
        be_jobs := be_jobs b |` (- entry_jobs (gone (tracked b))),
        be_TotalBlocked := int (length (keep (tracked b))), be_TotalEscaped := int (length (keep (be_escaped b)))\<rparr>)"

definition unblocked_evals :: "(evaluation \<Rightarrow> bool) \<Rightarrow> (string \<times> wrapped_eval) list \<Rightarrow> (evaluation \<times> string) list" where
  "unblocked_evals P es = handed (filter (\<lambda>(_, w). P (we_eval w)) es)"

lemma unblocked_evals_append [simp]: "unblocked_evals P (xs @ ys) = unblocked_evals P xs @ unblocked_evals P ys"
  by (simp add: unblocked_evals_def handed_def)

lemma EnqueueAll_Nil [simp]: "EnqueueAll [] b = b"
  by (simp add: EnqueueAll_def)

lemma spec_inv:
  assumes inv: "blocked_inv job_of b"
    and ch: "be_unblockIndexes b' = be_unblockIndexes b" "be_evalBroker b' = be_evalBroker b"
      "be_captured b' = be_captured b" "be_escaped b' = be_escaped b" "be_jobs b' = be_jobs b"
      "be_enabled b' = be_enabled b"
    and handled: "\<And>u x w. u \<in> pending_updates b - pending_updates b' \<Longrightarrow> (x, w) \<in> set (tracked b) \<Longrightarrow> \<not> P (we_eval w) \<Longrightarrow>
      \<not> could_use (we_eval w) (cu_computedClass u)"
  shows "blocked_inv job_of ((unblock_spec P b')\<lparr>be_evalBroker := br\<rparr>)"
    (is "blocked_inv job_of ?b")
proof (rule shrink_inv [OF inv, where K = "\<lambda>(_, w). \<not> P (we_eval w)"])
  note I = blocked_invD [OF inv]
  have neg: "Not \<circ> (\<lambda>(_, w). \<not> P (we_eval w)) = (\<lambda>(_, w). P (we_eval w))" by auto
  show "be_jobs ?b = be_jobs b |` (- entry_jobs (filter (Not \<circ> (\<lambda>(_, w). \<not> P (we_eval w))) (tracked b)))"
    by (simp add: unblock_spec_def Let_def ch neg)
  have pu: "pending_updates ?b = pending_updates b'" by (simp add: unblock_spec_def Let_def pending_updates_def)
  show "\<not> could_use (we_eval w) (cu_computedClass u)"
    if "u \<in> pending_updates b - pending_updates ?b" "(x, w) \<in> set (tracked b)" "case (x, w) of (_, w) \<Rightarrow> \<not> P (we_eval w)" for u x w
    using handled [of u x w] that by (simp add: pu)
qed (simp_all add: unblock_spec_def Let_def inv_totals_def ch)


lemma handed_distinct:
  assumes "inv_entries job_of b"
  shows "distinct (map fst (handed (filter Q (be_escaped b)) @ handed (filter R (be_captured b))))"
    and "distinct (map fst (handed (filter Q (be_captured b)) @ handed (filter R (be_escaped b))))"
proof -
  let ?f = "\<lambda>p. we_eval (snd p)"
  have h: "map fst (handed es) = map ?f es" for es by (auto simp: handed_def)
  have "inj_on ?f (set (tracked b))" "distinct (tracked b)"
    using tracked_distinct_evals [OF assms] unfolding h distinct_map by auto
  then show "distinct (map fst (handed (filter Q (be_escaped b)) @ handed (filter R (be_captured b))))"
    "distinct (map fst (handed (filter Q (be_captured b)) @ handed (filter R (be_escaped b))))"
    unfolding map_append h distinct_append distinct_map
    by (auto simp: inj_on_def dest!: inj_onD)
qed

lemma entry_jobs_Un: "entry_jobs (xs @ ys) = entry_jobs xs \<union> entry_jobs ys"
  by (auto simp: entry_jobs_def)

lemma length_handed [simp]: "length (handed es) = length es"
  by (simp add: handed_def)

lemma length_split: "length (filter P es) + length (filter (Not \<circ> P) es) = length es"
  using sum_length_filter_compl [of P es] by (simp add: o_def)

lemma unblock_eq:
  assumes inv: "blocked_inv job_of b" and en: "be_enabled b"
  shows "unblock order c i b = (unblock_spec (\<lambda>e. could_use e c) b)\<lparr>be_evalBroker :=
    (if unblocked_evals (\<lambda>e. could_use e c) (be_escaped b @ be_captured b) = [] then be_evalBroker b
     else EnqueueAll (order (unblocked_evals (\<lambda>e. could_use e c) (be_escaped b @ be_captured b))) (be_evalBroker b))\<rparr>"
proof -
  note I = blocked_invD [OF inv]
  let ?P = "\<lambda>w. map_of (ev_ClassEligibility (we_eval w)) c \<noteq> Some False" and ?U = "\<lambda>(_, w). could_use (we_eval w) c"
  have dk: "distinct (map fst (be_escaped b))" "distinct (map fst (be_captured b))"
    using I(1) by (auto simp: inv_entries_def)
  have tt: "(\<lambda>_. True) \<circ> snd = (\<lambda>_ :: string \<times> wrapped_eval. True)" by auto
  have cap: "filter (?P \<circ> snd) (be_captured b) = filter ?U (be_captured b)"
    "filter (Not \<circ> (?P \<circ> snd)) (be_captured b) = filter (\<lambda>(_, w). \<not> could_use (we_eval w) c) (be_captured b)"
    using I(1) by (auto simp: inv_entries_def could_use_def intro!: filter_cong)
  have esc: "filter ?U (be_escaped b) = be_escaped b"
    "filter (\<lambda>(_, w). \<not> could_use (we_eval w) c) (be_escaped b) = []"
    using I(1) by (auto simp: inv_entries_def could_use_def filter_id_conv filter_empty_conv)
  have r1: "release (\<lambda>_. True) [] (be_escaped b) (be_jobs b) =
      (handed (be_escaped b), [], be_jobs b |` (- entry_jobs (be_escaped b)), length (be_escaped b))"
    using release_eq [OF dk(1), where P = "\<lambda>_. True" and u = "[]"] handed_distinct(1) [OF I(1), of "\<lambda>_. True" "\<lambda>_. True"]
    by (simp add: tt)
  have r2: "release ?P (handed (be_escaped b)) (be_captured b) jobs =
      (handed (be_escaped b) @ handed (filter ?U (be_captured b)),
       filter (\<lambda>(_, w). \<not> could_use (we_eval w) c) (be_captured b),
       jobs |` (- entry_jobs (filter ?U (be_captured b))), length (filter ?U (be_captured b)))" for jobs
    using release_eq [OF dk(2), where P = ?P and u = "handed (be_escaped b)"]
      handed_distinct(1) [OF I(1), of "\<lambda>_. True" "?P \<circ> snd"] by (simp add: cap)
  let ?n = "length (be_escaped b) + length (filter ?U (be_captured b))"
  have len: "length (be_captured b) + length (be_escaped b) - ?n =
      length (filter (\<lambda>(_, w). \<not> could_use (we_eval w) c) (be_captured b))"
    and le: "?n \<le> length (be_captured b) + length (be_escaped b)"
    using length_split [of "?P \<circ> snd" "be_captured b"] by (simp_all add: cap)
  have tot: "be_TotalBlocked b = int (length (be_captured b) + length (be_escaped b))" "be_TotalEscaped b = int (length (be_escaped b))"
    using I(3) by (simp_all add: inv_totals_def)
  show ?thesis
    unfolding unblock_def r1 Let_def prod.case r2
    using en len le
    by (intro blocked_evals.equality)
      (auto simp: cap esc unblock_spec_def unblocked_evals_def Let_def tot handed_def
        entry_jobs_Un restrict_restrict Int_commute of_nat_diff [symmetric] simp del: of_nat_add)
qed


lemma UnblockFailed_eq:
  assumes inv: "blocked_inv job_of b" and en: "be_enabled b"
  shows "UnblockFailed order b = (unblock_spec (\<lambda>e. ev_TriggeredBy e = EvalTriggerMaxPlans) b)\<lparr>be_evalBroker :=
    (if unblocked_evals (\<lambda>e. ev_TriggeredBy e = EvalTriggerMaxPlans) (tracked b) = [] then be_evalBroker b
     else EnqueueAll (order (unblocked_evals (\<lambda>e. ev_TriggeredBy e = EvalTriggerMaxPlans) (tracked b))) (be_evalBroker b))\<rparr>"
proof -
  note I = blocked_invD [OF inv]
  let ?P = "\<lambda>w. ev_TriggeredBy (we_eval w) = EvalTriggerMaxPlans"
  have dk: "distinct (map fst (be_escaped b))" "distinct (map fst (be_captured b))"
    using I(1) by (auto simp: inv_entries_def)
  have P: "?P \<circ> snd = (\<lambda>(_ :: string, w). ?P w)" "Not \<circ> (\<lambda>(_ :: string, w). ?P w) = (\<lambda>(_, w). \<not> ?P w)" by auto
  have r1: "release ?P [] (be_captured b) (be_jobs b) = (handed (filter (\<lambda>(_, w). ?P w) (be_captured b)),
      filter (\<lambda>(_, w). \<not> ?P w) (be_captured b), be_jobs b |` (- entry_jobs (filter (\<lambda>(_, w). ?P w) (be_captured b))),
      length (filter (\<lambda>(_, w). ?P w) (be_captured b)))"
    using release_eq [OF dk(2), where P = ?P and u = "[]"] handed_distinct(2) [OF I(1), of "?P \<circ> snd" "\<lambda>_. True"] by (simp add: P)
  have r2: "release ?P (handed (filter (\<lambda>(_, w). ?P w) (be_captured b))) (be_escaped b) jobs =
      (handed (filter (\<lambda>(_, w). ?P w) (be_captured b)) @ handed (filter (\<lambda>(_, w). ?P w) (be_escaped b)),
       filter (\<lambda>(_, w). \<not> ?P w) (be_escaped b), jobs |` (- entry_jobs (filter (\<lambda>(_, w). ?P w) (be_escaped b))),
       length (filter (\<lambda>(_, w). ?P w) (be_escaped b)))" for jobs
    using release_eq [OF dk(1), where P = ?P and u = "handed (filter (\<lambda>(_, w). ?P w) (be_captured b))"]
      handed_distinct(2) [OF I(1), of "?P \<circ> snd" "?P \<circ> snd"] by (simp add: P)
  have len: "int (length (filter (\<lambda>(_, w). ?P w) es)) = int (length es) - int (length (filter (\<lambda>(_, w). \<not> ?P w) es))"
    for es :: "(string \<times> wrapped_eval) list"
    using length_split [of "\<lambda>(_, w). ?P w" es] by (simp add: P)
  have tot: "be_TotalBlocked b = int (length (be_captured b)) + int (length (be_escaped b))"
    "be_TotalEscaped b = int (length (be_escaped b))"
    using I(3) by (simp_all add: inv_totals_def)
  show ?thesis
    unfolding UnblockFailed_def Let_def r1 prod.case r2 using en len [of "be_captured b"] len [of "be_escaped b"]
    by (intro blocked_evals.equality)
      (auto simp: unblock_spec_def unblocked_evals_def Let_def tot handed_def
        entry_jobs_Un restrict_restrict Int_commute)
qed

lemma unblock_inv:
  assumes inv: "blocked_inv job_of b" and u: "u \<in> set (be_received b)"
  shows "blocked_inv job_of (unblock order (cu_computedClass u) (cu_index u) (b\<lparr>be_received := remove1 u (be_received b)\<rparr>))"
proof (cases "be_enabled b")
  case True
  let ?us = "remove1 u (be_received b)"
  let ?b = "b\<lparr>be_received := ?us\<rparr>" and ?P = "\<lambda>e. could_use e (cu_computedClass u)"
  have eq: "unblock order (cu_computedClass u) (cu_index u) ?b = (unblock order (cu_computedClass u) (cu_index u) b)\<lparr>be_received := ?us\<rparr>"
    by (simp add: unblock_def Let_def split_beta)
  have un: "unblock_spec ?P ?b = (unblock_spec ?P b)\<lparr>be_received := ?us\<rparr>"
    by (simp add: unblock_spec_def Let_def)
  have handled: "v = u" if "v \<in> pending_updates b - pending_updates ?b" for v
    using that by (cases "v = u") (auto simp: pending_updates_def)
  have "blocked_inv job_of ((unblock_spec ?P ?b)\<lparr>be_evalBroker := br\<rparr>)" for br
  proof (rule spec_inv [OF inv])
    show "\<not> could_use (we_eval w) (cu_computedClass v)"
      if "v \<in> pending_updates b - pending_updates ?b" "\<not> could_use (we_eval w) (cu_computedClass u)" for v w
      using that handled by blast
  qed simp_all
  moreover have "r\<lparr>be_received := us, be_evalBroker := x\<rparr> = r\<lparr>be_evalBroker := x, be_received := us\<rparr>"
    for r :: blocked_evals and x us by (cases r) simp
  ultimately show ?thesis unfolding eq unblock_eq [OF inv True] un by simp
next
  case False
  note I = blocked_invD [OF inv]
  have "inv_wakeup (b\<lparr>be_received := us\<rparr>)" for us using I(6) [OF False] by (simp add: inv_wakeup_def)
  then have "blocked_inv job_of (b\<lparr>be_received := us\<rparr>)" for us
    using inv by (simp add: blocked_inv_def inv_entries_def inv_slots_def inv_totals_def)
  then show ?thesis using False by (simp add: unblock_def)
qed

lemma receive_inv:
  assumes inv: "blocked_inv job_of b" and b': "watchCapacity_receive b = Some b'"
  shows "blocked_inv job_of b'"
proof (rule blocked_inv_cong [OF _ _ _ _ _ _ _ _ inv])
  show "pending_updates b' = pending_updates b"
    using b' by (auto simp: watchCapacity_receive_def pending_updates_def split: list.splits)
qed (use b' in \<open>auto simp: watchCapacity_receive_def split: list.splits\<close>)

lemma UnblockFailed_inv:
  assumes inv: "blocked_inv job_of b"
  shows "blocked_inv job_of (UnblockFailed order b)"
proof (cases "be_enabled b")
  case True
  show ?thesis unfolding UnblockFailed_eq [OF inv True] by (rule spec_inv [OF inv]) simp_all
next
  case False
  with inv show ?thesis by (simp add: UnblockFailed_def)
qed

lemma Untrack_inv:
  assumes inv: "blocked_inv job_of b"
  shows "blocked_inv job_of (Untrack jb b)"
proof (cases "be_enabled b \<and> be_jobs b jb \<noteq> None")
  case True
  then obtain x where x: "be_jobs b jb = Some x" by blast
  note I = blocked_invD [OF inv]
  have xt: "x \<in> fst ` set (tracked b)" "job_of x = jb" using I(2) x by (auto simp: inv_slots_def)
  have dk: "distinct (map fst (tracked b))" using I(1) by (simp add: inv_entries_def)
  have wid: "ev_JobID (we_eval w) = jb" if "(x, w) \<in> set (tracked b)" for w
    using entry_job [OF I(1) that] xt(2) by (simp add: entry_ok_def)
  have gone: "entry_jobs (filter (Not \<circ> (\<lambda>(y, _). y \<noteq> x)) (tracked b)) = {jb}"
  proof -
    have "set (filter (Not \<circ> (\<lambda>(y, _). y \<noteq> x)) (tracked b)) = {p \<in> set (tracked b). fst p = x}" by auto
    then show ?thesis using xt(1) wid by (force simp: entry_jobs_def simp del: set_append)
  qed
  have len: "length es = Suc (length (amap_del x es))" if "map_of es x = Some w" "distinct (map fst es)"
    for es and w :: wrapped_eval
    using mset_keys_del [OF that(2,1)] by (metis length_map size_add_mset size_mset)
  have tot: "be_TotalBlocked b = int (length (be_captured b)) + int (length (be_escaped b))"
    "be_TotalEscaped b = int (length (be_escaped b))"
    using I(3) by (simp_all add: inv_totals_def)
  let ?b = "Untrack jb b"
  have fields: "be_captured ?b = amap_del x (be_captured b) \<and> be_escaped ?b = amap_del x (be_escaped b) \<and>
      be_jobs ?b = (be_jobs b)(jb := None) \<and> inv_totals ?b \<and> be_unblockIndexes ?b = be_unblockIndexes b \<and>
      be_evalBroker ?b = be_evalBroker b \<and> pending_updates ?b = pending_updates b \<and> be_enabled ?b = be_enabled b"
  proof (cases "map_of (be_captured b) x")
    case None
    then have "x \<notin> fst ` set (be_captured b)" by (simp add: map_of_eq_None_iff)
    then have "map_of (be_escaped b) x \<noteq> None" using xt(1) by (auto simp: map_of_eq_None_iff)
    then obtain w where w: "map_of (be_escaped b) x = Some w" by blast
    then show ?thesis
      using None True x tot wid [of w] len [OF w] dk map_of_SomeD [OF w]
      by (simp add: Untrack_def del_None inv_totals_def pending_updates_def)
  next
    case (Some w)
    then have "x \<notin> fst ` set (be_escaped b)" using dk map_of_SomeD [OF Some] by force
    then have none: "map_of (be_escaped b) x = None" by (simp add: map_of_eq_None_iff)
    then show ?thesis
      using Some True x tot wid [of w] len [OF Some] dk map_of_SomeD [OF Some]
      by (simp add: Untrack_def del_None inv_totals_def pending_updates_def)
  qed
  show ?thesis
  proof (rule shrink_inv [OF inv, where K = "\<lambda>(y, _). y \<noteq> x"])
    show "be_jobs ?b = be_jobs b |` (- entry_jobs (filter (Not \<circ> (\<lambda>(y, _). y \<noteq> x)) (tracked b)))"
      unfolding gone using fields by (auto simp: restrict_map_def fun_eq_iff)
  qed (use fields in \<open>simp_all add: del_filter\<close>)
next
  case False
  with inv show ?thesis by (auto simp: Untrack_def)
qed

section \<open>The tracker as a system\<close>

text \<open>
  Callers of the tracker, the capacity watcher, and every step of the broker it feeds, in any
  order. \<open>job_of\<close> is the job an evaluation ID belongs to: IDs are unique and an evaluation never
  changes its job. A range order permutes what it ranges over.
\<close>

definition range_order_ok :: "range_order \<Rightarrow> bool" where
  "range_order_ok order \<longleftrightarrow> (\<forall>xs. mset (order xs) = mset xs)"

inductive tracker_step :: "(string \<Rightarrow> string) \<Rightarrow> blocked_evals \<Rightarrow> blocked_evals \<Rightarrow> bool" for job_of where
  block: "ev_JobID e = job_of (ev_ID e) \<Longrightarrow> ev_ID e \<noteq> '''' \<Longrightarrow> tracker_step job_of b (be_Block e b)"
| reblock: "ev_JobID e = job_of (ev_ID e) \<Longrightarrow> ev_ID e \<noteq> '''' \<Longrightarrow> tracker_step job_of b (be_Reblock e token b)"
| untrack: "tracker_step job_of b (Untrack jb b)"
| unblock: "tracker_step job_of b (be_Unblock c i b)"
| send: "be_send u b = Some b' \<Longrightarrow> tracker_step job_of b b'"
| receive: "watchCapacity_receive b = Some b' \<Longrightarrow> tracker_step job_of b b'"
| watch: "range_order_ok order \<Longrightarrow> watchCapacity_unblock order u b = Some b' \<Longrightarrow> tracker_step job_of b b'"
| failed: "range_order_ok order \<Longrightarrow> tracker_step job_of b (UnblockFailed order b)"
| duplicates: "tracker_step job_of b (snd (GetDuplicates b))"
| set_enabled: "tracker_step job_of b (be_SetEnabled enabled b)"
| broker: "broker_step (be_evalBroker b) br \<Longrightarrow> tracker_step job_of b (b\<lparr>be_evalBroker := br\<rparr>)"

definition tracker_reachable :: "(string \<Rightarrow> string) \<Rightarrow> blocked_evals \<Rightarrow> bool" where
  "tracker_reachable job_of b \<longleftrightarrow> (\<exists>br. (tracker_step job_of)\<^sup>*\<^sup>* (NewBlockedEvals br) b)"

lemma flush_inv: "blocked_inv job_of b \<Longrightarrow> blocked_inv job_of (be_Flush (b\<lparr>be_enabled := en\<rparr>))"
  by (simp add: blocked_inv_defs be_Flush_def)

lemma be_Unblock_inv:
  assumes "blocked_inv job_of b"
  shows "blocked_inv job_of (be_Unblock c i b)"
proof -
  have "inv_wakeup (be_Unblock c i b)"
    using blocked_invD(4) [OF assms]
    by (auto simp: inv_wakeup_def be_Unblock_def pending_updates_def simp del: map_of_eq_Some_iff split: if_splits)
  then show ?thesis using assms by (simp add: blocked_inv_def inv_entries_def inv_slots_def inv_totals_def be_Unblock_def)
qed

lemma send_inv:
  assumes "blocked_inv job_of b" "be_send u b = Some b'"
  shows "blocked_inv job_of b'"
proof -
  from assms(2) have u: "u \<in> set (be_sending b)"
    and b': "b' = b\<lparr>be_sending := remove1 u (be_sending b), be_capacityChangeCh := be_capacityChangeCh b @ [u]\<rparr>"
    by (auto simp: be_send_def split: if_splits)
  have "pending_updates b' \<subseteq> pending_updates b" "pending_updates b \<subseteq> pending_updates b'"
    using u by (auto simp: b' pending_updates_def dest: set_remove1_subset [THEN subsetD])
  then have "pending_updates b' = pending_updates b" by blast
  then show ?thesis by (intro blocked_inv_cong [OF _ _ _ _ _ _ _ _ assms(1)]) (simp_all add: b')
qed

lemma tracker_step_inv:
  assumes "tracker_step job_of b b'" "blocked_inv job_of b"
  shows "blocked_inv job_of b'"
  using assms
proof cases
  case (watch order u)
  then show ?thesis using unblock_inv [OF assms(2)] by (auto simp: watchCapacity_unblock_def split: if_splits)
next
  case (duplicates)
  then show ?thesis
    by (intro blocked_inv_cong [OF _ _ _ _ _ _ _ _ assms(2)]) (auto simp: GetDuplicates_def pending_updates_def)
next
  case (set_enabled enabled)
  show ?thesis
  proof (cases "enabled \<and> \<not> be_enabled b")
    case True
    then show ?thesis using assms(2) blocked_invD(6) [OF assms(2)] set_enabled
      by (auto simp: be_SetEnabled_def blocked_inv_defs pending_updates_def)
  next
    case False
    then show ?thesis using assms(2) flush_inv [OF assms(2), of False] set_enabled by (auto simp: be_SetEnabled_def)
  qed
next
  case (broker br)
  then show ?thesis by (intro blocked_inv_cong [OF _ _ _ _ _ _ _ _ assms(2)]) (auto simp: pending_updates_def)
qed (auto simp: be_Block_def be_Reblock_def
    intro: processBlock_inv Untrack_inv be_Unblock_inv send_inv receive_inv UnblockFailed_inv)

lemma tracker_inv:
  assumes "tracker_reachable job_of b"
  shows "blocked_inv job_of b"
proof -
  from assms obtain br where br: "(tracker_step job_of)\<^sup>*\<^sup>* (NewBlockedEvals br) b"
    unfolding tracker_reachable_def by blast
  have "blocked_inv job_of (NewBlockedEvals br)" by (simp add: blocked_inv_defs NewBlockedEvals_def)
  with br show ?thesis by (induction rule: rtranclp_induct) (auto intro: tracker_step_inv)
qed


section \<open>A concrete run\<close>

definition ex_job_of :: "string \<Rightarrow> string" where
  "ex_job_of x = (if x = ''e1'' then ''j1'' else ''j2'')"

definition ex_blocked :: "string \<Rightarrow> bool \<Rightarrow> evaluation" where
  "ex_blocked x escaped = (ex_eval x (ex_job_of x) 50 1)\<lparr>ev_Status := EvalStatusBlocked,
     ev_ClassEligibility := [(''c1'', False), (''c2'', True)], ev_EscapedComputedClass := escaped, ev_SnapshotIndex := 5\<rparr>"

text \<open>One captured and one escaped evaluation; the capacity of class \<open>c2\<close> changed at index 7.\<close>

definition ex_tracker :: blocked_evals where
  "ex_tracker = be_Unblock ''c2'' 7 (be_Block (ex_blocked ''e2'' True) (be_Block (ex_blocked ''e1'' False)
     (be_SetEnabled True (NewBlockedEvals (eb_SetEnabled True ex_new)))))"

lemma tracker_step_reachable: "tracker_reachable job_of b \<Longrightarrow> tracker_step job_of b b' \<Longrightarrow> tracker_reachable job_of b'"
  unfolding tracker_reachable_def by (meson rtranclp.rtrancl_into_rtrancl)

lemma ex_tracker_reachable: "tracker_reachable ex_job_of ex_tracker"
proof -
  have "tracker_reachable ex_job_of (NewBlockedEvals (eb_SetEnabled True ex_new))"
    by (auto simp: tracker_reachable_def)
  note s1 = tracker_step_reachable [OF this tracker_step.set_enabled [of _ _ True]]
  have e: "ev_JobID (ex_blocked x f) = ex_job_of (ev_ID (ex_blocked x f))" "ev_ID (ex_blocked x f) = x" for x f
    by (simp_all add: ex_blocked_def ex_eval_def zero_eval_def)
  have s2: "tracker_reachable ex_job_of b \<Longrightarrow> x \<noteq> '''' \<Longrightarrow> tracker_reachable ex_job_of (be_Block (ex_blocked x f) b)" for x f b
    by (erule tracker_step_reachable) (rule tracker_step.block, simp_all add: e)
  show ?thesis unfolding ex_tracker_def
    by (rule tracker_step_reachable [OF _ tracker_step.unblock]) (intro s2 s1, simp_all)
qed

lemma ex_tracker_state:
  "be_enabled ex_tracker" "be_captured ex_tracker = [(''e1'', \<lparr>we_eval = ex_blocked ''e1'' False, we_token = ''''\<rparr>)]"
  "be_escaped ex_tracker = [(''e2'', \<lparr>we_eval = ex_blocked ''e2'' True, we_token = ''''\<rparr>)]"
  "be_unblockIndexes ex_tracker = [(''c2'', 7)]" "be_sending ex_tracker = [\<lparr>cu_computedClass = ''c2'', cu_index = 7\<rparr>]"
  "be_capacityChangeCh ex_tracker = []"
  by code_simp+

section \<open>Properties\<close>

text \<open>
  C18: the tracker holds at most one evaluation per job, knows it by its job, and its counters are
  exact, in every reachable state.
\<close>

theorem tracker_one_per_job:
  assumes "tracker_reachable job_of b"
  shows "(be_jobs b j = Some x \<longleftrightarrow> (\<exists>w. (x, w) \<in> set (tracked b) \<and> ev_JobID (we_eval w) = j)) \<and>
    distinct (map fst (tracked b)) \<and> be_TotalBlocked b = int (length (tracked b)) \<and>
    be_TotalEscaped b = int (length (be_escaped b))"
proof -
  note I = blocked_invD [OF tracker_inv [OF assms]]
  have "ev_JobID (we_eval w) = job_of y" if "(y, w) \<in> set (tracked b)" for y w
    using entry_job [OF I(1) that] by (simp add: entry_ok_def)
  then have "x \<in> fst ` set (tracked b) \<and> job_of x = j \<longleftrightarrow> (\<exists>w. (x, w) \<in> set (tracked b) \<and> ev_JobID (we_eval w) = j)"
    by (force simp del: set_append)
  then show ?thesis using I(1-3) by (simp add: inv_slots_def inv_entries_def inv_totals_def)
qed

theorem tracker_one_per_job_witness:
  "be_jobs ex_tracker ''j1'' = Some ''e1'' \<and> be_TotalBlocked ex_tracker = 2"
proof -
  have "ev_JobID (ex_blocked ''e1'' False) = ''j1''" by (simp add: ex_blocked_def ex_eval_def ex_job_of_def)
  with tracker_one_per_job [OF ex_tracker_reachable, of "''j1''" "''e1''"] show ?thesis
    by (auto simp: ex_tracker_state)
qed

text \<open>
  C17: no lost wake-up. When a capacity change of a node class was recorded at an index after the
  snapshot a blocked evaluation was scheduled with, and the evaluation could use that class, then
  a capacity update of the class is still on its way to the watcher. Once all updates are handled
  no evaluation stays blocked that newer capacity could serve.
\<close>

theorem tracker_no_lost_wakeup:
  assumes "tracker_reachable job_of b" "(x, w) \<in> set (tracked b)" "map_of (be_unblockIndexes b) cls = Some i"
    "ev_SnapshotIndex (we_eval w) < i" "could_use (we_eval w) cls"
  shows "\<exists>u \<in> pending_updates b. cu_computedClass u = cls"
  using blocked_invD(4) [OF tracker_inv [OF assms(1)]] assms(2-) unfolding inv_wakeup_def by blast

theorem tracker_no_lost_wakeup_witness:
  "ev_SnapshotIndex (ex_blocked ''e1'' False) < 7 \<and> (\<exists>u \<in> pending_updates ex_tracker. cu_computedClass u = ''c2'')"
proof -
  have "ev_SnapshotIndex (ex_blocked ''e1'' False) < 7" "could_use (ex_blocked ''e1'' False) ''c2''"
    by (simp_all add: ex_blocked_def could_use_def)
  with tracker_no_lost_wakeup [OF ex_tracker_reachable, of "''e1''" _ "''c2''" 7] show ?thesis
    by (simp add: ex_tracker_state)
qed

text \<open>
  C19: the two loops of \<open>unblock\<close> implement the set-level specification: exactly the evaluations that
  could use the class leave the tracker, all of them are handed to the broker with their tokens, in whatever
  order the map is ranged over, and the job slots and counters follow.
\<close>

theorem unblock_refines:
  assumes "tracker_reachable job_of b" "be_enabled b"
    "range_order_ok order"
  shows "\<exists>evals. mset evals = mset (unblocked_evals (\<lambda>e. could_use e cls) (tracked b)) \<and>
    unblock order cls i b = (unblock_spec (\<lambda>e. could_use e cls) b)\<lparr>be_evalBroker := EnqueueAll evals (be_evalBroker b)\<rparr>"
proof -
  let ?es = "unblocked_evals (\<lambda>e. could_use e cls) (be_escaped b @ be_captured b)"
  let ?evals = "if ?es = [] then [] else order ?es"
  have "mset ?evals = mset (unblocked_evals (\<lambda>e. could_use e cls) (tracked b))"
    using assms(3) by (simp add: range_order_ok_def)
  moreover have "unblock order cls i b = (unblock_spec (\<lambda>e. could_use e cls) b)\<lparr>be_evalBroker := EnqueueAll ?evals (be_evalBroker b)\<rparr>"
    unfolding unblock_eq [OF tracker_inv [OF assms(1)] assms(2)] by simp
  ultimately show ?thesis by blast
qed

theorem unblock_refines_witness:
  "be_captured (unblock rev ''c1'' 8 ex_tracker) = be_captured ex_tracker \<and> be_escaped (unblock rev ''c1'' 8 ex_tracker) = [] \<and>
   be_evalBroker (unblock rev ''c1'' 8 ex_tracker) = EnqueueAll [(ex_blocked ''e2'' True, '''')] (be_evalBroker ex_tracker)"
proof -
  have cu: "could_use (ex_blocked ''e2'' True) ''c1''" "\<not> could_use (ex_blocked ''e1'' False) ''c1''"
    by (simp_all add: could_use_def ex_blocked_def)
  obtain evals where "mset evals = mset (unblocked_evals (\<lambda>e. could_use e ''c1'') (tracked ex_tracker))"
    and eq: "unblock rev ''c1'' 8 ex_tracker = (unblock_spec (\<lambda>e. could_use e ''c1'') ex_tracker)\<lparr>be_evalBroker :=
      EnqueueAll evals (be_evalBroker ex_tracker)\<rparr>"
    using unblock_refines [OF ex_tracker_reachable ex_tracker_state(1), of rev "''c1''" 8] by (auto simp: range_order_ok_def)
  then have "evals = [(ex_blocked ''e2'' True, '''')]" using cu by (simp add: unblocked_evals_def handed_def ex_tracker_state)
  then show ?thesis unfolding eq using cu by (simp add: unblock_spec_def Let_def ex_tracker_state)
qed

text \<open>
  \<open>missedUnblock\<close> answers true exactly when some recorded capacity change is newer than the
  evaluation's snapshot and of a class the evaluation could use, in any iteration order.
\<close>

theorem missedUnblock_iff:
  "missedUnblock b e \<longleftrightarrow> (\<exists>(c, i) \<in> set (be_unblockIndexes b). ev_SnapshotIndex e < i \<and> could_use e c)"
  by (simp add: missedUnblock_def missed_loop_iff)

lemma put_mem: "(k, v) \<in> set (amap_put k v m)"
  by (induction m) auto

lemma processEnqueue_keeps:
  "eb_enabled b \<Longrightarrow> eb_enabled (processEnqueue e token b) \<and>
     fst ` set (eb_evals (processEnqueue e token b)) = insert (ev_ID e) (fst ` set (eb_evals b))"
  by (auto simp: processEnqueue_def processWaitingEnqueue_def AfterFunc_def Let_def enqueueLocked_frame dom_update
      dest!: map_of_SomeD split: option.splits) force+

lemma EnqueueAll_tracks:
  "eb_enabled b \<Longrightarrow> eb_enabled (EnqueueAll evals b) \<and>
     fst ` set (eb_evals (EnqueueAll evals b)) = (ev_ID \<circ> fst) ` set evals \<union> fst ` set (eb_evals b)"
  unfolding EnqueueAll_def
proof (induction evals arbitrary: b)
  case (Cons p evals)
  then show ?case using processEnqueue_keeps [of b "fst p" "snd p"] by (auto simp: case_prod_beta)
qed simp

text \<open>An evaluation that was handed to an enabled broker of an orderly run is in exactly one place there.\<close>

lemma handed_located:
  assumes "broker_reachable b" "eb_enabled b" "list_all (\<lambda>(e, _). ev_ID e \<noteq> '''') evals" "(e, t) \<in> set evals"
  shows "count (located (EnqueueAll evals b)) (ev_ID e) = 1"
proof -
  let ?b = "EnqueueAll evals b"
  have en: "eb_enabled ?b" "ev_ID e \<in> fst ` set (eb_evals ?b)"
    using EnqueueAll_tracks [OF assms(2), of evals] assms(4) by force+
  have "broker_reachable ?b"
    by (rule step_reachable [OF assms(1) broker_step.enqueue_all [OF assms(3)]]) (use assms(2) in simp)
  then have "inv_keys [] ?b" using enabled_inv en(1) by (simp add: broker_inv_def inv_mid_def)
  then show ?thesis using en(2) by (simp add: inv_keys_def distinct_count_atmost_1)
qed

text \<open>
  C20: the tracker and the broker together lose no evaluation. When the broker behind a reachable tracker is
  enabled and has had an orderly run, a tracked evaluation is, after \<open>unblock\<close> or \<open>UnblockFailed\<close>, still tracked or
  in exactly one place of the broker; and an evaluation that an enabled tracker is asked to block is tracked, among the
  duplicates, or in exactly one place of the broker.
\<close>

theorem tracker_hands_over:
  assumes "tracker_reachable job_of b" "broker_reachable (be_evalBroker b)" "eb_enabled (be_evalBroker b)"
    "be_enabled b" "range_order_ok order" "ev_ID e \<noteq> ''''"
  shows "(\<forall>(x, w) \<in> set (tracked b). (x, w) \<in> set (tracked (unblock order cls i b)) \<or>
       count (located (be_evalBroker (unblock order cls i b))) x = 1) \<and>
    (\<forall>(x, w) \<in> set (tracked b). (x, w) \<in> set (tracked (UnblockFailed order b)) \<or>
       count (located (be_evalBroker (UnblockFailed order b))) x = 1) \<and>
    (e \<in> set (be_duplicates (be_Reblock e token b)) \<or>
     (ev_ID e, \<lparr>we_eval = e, we_token = token\<rparr>) \<in> set (tracked (be_Reblock e token b)) \<or>
     count (located (be_evalBroker (be_Reblock e token b))) (ev_ID e) = 1)"
proof -
  note inv = tracker_inv [OF assms(1)]
  note entry = entry_job [OF blocked_invD(1) [OF inv], unfolded entry_ok_def]
  have perm: "set (order xs) = set xs" for xs using assms(5) by (metis range_order_ok_def set_mset_mset)
  have loc: "count (located (EnqueueAll (order (unblocked_evals P es)) (be_evalBroker b))) x = 1"
    if w: "(x, w) \<in> set (tracked b)" "P (we_eval w)" and es: "set es = set (tracked b)" for x w P es
  proof -
    have mem: "(f, t) \<in> set (order (unblocked_evals P es)) \<longleftrightarrow>
        (\<exists>y v. (y, v) \<in> set (tracked b) \<and> P (we_eval v) \<and> f = we_eval v \<and> t = we_token v)" for f t
      by (force simp: perm unblocked_evals_def handed_def es simp del: set_append)
    have "list_all (\<lambda>(f, _). ev_ID f \<noteq> '''') (order (unblocked_evals P es))"
      using entry by (fastforce simp: list_all_iff mem)
    moreover have "(we_eval w, we_token w) \<in> set (order (unblocked_evals P es))" using w mem by blast
    ultimately show ?thesis using handed_located [OF assms(2,3)] entry [OF w(1)] by metis
  qed
  have spec: "(x, w) \<in> set (tracked ((unblock_spec P b)\<lparr>be_evalBroker := br\<rparr>))"
    if "(x, w) \<in> set (tracked b)" "\<not> P (we_eval w)" for x w P br
    using that by (auto simp: unblock_spec_def Let_def)
  have some: "unblocked_evals P es \<noteq> []" if "(x, w) \<in> set (tracked b)" "P (we_eval w)" "set es = set (tracked b)" for x w P es
    using that by (force simp: unblocked_evals_def handed_def filter_empty_conv simp del: set_append)
  have 1: "(x, w) \<in> set (tracked (unblock order cls i b)) \<or> count (located (be_evalBroker (unblock order cls i b))) x = 1"
    if w: "(x, w) \<in> set (tracked b)" for x w
    unfolding unblock_eq [OF inv assms(4)]
    using spec [OF w, of "\<lambda>e. could_use e cls"] loc [OF w, of "\<lambda>e. could_use e cls" "be_escaped b @ be_captured b"]
      some [OF w, of "\<lambda>e. could_use e cls" "be_escaped b @ be_captured b"]
    by (cases "could_use (we_eval w) cls") auto
  have 2: "(x, w) \<in> set (tracked (UnblockFailed order b)) \<or> count (located (be_evalBroker (UnblockFailed order b))) x = 1"
    if w: "(x, w) \<in> set (tracked b)" for x w
    unfolding UnblockFailed_eq [OF inv assms(4)]
    using spec [OF w, of "\<lambda>e. ev_TriggeredBy e = EvalTriggerMaxPlans"]
      loc [OF w, of "\<lambda>e. ev_TriggeredBy e = EvalTriggerMaxPlans" "tracked b"]
      some [OF w, of "\<lambda>e. ev_TriggeredBy e = EvalTriggerMaxPlans" "tracked b"]
    by (cases "ev_TriggeredBy (we_eval w) = EvalTriggerMaxPlans") auto
  have 3: "count (located (EnqueueAll [(e, token)] (be_evalBroker b))) (ev_ID e) = 1"
    by (rule handed_located [OF assms(2,3)]) (use assms(6) in auto)
  have "e \<in> set (be_duplicates (be_Reblock e token b)) \<or>
     (ev_ID e, \<lparr>we_eval = e, we_token = token\<rparr>) \<in> set (tracked (be_Reblock e token b)) \<or>
     count (located (be_evalBroker (be_Reblock e token b))) (ev_ID e) = 1"
    using 3 assms(4) by (auto simp: be_Reblock_def processBlock_def Let_def put_mem)
  with 1 2 show ?thesis by blast
qed

lemma ex_tracker_broker: "be_evalBroker ex_tracker = eb_SetEnabled True ex_new"
  by (simp add: ex_tracker_def be_Unblock_def be_Block_def processBlock_def missedUnblock_def be_SetEnabled_def
      NewBlockedEvals_def Let_def)

theorem tracker_hands_over_witness:
  "''e2'' \<notin> fst ` set (tracked (unblock rev ''c1'' 8 ex_tracker)) \<and>
   count (located (be_evalBroker (unblock rev ''c1'' 8 ex_tracker))) ''e2'' = 1"
proof -
  have "eb_enabled (be_evalBroker ex_tracker)" by code_simp
  moreover have gone: "''e2'' \<notin> fst ` set (tracked (unblock rev ''c1'' 8 ex_tracker))" by code_simp
  moreover have "ev_ID (ex_blocked ''e1'' False) \<noteq> ''''" by code_simp
  ultimately have "\<forall>(x, w) \<in> set (tracked ex_tracker). (x, w) \<in> set (tracked (unblock rev ''c1'' 8 ex_tracker)) \<or>
       count (located (be_evalBroker (unblock rev ''c1'' 8 ex_tracker))) x = 1"
    using tracker_hands_over [OF ex_tracker_reachable, of rev "ex_blocked ''e1'' False" "''c1''" 8 "''''"]
      ex_enabled_reachable ex_tracker_state(1) ex_tracker_broker by (simp add: range_order_ok_def)
  moreover have "(''e2'', \<lparr>we_eval = ex_blocked ''e2'' True, we_token = ''''\<rparr>) \<in> set (tracked ex_tracker)"
    by (simp add: ex_tracker_state)
  ultimately show ?thesis using gone by force
qed

end
