(* ===== verification/Plan_Queue.thy ===== *)
theory Plan_Queue
  imports Structs Go_Heap
begin

text \<open>
  \<^verbatim>\<open>nomad/plan_queue.go\<close> and \<^verbatim>\<open>nomad/plan_apply_pool.go\<close>: the priority queue of submitted plans,
  whose entries are futures, and the size bookkeeping of the worker pool that evaluates plans.

  A future is a number; \<open>pq_answers\<close> collects what was sent on the error channels, one entry per
  \<open>respond\<close>. The channel of a future has room for one answer, so a second \<open>respond\<close> would block.
  Times are nanoseconds; \<open>now\<close> is what \<open>time.Now\<close> returned.
\<close>

section \<open>The plan queue\<close>

datatype queue_error = QueueDisabled | planQueueFlushed

record pending_plan =
  pp_plan :: plan
  pp_enqueueTime :: int
  pp_future :: nat

record plan_queue =
  pq_enabled :: bool
  pq_Depth :: int
  pq_ready :: "pending_plan list"
  pq_waitCh :: bool
  pq_next :: nat
  pq_answers :: "(nat \<times> plan_result option \<times> queue_error option) list"

definition NewPlanQueue :: plan_queue where
  "NewPlanQueue = \<lparr>pq_enabled = False, pq_Depth = 0, pq_ready = [], pq_waitCh = False, pq_next = 0, pq_answers = []\<rparr>"

definition plan_Less :: "pending_plan \<Rightarrow> pending_plan \<Rightarrow> bool" where
  "plan_Less p q =
     (if pl_Priority (pp_plan p) \<noteq> pl_Priority (pp_plan q)
      then \<not> pl_Priority (pp_plan p) < pl_Priority (pp_plan q)
      else pp_enqueueTime p < pp_enqueueTime q)"

definition plan_Peek :: "pending_plan list \<Rightarrow> pending_plan option" where
  "plan_Peek p = (if length p = 0 then None else Some (p ! (length p - 1)))"

definition respond :: "plan_result option \<Rightarrow> queue_error option \<Rightarrow> pending_plan \<Rightarrow> plan_queue \<Rightarrow> plan_queue" where
  "respond result err pending q = q\<lparr>pq_answers := pq_answers q @ [(pp_future pending, result, err)]\<rparr>"

definition pq_Flush :: "plan_queue \<Rightarrow> plan_queue" where
  "pq_Flush q =
     (let q1 = fold (respond None (Some planQueueFlushed)) (pq_ready q) q
      in q1\<lparr>pq_Depth := 0, pq_ready := [], pq_waitCh := True\<rparr>)"

definition pq_SetEnabled :: "bool \<Rightarrow> plan_queue \<Rightarrow> plan_queue" where
  "pq_SetEnabled enabled q =
     (let q1 = q\<lparr>pq_enabled := enabled\<rparr> in if \<not> enabled then pq_Flush q1 else q1)"

definition pq_Enqueue :: "int \<Rightarrow> plan \<Rightarrow> plan_queue \<Rightarrow> (queue_error + nat) \<times> plan_queue" where
  "pq_Enqueue now plan q =
     (if \<not> pq_enabled q then (Inl QueueDisabled, q)
      else let pending = \<lparr>pp_plan = plan, pp_enqueueTime = now, pp_future = pq_next q\<rparr>
           in (Inr (pq_next q),
               q\<lparr>pq_next := pq_next q + 1, pq_ready := heap_push plan_Less pending (pq_ready q),
                 pq_Depth := pq_Depth q + 1, pq_waitCh := True\<rparr>))"

text \<open>
  One pass of \<open>Dequeue\<close> from the label \<open>SCAN\<close>: an error, a plan, or nothing, after which the caller
  waits for the channel or the timeout.
\<close>

definition pq_Dequeue :: "plan_queue \<Rightarrow> ((queue_error + pending_plan option) \<times> plan_queue) option" where
  "pq_Dequeue q =
     (if \<not> pq_enabled q then Some (Inl QueueDisabled, q)
      else if length (pq_ready q) > 0
      then map_option (\<lambda>(pending, ready). (Inr (Some pending), q\<lparr>pq_ready := ready, pq_Depth := pq_Depth q - 1\<rparr>))
             (heap_pop plan_Less (pq_ready q))
      else Some (Inr None, q))"

definition pq_Stats :: "plan_queue \<Rightarrow> int" where
  "pq_Stats q = pq_Depth q"

section \<open>The heap of plans\<close>

interpretation pq: heap_order plan_Less "\<lambda>_. True"
  by unfold_locales (auto simp: plan_Less_def split: if_splits)

section \<open>The queue as a system\<close>

text \<open>\<open>taken\<close> are the plans the applier dequeued and has not answered; it answers each one once.\<close>

inductive queue_step ::
  "plan_queue \<times> pending_plan list \<Rightarrow> plan_queue \<times> pending_plan list \<Rightarrow> bool" where
  enqueue: "queue_step (q, taken) (snd (pq_Enqueue now plan q), taken)"
| dequeue: "pq_Dequeue q = Some (Inr (Some p), q') \<Longrightarrow> queue_step (q, taken) (q', p # taken)"
| answer: "p \<in> set taken \<Longrightarrow> queue_step (q, taken) (respond result err p q, remove1 p taken)"
| set_enabled: "queue_step (q, taken) (pq_SetEnabled enabled q, taken)"

definition queue_reachable :: "plan_queue \<Rightarrow> pending_plan list \<Rightarrow> bool" where
  "queue_reachable q taken \<longleftrightarrow> queue_step\<^sup>*\<^sup>* (NewPlanQueue, []) (q, taken)"

text \<open>Every future handed out is queued, held by the applier, or answered: exactly one of them, once.\<close>

definition queue_inv :: "plan_queue \<Rightarrow> pending_plan list \<Rightarrow> bool" where
  "queue_inv q taken \<longleftrightarrow> pq.heap_inv (pq_ready q) \<and> pq_Depth q = int (length (pq_ready q)) \<and>
     mset (map pp_future (pq_ready q)) + mset (map pp_future taken) + mset (map fst (pq_answers q)) =
       mset [0..<pq_next q]"

lemma fold_respond:
  "fold (respond r e) ps q = q\<lparr>pq_answers := pq_answers q @ map (\<lambda>p. (pp_future p, r, e)) ps\<rparr>"
  by (induction ps arbitrary: q) (simp_all add: respond_def)

lemma pq_Flush_eq:
  "pq_Flush q = q\<lparr>pq_answers := pq_answers q @ map (\<lambda>p. (pp_future p, None, Some planQueueFlushed)) (pq_ready q),
     pq_Depth := 0, pq_ready := [], pq_waitCh := True\<rparr>"
  by (simp add: pq_Flush_def fold_respond)

lemma queue_invI:
  assumes "pq.heap_inv (pq_ready q)" "pq_Depth q = int (length (pq_ready q))"
    "mset (map pp_future (pq_ready q)) + mset (map pp_future taken) + mset (map fst (pq_answers q)) = mset [0..<pq_next q]"
  shows "queue_inv q taken"
  using assms by (simp add: queue_inv_def)

lemma queue_invD:
  assumes "queue_inv q taken"
  shows "pq.heap_inv (pq_ready q)" "pq_Depth q = int (length (pq_ready q))"
    "mset (map pp_future (pq_ready q)) + mset (map pp_future taken) + mset (map fst (pq_answers q)) = mset [0..<pq_next q]"
  using assms by (simp_all add: queue_inv_def)

lemma dequeue_some:
  assumes "pq_Dequeue q = Some (Inr (Some p), q')"
  obtains ready where "pq_enabled q" "heap_pop plan_Less (pq_ready q) = Some (p, ready)"
    "q' = q\<lparr>pq_ready := ready, pq_Depth := pq_Depth q - 1\<rparr>"
  using assms by (auto simp: pq_Dequeue_def split: if_splits)

lemma queue_step_inv:
  assumes "queue_step (q, taken) (q', taken')" "queue_inv q taken"
  shows "queue_inv q' taken'"
  using assms(1)
proof cases
  case (enqueue now plan)
  note I = queue_invD [OF assms(2)]
  show ?thesis
  proof (cases "pq_enabled q")
    case True
    let ?p = "\<lparr>pp_plan = plan, pp_enqueueTime = now, pp_future = pq_next q\<rparr>"
    have m: "mset (heap_push plan_Less ?p (pq_ready q)) = add_mset ?p (mset (pq_ready q))" by (rule pq.heap_push_mset)
    have "mset (map pp_future (heap_push plan_Less ?p (pq_ready q))) = add_mset (pq_next q) (mset (map pp_future (pq_ready q)))"
      unfolding mset_map m by simp
    moreover have "length (heap_push plan_Less ?p (pq_ready q)) = Suc (length (pq_ready q))"
      using arg_cong [OF m, of size] by simp
    ultimately show ?thesis using enqueue True I
      by (intro queue_invI) (simp_all add: pq_Enqueue_def pq.heap_push_inv del: mset_map)
  qed (use enqueue assms(2) in \<open>simp add: pq_Enqueue_def\<close>)
next
  case (dequeue p)
  note I = queue_invD [OF assms(2)]
  obtain ready where d: "heap_pop plan_Less (pq_ready q) = Some (p, ready)"
    "q' = q\<lparr>pq_ready := ready, pq_Depth := pq_Depth q - 1\<rparr>" using dequeue(2) by (rule dequeue_some)
  have m: "mset (pq_ready q) = add_mset p (mset ready)" by (rule pq.heap_pop_perm(2) [OF d(1)])
  have "mset (map pp_future (pq_ready q)) = add_mset (pp_future p) (mset (map pp_future ready))" unfolding mset_map m by simp
  moreover have "length (pq_ready q) = Suc (length ready)" using arg_cong [OF m, of size] by simp
  ultimately show ?thesis using dequeue(1) I pq.heap_pop_inv [OF _ I(1) d(1)]
    by (intro queue_invI) (simp_all add: d(2) del: mset_map)
next
  case (answer p result err)
  have "mset (map pp_future taken) = add_mset (pp_future p) (mset (map pp_future (remove1 p taken)))"
    using answer(3) by (simp add: image_mset_add_mset [symmetric] del: image_mset_add_mset)
  then show ?thesis using queue_invD [OF assms(2)] answer(1,2)
    by (intro queue_invI) (simp_all add: respond_def del: mset_map)
next
  case (set_enabled enabled)
  then show ?thesis using queue_invD [OF assms(2)] pq.heap_inv_Nil
    by (intro queue_invI) (auto simp: pq_SetEnabled_def pq_Flush_eq Let_def multiset.map_comp comp_def union_ac)
qed

lemma queue_reachable_inv:
  assumes "queue_reachable q taken"
  shows "queue_inv q taken"
proof -
  have "queue_step\<^sup>*\<^sup>* s t \<Longrightarrow> queue_inv (fst s) (snd s) \<Longrightarrow> queue_inv (fst t) (snd t)" for s t
    by (induction rule: rtranclp_induct) (auto intro: queue_step_inv)
  from this [of "(NewPlanQueue, [])" "(q, taken)"] assms show ?thesis
    by (simp add: queue_reachable_def queue_inv_def NewPlanQueue_def pq.heap_inv_Nil)
qed


section \<open>The worker pool\<close>

text \<open>
  A worker is known by its stop channel, a number; \<open>ep_closed\<close> are the channels that were closed
  and \<open>ep_started\<close> the number of goroutines started so far.
\<close>

record evaluate_pool =
  ep_workers :: int
  ep_workerStop :: "nat option list"
  ep_started :: nat
  ep_closed :: "nat list"

definition start_worker :: "evaluate_pool \<Rightarrow> evaluate_pool" where
  "start_worker p = p\<lparr>ep_workerStop := ep_workerStop p @ [Some (ep_started p)], ep_started := ep_started p + 1\<rparr>"

text \<open>A negative length panics; the slots of the slice are filled in order.\<close>

definition NewEvaluatePool :: "int \<Rightarrow> evaluate_pool option" where
  "NewEvaluatePool workers =
     (if workers < 0 then None
      else Some ((start_worker ^^ nat workers)
        \<lparr>ep_workers = workers, ep_workerStop = [], ep_started = 0, ep_closed = []\<rparr>))"

text \<open>The downwards loop from \<open>i\<close> to \<open>size\<close>: close the channel of slot \<open>i - 1\<close>; closing nil panics.\<close>

fun stop_workers :: "nat \<Rightarrow> nat \<Rightarrow> evaluate_pool \<Rightarrow> evaluate_pool option" where
  "stop_workers 0 sz p = Some p"
| "stop_workers (Suc i) sz p =
     (if Suc i > sz
      then if i < length (ep_workerStop p)
           then case ep_workerStop p ! i of
                  None \<Rightarrow> None
                | Some ch \<Rightarrow> stop_workers i sz (p\<lparr>ep_workerStop := (ep_workerStop p)[i := None],
                                                  ep_closed := ep_closed p @ [ch]\<rparr>)
           else None
      else Some p)"

definition SetSize :: "int \<Rightarrow> evaluate_pool \<Rightarrow> evaluate_pool option" where
  "SetSize newsize p =
     (let sz = (if newsize < 0 then 0 else newsize) in
      if sz \<ge> ep_workers p
      then Some (((start_worker ^^ nat (sz - ep_workers p)) p)\<lparr>ep_workers := sz\<rparr>)
      else map_option (\<lambda>p1. p1\<lparr>ep_workerStop := take (nat sz) (ep_workerStop p1), ep_workers := sz\<rparr>)
             (stop_workers (nat (ep_workers p)) (nat sz) p))"

definition pool_Shutdown :: "evaluate_pool \<Rightarrow> evaluate_pool option" where
  "pool_Shutdown p = SetSize 0 p"

definition running :: "evaluate_pool \<Rightarrow> nat set" where
  "running p = {..<ep_started p} - set (ep_closed p)"

definition pool_inv :: "evaluate_pool \<Rightarrow> bool" where
  "pool_inv p \<longleftrightarrow> (\<exists>chs. ep_workerStop p = map Some chs \<and> ep_workers p = int (length chs) \<and>
     distinct chs \<and> set chs = running p) \<and> set (ep_closed p) \<subseteq> {..<ep_started p}"

lemma start_workers:
  "(start_worker ^^ n) p = p\<lparr>ep_workerStop := ep_workerStop p @ map Some [ep_started p..<ep_started p + n],
     ep_started := ep_started p + n\<rparr>"
proof (induction n)
  case (Suc n)
  then show ?case by (simp add: start_worker_def)
qed simp

lemma stop_workers_eq:
  assumes "ep_workerStop p = map Some chs @ replicate k None" "n \<le> length chs"
  shows "stop_workers (length chs) n p = Some (p\<lparr>
    ep_workerStop := map Some (take n chs) @ replicate (length chs - n + k) None,
    ep_closed := ep_closed p @ rev (drop n chs)\<rparr>)"
  using assms
proof (induction chs arbitrary: p k rule: rev_induct)
  case Nil
  then show ?case by simp
next
  case (snoc ch chs)
  show ?case
  proof (cases "n = Suc (length chs)")
    case True
    with snoc.prems show ?thesis by simp
  next
    case False
    let ?p = "p\<lparr>ep_workerStop := map Some chs @ replicate (Suc k) None, ep_closed := ep_closed p @ [ch]\<rparr>"
    from False snoc.prems have n: "n \<le> length chs" by simp
    have upd: "(map Some (chs @ [ch]) @ replicate k None)[length chs := None] = map Some chs @ replicate (Suc k) None"
      by (simp add: list_update_append)
    have "stop_workers (length (chs @ [ch])) n p = stop_workers (length chs) n ?p"
      using n snoc.prems upd by (simp add: nth_append)
    also have "\<dots> = Some (?p\<lparr>ep_workerStop := map Some (take n chs) @ replicate (length chs - n + Suc k) None,
        ep_closed := ep_closed ?p @ rev (drop n chs)\<rparr>)"
      using n by (intro snoc.IH) simp_all
    also have "\<dots> = Some (p\<lparr>ep_workerStop := map Some (take n (chs @ [ch])) @ replicate (length (chs @ [ch]) - n + k) None,
        ep_closed := ep_closed p @ rev (drop n (chs @ [ch]))\<rparr>)"
      using n by (simp add: Suc_diff_le)
    finally show ?thesis .
  qed
qed

lemma new_pool_inv: "0 \<le> n \<Longrightarrow> NewEvaluatePool n = Some p \<Longrightarrow> pool_inv p"
  by (auto simp: NewEvaluatePool_def start_workers pool_inv_def running_def intro!: exI [of _ "[0..<nat n]"])

section \<open>Properties\<close>

text \<open>
  C23: every future that \<open>Enqueue\<close> handed out is in exactly one of three places: in the queue, with the
  applier, or answered; no future is lost, and none is answered twice, so no \<open>respond\<close> blocks. The
  reported depth is the length of the queue.
\<close>

theorem plan_futures_answered_once:
  assumes "queue_reachable q taken"
  shows "mset (map pp_future (pq_ready q)) + mset (map pp_future taken) + mset (map fst (pq_answers q)) =
      mset [0..<pq_next q] \<and> pq_Stats q = int (length (pq_ready q))"
  using queue_reachable_inv [OF assms] by (simp add: queue_inv_def pq_Stats_def)

definition ex_plan :: "int \<Rightarrow> plan" where
  "ex_plan prio = zero_plan\<lparr>pl_Priority := prio\<rparr>"

definition ex_queue :: plan_queue where
  "ex_queue = snd (pq_Enqueue 30 (ex_plan 70) (snd (pq_Enqueue 20 (ex_plan 70) (snd (pq_Enqueue 10 (ex_plan 50)
     (pq_SetEnabled True NewPlanQueue))))))"

lemma ex_queue_reachable: "queue_reachable ex_queue []"
proof -
  have e: "queue_reachable q taken \<Longrightarrow> queue_reachable (snd (pq_Enqueue now plan q)) taken"
    and s: "queue_reachable q taken \<Longrightarrow> queue_reachable (pq_SetEnabled en q) taken" for q taken now plan en
    unfolding queue_reachable_def by (auto intro: rtranclp.rtrancl_into_rtrancl queue_step.intros)
  have "queue_reachable NewPlanQueue []" by (simp add: queue_reachable_def)
  then show ?thesis unfolding ex_queue_def by (intro e s)
qed

theorem plan_futures_answered_once_witness:
  "mset (map pp_future (pq_ready ex_queue)) = mset [0..<3] \<and> pq_Stats ex_queue = 3"
proof -
  have "pq_next ex_queue = 3" "pq_answers ex_queue = []" "length (pq_ready ex_queue) = 3" by code_simp+
  with plan_futures_answered_once [OF ex_queue_reachable] show ?thesis by simp
qed

text \<open>
  C24: \<open>Dequeue\<close> on an enabled queue returns a plan whenever there is one, and it is a plan no other
  queued plan beats: none has a higher priority, nor the same priority and an earlier enqueue time.
\<close>

theorem plan_dequeue_best:
  assumes "queue_reachable q taken" "pq_enabled q" "pq_ready q \<noteq> []"
  shows "\<exists>p q'. pq_Dequeue q = Some (Inr (Some p), q') \<and> mset (pq_ready q) = add_mset p (mset (pq_ready q')) \<and>
    (\<forall>r \<in> set (pq_ready q'). pl_Priority (pp_plan r) \<le> pl_Priority (pp_plan p) \<and>
       (pl_Priority (pp_plan r) = pl_Priority (pp_plan p) \<longrightarrow> pp_enqueueTime p \<le> pp_enqueueTime r))"
proof -
  note I = queue_invD [OF queue_reachable_inv [OF assms(1)]]
  obtain p ready where d: "heap_pop plan_Less (pq_ready q) = Some (p, ready)"
    using pq.heap_pop_None [of "pq_ready q"] assms(3) by fastforce
  have "pl_Priority (pp_plan r) \<le> pl_Priority (pp_plan p) \<and>
      (pl_Priority (pp_plan r) = pl_Priority (pp_plan p) \<longrightarrow> pp_enqueueTime p \<le> pp_enqueueTime r)" if "r \<in> set ready" for r
    using pq.heap_pop_min [OF _ I(1) d that] by (auto simp: plan_Less_def split: if_splits)
  with d pq.heap_pop_perm(2) [OF d] assms(2,3) show ?thesis by (simp add: pq_Dequeue_def)
qed

theorem plan_dequeue_best_witness:
  "\<exists>p q'. pq_Dequeue ex_queue = Some (Inr (Some p), q') \<and> pp_future p = 1"
proof -
  have r: "pq_enabled ex_queue" "pq_ready ex_queue \<noteq> []"
    "map_option (map_sum id (map_option pp_future) \<circ> fst) (pq_Dequeue ex_queue) = Some (Inr (Some 1))" by code_simp+
  from plan_dequeue_best [OF ex_queue_reachable r(1,2)] r(3) show ?thesis by auto
qed

text \<open>
  Resizing the worker pool never panics, leaves exactly the requested number of workers running
  (none for a negative size), and keeps the stop channels in step with them.
\<close>

theorem SetSize_running:
  assumes "pool_inv p"
  shows "\<exists>p'. SetSize sz p = Some p' \<and> pool_inv p' \<and> ep_workers p' = max 0 sz \<and> card (running p') = nat sz"
proof -
  from assms obtain chs where c: "ep_workerStop p = map Some chs" "ep_workers p = int (length chs)" "distinct chs"
    "set chs = running p" and closed: "set (ep_closed p) \<subseteq> {..<ep_started p}" by (auto simp: pool_inv_def)
  have card: "pool_inv r \<Longrightarrow> card (running r) = nat (ep_workers r)" for r
    by (auto simp: pool_inv_def dest: distinct_card)
  show ?thesis
  proof (cases "max 0 sz \<ge> ep_workers p")
    case True
    let ?k = "nat (max 0 sz - ep_workers p)"
    let ?p = "(p\<lparr>ep_workerStop := map Some (chs @ [ep_started p..<ep_started p + ?k]),
        ep_started := ep_started p + ?k\<rparr>)\<lparr>ep_workers := max 0 sz\<rparr>"
    have r: "SetSize sz p = Some ?p"
      using True c by (auto simp: SetSize_def start_workers Let_def max_def)
    have "running ?p = running p \<union> {ep_started p..<ep_started p + ?k}" "running p \<subseteq> {..<ep_started p}"
      using closed by (auto simp: running_def)
    then have "pool_inv ?p" unfolding pool_inv_def
      using True c closed by (intro conjI exI [of _ "chs @ [ep_started p..<ep_started p + ?k]"]) auto
    with r card [OF this] show ?thesis by (auto simp: max_def)
  next
    case False
    define n where "n = nat (max 0 sz)"
    from False c(2) have n: "n < length chs" by (auto simp: n_def)
    let ?p = "p\<lparr>ep_workerStop := map Some (take n chs), ep_closed := ep_closed p @ rev (drop n chs), ep_workers := max 0 sz\<rparr>"
    have r: "SetSize sz p = Some ?p"
      using False n c stop_workers_eq [of p chs 0 n] by (auto simp: SetSize_def Let_def n_def max_def)
    have "set (take n chs) \<inter> set (drop n chs) = {}" "set (take n chs) \<union> set (drop n chs) = running p"
      using c(3,4) by (auto simp: set_take_disj_set_drop_if_distinct simp flip: set_append)
    then have "set (take n chs) = running ?p" "set (drop n chs) \<subseteq> {..<ep_started p}"
      by (auto simp: running_def)
    then have "pool_inv ?p" unfolding pool_inv_def
      using n c closed by (intro conjI exI [of _ "take n chs"]) (auto simp: n_def)
    with r card [OF this] show ?thesis by (auto simp: max_def)
  qed
qed


theorem SetSize_running_witness:
  "\<exists>p p'. NewEvaluatePool 4 = Some p \<and> SetSize 2 p = Some p' \<and> card (running p') = 2"
proof -
  obtain p where p: "NewEvaluatePool 4 = Some p" by (simp add: NewEvaluatePool_def)
  have "pool_inv p" by (rule new_pool_inv [OF _ p]) simp
  with SetSize_running [of p 2] p show ?thesis by auto
qed

end
