(* ===== verification/Time_Table.thy ===== *)
theory Time_Table
  imports Prelude
begin

text \<open>
  \<^verbatim>\<open>nomad/timetable.go\<close>: the bounded table that relates Raft indexes to times, which garbage
  collection uses to turn a time threshold into an index.

  Times are nanoseconds since the Unix epoch and durations signed 64-bit nanoseconds; \<open>time.Sub\<close>
  saturates. The capacity of the slice, fixed when it is made, is a field. The codec is a
  parameter: an encoder \<open>enc\<close> and a decoder \<open>dec\<close>.
\<close>

section \<open>Library code\<close>

text \<open>Go's integer division truncates towards zero.\<close>

definition go_quot :: "int \<Rightarrow> int \<Rightarrow> int" where
  "go_quot a b = sgn a * sgn b * (\<bar>a\<bar> div \<bar>b\<bar>)"

definition time_Sub :: "int \<Rightarrow> int \<Rightarrow> int" where
  "time_Sub t u = max (- (2 ^ 63)) (min (2 ^ 63 - 1) (t - u))"

text \<open>The zero \<open>time.Time\<close>: the first instant of the year 1.\<close>

definition zero_time :: int where
  "zero_time = - 62135596800 * 10 ^ 9"

text \<open>\<open>sort.Search\<close>: binary search for the least index that satisfies \<open>f\<close>.\<close>

function search_loop :: "(nat \<Rightarrow> bool) \<Rightarrow> nat \<Rightarrow> nat \<Rightarrow> nat" where
  "search_loop f i j =
     (if i < j
      then let h = i + (j - i) div 2 in if \<not> f h then search_loop f (h + 1) j else search_loop f i h
      else i)"
  by pat_completeness auto
termination by (relation "measure (\<lambda>(f, i, j). j - i)") auto

declare search_loop.simps [simp del]

definition sort_Search :: "nat \<Rightarrow> (nat \<Rightarrow> bool) \<Rightarrow> nat" where
  "sort_Search n f = search_loop f 0 n"

section \<open>The time table\<close>

record time_table_entry =
  tte_Index :: nat
  tte_Time :: int

record time_table =
  tt_granularity :: int
  tt_limit :: int
  tt_cap :: nat
  tt_table :: "time_table_entry list"

definition zero_entry :: time_table_entry where
  "zero_entry = \<lparr>tte_Index = 0, tte_Time = zero_time\<rparr>"

text \<open>Division by a zero granularity panics.\<close>

definition NewTimeTable :: "int \<Rightarrow> int \<Rightarrow> time_table option" where
  "NewTimeTable granularity limit =
     (if granularity = 0 then None
      else let size0 = wrap64 (go_quot limit granularity); sz = (if size0 < 1 then 1 else size0)
           in Some \<lparr>tt_granularity = granularity, tt_limit = limit, tt_cap = nat sz, tt_table = [zero_entry]\<rparr>)"

text \<open>An empty table would panic at \<open>t.table[0]\<close>.\<close>

definition Witness :: "nat \<Rightarrow> int \<Rightarrow> time_table \<Rightarrow> time_table option" where
  "Witness index when t =
     (case tt_table t of
        [] \<Rightarrow> None
      | newest # _ \<Rightarrow>
          if tte_Index newest > index then Some t
          else if time_Sub when (tte_Time newest) < tt_granularity t then Some t
          else let table = (if length (tt_table t) < tt_cap t then tt_table t @ [zero_entry] else tt_table t);
                   shifted = take 1 table @ take (length table - 1) table
               in Some (t\<lparr>tt_table := shifted[0 := \<lparr>tte_Index = index, tte_Time = when\<rparr>]\<rparr>))"

definition NearestIndex :: "time_table \<Rightarrow> int \<Rightarrow> nat" where
  "NearestIndex t when =
     (let n = length (tt_table t); idx = sort_Search n (\<lambda>i. \<not> tte_Time (tt_table t ! i) > when)
      in if idx < n then tte_Index (tt_table t ! idx) else 0)"

definition NearestTime :: "time_table \<Rightarrow> nat \<Rightarrow> int" where
  "NearestTime t index =
     (let n = length (tt_table t); idx = sort_Search n (\<lambda>i. tte_Index (tt_table t ! i) \<le> index)
      in if idx < n then tte_Time (tt_table t ! idx) else zero_time)"

datatype codec_error = DecodeError

definition tt_Serialize :: "(time_table_entry list \<Rightarrow> 'b) \<Rightarrow> time_table \<Rightarrow> 'b" where
  "tt_Serialize enc t = enc (tt_table t)"

fun witness_all :: "time_table_entry list \<Rightarrow> time_table \<Rightarrow> time_table option" where
  "witness_all [] t = Some t"
| "witness_all (e # es) t = Option.bind (Witness (tte_Index e) (tte_Time e) t) (witness_all es)"

definition tt_Deserialize ::
  "('b \<Rightarrow> time_table_entry list option) \<Rightarrow> 'b \<Rightarrow> time_table \<Rightarrow> (codec_error + time_table) option" where
  "tt_Deserialize dec bytes t =
     (case dec bytes of
        None \<Rightarrow> Some (Inl DecodeError)
      | Some table \<Rightarrow> map_option Inr (witness_all (rev table) t))"

section \<open>Binary search\<close>

lemma search_loop_least:
  assumes "i \<le> j" "\<And>k l. k \<le> l \<Longrightarrow> l < n \<Longrightarrow> f k \<Longrightarrow> f l" "j \<le> n"
    "\<And>k. k < i \<Longrightarrow> \<not> f k" "\<And>k. j \<le> k \<Longrightarrow> k < n \<Longrightarrow> f k"
  shows "search_loop f i j \<le> n \<and> (\<forall>k < search_loop f i j. \<not> f k) \<and> (\<forall>k < n. search_loop f i j \<le> k \<longrightarrow> f k)"
  using assms
proof (induction f i j rule: search_loop.induct)
  case (1 f i j)
  let ?h = "i + (j - i) div 2"
  show ?case
  proof (cases "i < j")
    case False
    with 1(3-7) show ?thesis by (subst (1 2 3) search_loop.simps) auto
  next
    case True
    then have h: "i \<le> ?h" "?h < j" by auto
    show ?thesis
    proof (cases "f ?h")
      case f: True
      have up: "f k" if "?h \<le> k" "k < n" for k using 1(4) [OF that f] .
      have "search_loop f i j = search_loop f i ?h" using True f by (subst search_loop.simps) (simp add: Let_def)
      with 1(2) [OF True refl _ _ 1(4) _ 1(6)] f h 1(5) up show ?thesis by simp
    next
      case f: False
      have low: "\<not> f k" if "k < ?h + 1" for k using 1(4) [of k ?h] f h 1(5) that by auto
      have "search_loop f i j = search_loop f (?h + 1) j" using True f by (subst search_loop.simps) (simp add: Let_def)
      with 1(1) [OF True refl _ _ 1(4) 1(5) _ 1(7)] f h low show ?thesis by simp
    qed
  qed
qed

lemma sort_Search_least:
  assumes "\<And>k l. k \<le> l \<Longrightarrow> l < n \<Longrightarrow> f k \<Longrightarrow> f l"
  shows "sort_Search n f \<le> n" "k < sort_Search n f \<Longrightarrow> \<not> f k" "k < n \<Longrightarrow> sort_Search n f \<le> k \<Longrightarrow> f k"
  using search_loop_least [of 0 n n f] assms by (auto simp: sort_Search_def)

section \<open>Invariant\<close>

definition newer :: "int \<Rightarrow> time_table_entry \<Rightarrow> time_table_entry \<Rightarrow> bool" where
  "newer g e f \<longleftrightarrow> tte_Index f \<le> tte_Index e \<and> tte_Time f + g \<le> tte_Time e"

definition table_inv :: "time_table \<Rightarrow> bool" where
  "table_inv t \<longleftrightarrow> 0 < tt_granularity t \<and> int64 (tt_granularity t) \<and> tt_table t \<noteq> [] \<and>
     length (tt_table t) \<le> tt_cap t \<and> sorted_wrt (newer (tt_granularity t)) (tt_table t) \<and>
     (\<exists>es. (tt_table t = es @ [zero_entry] \<or> tt_table t = es \<and> length es = tt_cap t) \<and>
        (\<forall>e \<in> set es. newer (tt_granularity t) e zero_entry))"

lemma newer_trans: "0 < g \<Longrightarrow> newer g a b \<Longrightarrow> newer g b c \<Longrightarrow> newer g a c"
  by (auto simp: newer_def)

lemma table_inv_upd:
  assumes "\<exists>es. (T = es @ [zero_entry] \<or> T = es \<and> length es = tt_cap t) \<and>
      (\<forall>e \<in> set es. newer (tt_granularity t) e zero_entry)"
    "sorted_wrt (newer (tt_granularity t)) T" "T \<noteq> []" "length T \<le> tt_cap t" "0 < tt_granularity t" "int64 (tt_granularity t)"
  shows "table_inv (t\<lparr>tt_table := T\<rparr>)"
  using assms by (simp add: table_inv_def)

lemma Sub_accepts: "0 < g \<Longrightarrow> int64 g \<Longrightarrow> g \<le> time_Sub t u \<longleftrightarrow> u + g \<le> t"
  by (auto simp: time_Sub_def int64_def)

lemma Witness_cases:
  assumes "tt_table t = e # es" "length (tt_table t) \<le> tt_cap t" "int64 (tt_granularity t)" "0 < tt_granularity t"
  shows "Witness i w t = Some (if newer (tt_granularity t) \<lparr>tte_Index = i, tte_Time = w\<rparr> e
    then t\<lparr>tt_table := take (tt_cap t) (\<lparr>tte_Index = i, tte_Time = w\<rparr> # tt_table t)\<rparr> else t)"
proof -
  have "tte_Index e > i \<or> time_Sub w (tte_Time e) < tt_granularity t \<longleftrightarrow>
      \<not> newer (tt_granularity t) \<lparr>tte_Index = i, tte_Time = w\<rparr> e"
    using Sub_accepts [OF assms(4,3), of w "tte_Time e"] by (auto simp: newer_def)
  moreover have "take (tt_cap t) (e # es) = e # es" using assms by simp
  moreover have "length es = tt_cap t - 1" if "\<not> Suc (length es) < tt_cap t" using that assms by simp
  ultimately show ?thesis using assms by (auto simp: Witness_def Let_def take_Cons' not_less)
qed

lemma Witness_inv:
  assumes "table_inv t"
  shows "\<exists>t'. Witness i w t = Some t' \<and> table_inv t' \<and> tt_granularity t' = tt_granularity t \<and> tt_cap t' = tt_cap t \<and>
    set (tt_table t') \<subseteq> insert \<lparr>tte_Index = i, tte_Time = w\<rparr> (set (tt_table t))"
proof -
  from assms obtain e rest where e: "tt_table t = e # rest" by (cases "tt_table t") (auto simp: table_inv_def)
  let ?g = "tt_granularity t" and ?n = "\<lparr>tte_Index = i, tte_Time = w\<rparr>"
  have I: "0 < ?g" "int64 ?g" "length (tt_table t) \<le> tt_cap t" "sorted_wrt (newer ?g) (tt_table t)"
    using assms by (auto simp: table_inv_def)
  from assms obtain es where es: "tt_table t = es @ [zero_entry] \<or> tt_table t = es \<and> length es = tt_cap t"
    "\<forall>e \<in> set es. newer ?g e zero_entry" by (auto simp: table_inv_def)
  show ?thesis
  proof (cases "newer ?g ?n e")
    case True
    let ?t = "t\<lparr>tt_table := take (tt_cap t) (?n # tt_table t)\<rparr>"
    have s: "sorted_wrt (newer ?g) (?n # tt_table t)"
      using I True newer_trans [OF I(1) True] by (auto simp: e)
    have nz: "newer ?g ?n zero_entry"
      using True es newer_trans [OF I(1) True] e by (cases es) auto
    have "\<exists>es'. (take (tt_cap t) (?n # tt_table t) = es' @ [zero_entry] \<or>
        take (tt_cap t) (?n # tt_table t) = es' \<and> length es' = tt_cap t) \<and> (\<forall>e \<in> set es'. newer ?g e zero_entry)"
    proof (cases "length (tt_table t) < tt_cap t")
      case True
      with es have "tt_table t = es @ [zero_entry]" by auto
      with True nz es(2) show ?thesis by (intro exI [of _ "?n # es"]) simp
    next
      case False
      with I(3) have len: "length (tt_table t) = tt_cap t" by simp
      have "set (take (tt_cap t) (?n # tt_table t)) \<subseteq> insert ?n (set es)"
        using es(1) len by (cases "tt_cap t") (auto dest: in_set_takeD)
      with nz es(2) len show ?thesis by (intro exI [of _ "take (tt_cap t) (?n # tt_table t)"]) auto
    qed
    moreover have "sorted_wrt (newer ?g) (take (tt_cap t) (?n # tt_table t))" using s by (rule sorted_wrt_take)
    moreover have "take (tt_cap t) (?n # tt_table t) \<noteq> []" "length (take (tt_cap t) (?n # tt_table t)) \<le> tt_cap t"
      using I(3) by (auto simp: e)
    ultimately have "table_inv ?t" using I(1,2) by (intro table_inv_upd)
    moreover have "set (tt_table ?t) \<subseteq> insert ?n (set (tt_table t))" by (auto dest: in_set_takeD)
    ultimately show ?thesis using Witness_cases [OF e I(3,2,1), of i w] True by simp
  next
    case False
    with Witness_cases [OF e I(3,2,1), of i w] assms show ?thesis by auto
  qed
qed


section \<open>Runs of the table\<close>

inductive table_run :: "int \<Rightarrow> int \<Rightarrow> (nat \<times> int) list \<Rightarrow> time_table \<Rightarrow> bool" for g l where
  fresh: "NewTimeTable g l = Some t \<Longrightarrow> table_run g l [] t"
| seen: "table_run g l calls t \<Longrightarrow> Witness i w t = Some t' \<Longrightarrow> table_run g l (calls @ [(i, w)]) t'"

lemma fresh_inv: "0 < g \<Longrightarrow> int64 g \<Longrightarrow> NewTimeTable g l = Some t \<Longrightarrow> table_inv t"
  by (auto simp: NewTimeTable_def table_inv_def Let_def intro!: exI [of _ "[]"])

lemma table_run_inv:
  assumes "table_run g l calls t" "0 < g" "int64 g"
  shows "table_inv t \<and> tt_granularity t = g \<and> NewTimeTable g l = Some (t\<lparr>tt_table := [zero_entry]\<rparr>) \<and>
    set (tt_table t) \<subseteq> insert zero_entry ((\<lambda>(i, w). \<lparr>tte_Index = i, tte_Time = w\<rparr>) ` set calls)"
  using assms(1)
proof induction
  case (fresh t)
  then show ?case using fresh_inv [OF assms(2,3) fresh] by (auto simp: NewTimeTable_def Let_def split: if_splits)
next
  case (seen calls t i w t')
  obtain u where u: "Witness i w t = Some u" "table_inv u"
    "set (tt_table u) \<subseteq> insert \<lparr>tte_Index = i, tte_Time = w\<rparr> (set (tt_table t))"
    using Witness_inv [of t i w] seen.IH by blast
  have "t'\<lparr>tt_table := [zero_entry]\<rparr> = t\<lparr>tt_table := [zero_entry]\<rparr>" "tt_granularity t' = tt_granularity t"
    using seen.hyps(2) by (auto simp: Witness_def Let_def split: list.splits if_splits)
  moreover have "u = t'" using u(1) seen.hyps(2) by simp
  ultimately show ?case using u(2,3) seen.IH by auto
qed

lemma rebuild:
  assumes "0 < g" "int64 g" "1 \<le> c" "sorted_wrt (newer g) ys" "\<forall>y \<in> set ys. newer g y zero_entry"
    and t: "tt_granularity t = g" "tt_cap t = c" "tt_table t = [zero_entry]"
  shows "witness_all (rev ys) t = Some (t\<lparr>tt_table := take c (ys @ [zero_entry])\<rparr>)"
  using assms(4,5)
proof (induction ys)
  case Nil
  then show ?case using assms(3) t by (simp add: take_Cons')
next
  case (Cons y ys)
  have app: "witness_all (es @ [e]) s = Option.bind (witness_all es s) (Witness (tte_Index e) (tte_Time e))" for es e s
    by (induction es arbitrary: s) (auto split: Option.bind_splits)
  let ?t = "t\<lparr>tt_table := take c (ys @ [zero_entry])\<rparr>"
  obtain e es where e: "tt_table ?t = e # es" using assms(3) by (cases "take c (ys @ [zero_entry])") auto
  then have mem: "e \<in> set (take c (ys @ [zero_entry]))" by simp
  have y: "\<lparr>tte_Index = tte_Index y, tte_Time = tte_Time y\<rparr> = y" by (cases y) simp
  have len: "length (tt_table ?t) \<le> tt_cap ?t" using t by simp
  have "newer g y e" using Cons.prems in_set_takeD [OF mem] by auto
  then have "Witness (tte_Index y) (tte_Time y) ?t = Some (?t\<lparr>tt_table := take c (y # tt_table ?t)\<rparr>)"
    using Witness_cases [OF e len, of "tte_Index y" "tte_Time y", unfolded y] t assms(1,2) by simp
  moreover have "take c (y # take c (ys @ [zero_entry])) = take c ((y # ys) @ [zero_entry])"
    by (cases c) (simp_all add: min_def)
  ultimately show ?case using Cons by (simp add: app)
qed

lemma deserialize_serialize:
  assumes "table_inv t"
  shows "witness_all (rev (tt_table t)) (t\<lparr>tt_table := [zero_entry]\<rparr>) = Some t"
proof -
  let ?f = "t\<lparr>tt_table := [zero_entry]\<rparr>" and ?g = "tt_granularity t"
  have I: "0 < ?g" "int64 ?g" "length (tt_table t) \<le> tt_cap t" "1 \<le> tt_cap t" "sorted_wrt (newer ?g) (tt_table t)"
    using assms by (cases "tt_table t"; auto simp: table_inv_def)+
  from assms obtain es where es: "tt_table t = es @ [zero_entry] \<or> tt_table t = es \<and> length es = tt_cap t"
    "\<forall>e \<in> set es. newer ?g e zero_entry" by (auto simp: table_inv_def)
  have s: "sorted_wrt (newer ?g) es" using es(1) I(5) by (auto simp: sorted_wrt_append)
  note r = rebuild [OF I(1,2,4) s es(2), of ?f]
  have skip: "Witness (tte_Index zero_entry) (tte_Time zero_entry) ?f = Some ?f"
    using I(1) by (simp add: Witness_def time_Sub_def)
  from es(1) show ?thesis
  proof
    assume a: "tt_table t = es @ [zero_entry]"
    with r skip I(3) show ?thesis by simp
  next
    assume a: "tt_table t = es \<and> length es = tt_cap t"
    with r show ?thesis by simp
  qed
qed

section \<open>Properties\<close>

text \<open>
  C21: the table survives a snapshot. For a codec that decodes what it encoded, restoring the
  serialised table of any run into a new table of the same configuration gives the same table,
  full or not.
\<close>

theorem timetable_round_trip:
  assumes "table_run g l calls t" "0 < g" "int64 g" "NewTimeTable g l = Some t0"
    and codec: "\<And>table. dec (enc table) = Some table"
  shows "tt_Deserialize dec (tt_Serialize enc t) t0 = Some (Inr t)"
proof -
  note I = table_run_inv [OF assms(1-3)]
  then have "t0 = t\<lparr>tt_table := [zero_entry]\<rparr>" using assms(4) by simp
  with deserialize_serialize [of t] I show ?thesis by (simp add: tt_Deserialize_def tt_Serialize_def codec)
qed

definition ex_table :: time_table where
  "ex_table = the (witness_all [\<lparr>tte_Index = 10, tte_Time = 1000\<rparr>, \<lparr>tte_Index = 15, tte_Time = 1005\<rparr>,
     \<lparr>tte_Index = 20, tte_Time = 1020\<rparr>, \<lparr>tte_Index = 30, tte_Time = 1040\<rparr>] (the (NewTimeTable 10 30)))"

lemma ex_table_run: "table_run 10 30 [(10, 1000), (15, 1005), (20, 1020), (30, 1040)] ex_table"
proof -
  let ?w = "\<lambda>i w t. the (Witness i w t)"
  have eq: "ex_table = ?w 30 1040 (?w 20 1020 (?w 15 1005 (?w 10 1000 (the (NewTimeTable 10 30)))))" by code_simp
  have f: "table_run 10 30 [] (the (NewTimeTable 10 30))" by (rule table_run.fresh) (simp add: NewTimeTable_def Let_def)
  have s: "table_run 10 30 (calls @ [(i, w)]) (?w i w t)" if "table_run 10 30 calls t" for calls i w t
  proof (rule table_run.seen [OF that])
    have "table_inv t" using table_run_inv [OF that] by (simp add: int64_def)
    then show "Witness i w t = Some (?w i w t)" using Witness_inv [of t i w] by fastforce
  qed
  from s [OF s [OF s [OF s [OF f]]], of 10 1000 15 1005 20 1020 30 1040] show ?thesis unfolding eq by simp
qed

theorem timetable_round_trip_witness:
  "tt_Deserialize Some (tt_Serialize id ex_table) (the (NewTimeTable 10 30)) = Some (Inr ex_table) \<and>
   map tte_Index (tt_table ex_table) = [30, 20, 10]"
proof -
  have "map tte_Index (tt_table ex_table) = [30, 20, 10]" by code_simp
  moreover have "tt_Deserialize Some (tt_Serialize id ex_table) (the (NewTimeTable 10 30)) = Some (Inr ex_table)"
    by (rule timetable_round_trip [OF ex_table_run]) (simp_all add: int64_def NewTimeTable_def Let_def)
  ultimately show ?thesis by blast
qed

text \<open>
  C22: \<open>NearestIndex\<close>, by binary search, is the largest index in the table whose time is not after the
  given one, or 0. When indexes and times were witnessed in order, every smaller index of the run
  was witnessed no later than the given time: a threshold index never covers younger objects.
\<close>

theorem NearestIndex_threshold:
  assumes "table_run g l calls t" "0 < g" "int64 g"
  shows "(\<forall>e \<in> set (tt_table t). tte_Time e \<le> when \<longrightarrow> tte_Index e \<le> NearestIndex t when) \<and>
    (NearestIndex t when = 0 \<or> (\<exists>e \<in> set (tt_table t). tte_Time e \<le> when \<and> tte_Index e = NearestIndex t when)) \<and>
    (sorted_wrt (\<lambda>(i, w) (j, v). i \<le> j \<and> w \<le> v) calls \<longrightarrow>
       (\<forall>(i, w) \<in> set calls. i < NearestIndex t when \<longrightarrow> w \<le> when))"
proof -
  let ?T = "tt_table t" and ?f = "\<lambda>i. \<not> tte_Time (tt_table t ! i) > when"
  let ?k = "sort_Search (length ?T) ?f"
  note I = table_run_inv [OF assms]
  have s: "sorted_wrt (newer g) ?T" using I by (auto simp: table_inv_def)
  have order: "tte_Time (?T ! j) \<le> tte_Time (?T ! i) \<and> tte_Index (?T ! j) \<le> tte_Index (?T ! i)" if "i \<le> j" "j < length ?T" for i j
    using sorted_wrt_nth_less [OF s, of i j] that assms(2) by (cases "i = j") (auto simp: newer_def)
  have mono: "?f j" if "i \<le> j" "j < length ?T" "?f i" for i j using order [OF that(1,2)] that(3) by simp
  have S: "?f j" if "j < length ?T" "?k \<le> j" for j by (rule sort_Search_least(3) [OF mono that])
  have S': "\<not> ?f j" if "j < ?k" for j by (rule sort_Search_least(2) [OF mono that])
  have N: "NearestIndex t when = (if ?k < length ?T then tte_Index (?T ! ?k) else 0)"
    by (simp add: NearestIndex_def Let_def)
  have up: "tte_Index e \<le> NearestIndex t when" if e: "e \<in> set ?T" "tte_Time e \<le> when" for e
  proof -
    obtain j where j: "j < length ?T" "e = ?T ! j" using e(1) by (metis in_set_conv_nth)
    have "?k \<le> j" using S' [of j] e(2) j by (cases "j < ?k") auto
    with order [of ?k j] j show ?thesis by (simp add: N)
  qed
  have hit: "NearestIndex t when = 0 \<or> (\<exists>e \<in> set ?T. tte_Time e \<le> when \<and> tte_Index e = NearestIndex t when)"
    using S [of ?k] by (auto simp: N not_less)
  have "w \<le> when" if c: "sorted_wrt (\<lambda>(i, w) (j, v). i \<le> j \<and> w \<le> v) calls" "(i, w) \<in> set calls" "i < NearestIndex t when" for i w
  proof -
    from hit c(3) obtain e where e: "e \<in> set ?T" "tte_Time e \<le> when" "tte_Index e = NearestIndex t when" by auto
    with c(3) I have "(tte_Index e, tte_Time e) \<in> set calls" by (force simp: zero_entry_def)
    then obtain a b where ab: "a < length calls" "b < length calls" "calls ! a = (i, w)" "calls ! b = (tte_Index e, tte_Time e)"
      using c(2) by (metis in_set_conv_nth)
    have "a < b" using sorted_wrt_nth_less [OF c(1), of b a] ab c(3) e(3) by (cases "a = b") force+
    with sorted_wrt_nth_less [OF c(1), of a b] ab e(2) show ?thesis by simp
  qed
  then show ?thesis using up hit by auto
qed

theorem NearestIndex_threshold_witness:
  "NearestIndex ex_table 1030 = 20 \<and> (\<exists>e \<in> set (tt_table ex_table). tte_Time e \<le> 1030 \<and> tte_Index e = 20)"
proof -
  have "NearestIndex ex_table 1030 = 20" by (simp add: ex_table_def) code_simp
  with NearestIndex_threshold [OF ex_table_run, of 1030] show ?thesis by (simp add: int64_def)
qed

end
