(* ===== verification/State_Store.thy ===== *)
theory State_Store
  imports Alloc_Fit "HOL-Library.List_Lexorder"
begin

text \<open>
  \<^verbatim>\<open>nomad/state/state_store.go\<close>: the replicated state. Every operation is one transaction on the
  tables; an error aborts it.

  A memdb table is an association list from the key of its \<open>id\<close> index to the row. The indexes on
  job IDs and node IDs fold letters to lower case; the other keys are UUIDs. A lookup through a
  secondary index is a filter, and its order is the order of the table, except for the versions
  of a job, whose order the code relies on. A write transaction is a function to an error or the
  new state. Watch sets, iterators over whole tables, the periodic-launch and Vault tables and the
  restore of a snapshot are not modelled, nor are the errors of memdb itself: rows carry the
  fields their indexes need. A log line has no effect.
\<close>

section \<open>Rows and tables\<close>

record tg_summary =
  tgs_Queued :: int
  tgs_Complete :: int
  tgs_Failed :: int
  tgs_Running :: int
  tgs_Starting :: int
  tgs_Lost :: int

record children_summary =
  cs_Pending :: int
  cs_Running :: int
  cs_Dead :: int

record job_summary =
  js_JobID :: string
  js_Summary :: "(string \<times> tg_summary) list"
  js_Children :: "children_summary option"
  js_CreateIndex :: nat
  js_ModifyIndex :: nat

definition zero_tg_summary :: tg_summary where
  "zero_tg_summary = \<lparr>tgs_Queued = 0, tgs_Complete = 0, tgs_Failed = 0, tgs_Running = 0, tgs_Starting = 0, tgs_Lost = 0\<rparr>"

definition zero_children :: children_summary where
  "zero_children = \<lparr>cs_Pending = 0, cs_Running = 0, cs_Dead = 0\<rparr>"

text \<open>\<open>strings.ToLower\<close> on ASCII.\<close>

definition lower :: "string \<Rightarrow> string" where
  "lower = map (\<lambda>c. case map_of (zip ''ABCDEFGHIJKLMNOPQRSTUVWXYZ'' ''abcdefghijklmnopqrstuvwxyz'') c of
     None \<Rightarrow> c | Some d \<Rightarrow> d)"

text \<open>\<open>binary.PutUvarint\<close>, into the eight bytes the index of an unsigned field has.\<close>

fun uvarint :: "nat \<Rightarrow> nat list" where
  "uvarint n = (if n < 128 then [n] else (n mod 128 + 128) # uvarint (n div 128))"

declare uvarint.simps [simp del]

definition version_key :: "nat \<Rightarrow> nat list" where
  "version_key v = uvarint v @ replicate (8 - length (uvarint v)) 0"

record state_store =
  ss_nodes :: "(string \<times> node) list"
  ss_jobs :: "(string \<times> job) list"
  ss_job_version :: "((string \<times> nat) \<times> job) list"
  ss_job_summary :: "(string \<times> job_summary) list"
  ss_deployment :: "(string \<times> deployment) list"
  ss_evals :: "(string \<times> evaluation) list"
  ss_allocs :: "(string \<times> allocation) list"
  ss_index :: "(string \<times> nat) list"

definition NewStateStore :: state_store where
  "NewStateStore = \<lparr>ss_nodes = [], ss_jobs = [], ss_job_version = [], ss_job_summary = [],
     ss_deployment = [], ss_evals = [], ss_allocs = [], ss_index = []\<rparr>"

datatype state_error =
    NodeNotFound | JobNotFound | DeploymentNotFound
  | UnknownOldStatus string | UnknownNewStatus string
  | AllocWithoutJob string | UnknownDeployment string string
  | SummaryNotPresent string | TaskGroupNotInSummary string
  | DeploymentDoesNotExist string | DeploymentTerminal string string
  | UnknownAlloc string | AllocNotInDeployment string string
  | UnhealthyCanaries "(string \<times> string) list"

type_synonym txn = "state_error + state_store"

definition and_then :: "'e + 'a \<Rightarrow> ('a \<Rightarrow> 'e + 'b) \<Rightarrow> 'e + 'b" where
  "and_then m f = (case m of Inl e \<Rightarrow> Inl e | Inr x \<Rightarrow> f x)"

lemma and_then_simps [simp]: "and_then (Inl e) f = Inl e" "and_then (Inr x) f = f x"
  by (simp_all add: and_then_def)

lemma and_then_assoc: "and_then (and_then m f) g = and_then m (\<lambda>x. and_then (f x) g)"
  by (cases m) simp_all

lemma and_then_Inr: "and_then m f = Inr y \<longleftrightarrow> (\<exists>x. m = Inr x \<and> f x = Inr y)"
  by (cases m) auto

text \<open>Commit the transaction or abort it.\<close>

definition commit :: "state_store \<Rightarrow> txn \<Rightarrow> state_error option \<times> state_store" where
  "commit s t = (case t of Inl e \<Rightarrow> (Some e, s) | Inr s' \<Rightarrow> (None, s'))"

definition set_index :: "string \<Rightarrow> nat \<Rightarrow> state_store \<Rightarrow> state_store" where
  "set_index name i s = s\<lparr>ss_index := amap_put name i (ss_index s)\<rparr>"

definition insert_job :: "job \<Rightarrow> state_store \<Rightarrow> state_store" where
  "insert_job j s = s\<lparr>ss_jobs := amap_put (lower (j_ID j)) j (ss_jobs s)\<rparr>"

definition insert_summary :: "job_summary \<Rightarrow> state_store \<Rightarrow> state_store" where
  "insert_summary js s = s\<lparr>ss_job_summary := amap_put (lower (js_JobID js)) js (ss_job_summary s)\<rparr>"

definition insert_eval :: "evaluation \<Rightarrow> state_store \<Rightarrow> state_store" where
  "insert_eval e s = s\<lparr>ss_evals := amap_put (ev_ID e) e (ss_evals s)\<rparr>"

definition insert_alloc :: "allocation \<Rightarrow> state_store \<Rightarrow> state_store" where
  "insert_alloc a s = s\<lparr>ss_allocs := amap_put (a_ID a) a (ss_allocs s)\<rparr>"

section \<open>Queries\<close>

definition NodeByID :: "state_store \<Rightarrow> string \<Rightarrow> node option" where
  "NodeByID s nodeID = map_of (ss_nodes s) nodeID"

definition JobByID :: "state_store \<Rightarrow> string \<Rightarrow> job option" where
  "JobByID s jobID = map_of (ss_jobs s) (lower jobID)"

definition JobSummaryByID :: "state_store \<Rightarrow> string \<Rightarrow> job_summary option" where
  "JobSummaryByID s jobID = map_of (ss_job_summary s) (lower jobID)"

definition EvalByID :: "state_store \<Rightarrow> string \<Rightarrow> evaluation option" where
  "EvalByID s x = map_of (ss_evals s) x"

definition AllocByID :: "state_store \<Rightarrow> string \<Rightarrow> allocation option" where
  "AllocByID s x = map_of (ss_allocs s) x"

definition DeploymentByID :: "state_store \<Rightarrow> string \<Rightarrow> deployment option" where
  "DeploymentByID s x = map_of (ss_deployment s) x"

definition rows :: "('k \<times> 'r) list \<Rightarrow> ('r \<Rightarrow> bool) \<Rightarrow> 'r list" where
  "rows table P = filter P (map snd table)"

definition EvalsByJob :: "state_store \<Rightarrow> string \<Rightarrow> evaluation list" where
  "EvalsByJob s jobID = rows (ss_evals s) (\<lambda>e. ev_JobID e = jobID)"

text \<open>The prefix index on node IDs.\<close>

definition AllocsByNode :: "state_store \<Rightarrow> string \<Rightarrow> allocation list" where
  "AllocsByNode s nodeID =
     rows (ss_allocs s) (\<lambda>a. take (length nodeID) (lower (a_NodeID a)) = lower nodeID)"

definition AllocsByNodeTerminal :: "state_store \<Rightarrow> string \<Rightarrow> bool \<Rightarrow> allocation list" where
  "AllocsByNodeTerminal s nodeID terminal =
     rows (ss_allocs s) (\<lambda>a. lower (a_NodeID a) = lower nodeID \<and> alloc_TerminalStatus a = terminal)"

definition allocs_of_job :: "state_store \<Rightarrow> string \<Rightarrow> allocation list" where
  "allocs_of_job s jobID = rows (ss_allocs s) (\<lambda>a. lower (a_JobID a) = lower jobID)"

text \<open>The loop of \<open>AllocsByJob\<close>; an allocation without a job makes it panic.\<close>

fun same_registration :: "job \<Rightarrow> allocation list \<Rightarrow> allocation list option" where
  "same_registration job [] = Some []"
| "same_registration job (a # as) =
     (case a_Job a of
        None \<Rightarrow> None
      | Some j \<Rightarrow> if j_CreateIndex j \<noteq> j_CreateIndex job then same_registration job as
                  else map_option ((#) a) (same_registration job as))"

definition AllocsByJob :: "state_store \<Rightarrow> string \<Rightarrow> bool \<Rightarrow> allocation list option" where
  "AllocsByJob s jobID all =
     (case JobByID s jobID of
        None \<Rightarrow> Some (allocs_of_job s jobID)
      | Some job \<Rightarrow> if all then Some (allocs_of_job s jobID) else same_registration job (allocs_of_job s jobID))"

definition AllocsByEval :: "state_store \<Rightarrow> string \<Rightarrow> allocation list" where
  "AllocsByEval s evalID = rows (ss_allocs s) (\<lambda>a. a_EvalID a = evalID)"

definition AllocsByDeployment :: "state_store \<Rightarrow> string \<Rightarrow> allocation list" where
  "AllocsByDeployment s deploymentID = rows (ss_allocs s) (\<lambda>a. a_DeploymentID a = deploymentID)"

definition DeploymentsByJobID :: "state_store \<Rightarrow> string \<Rightarrow> deployment list" where
  "DeploymentsByJobID s jobID = rows (ss_deployment s) (\<lambda>d. lower (d_JobID d) = lower jobID)"

definition LatestDeploymentByJobID :: "state_store \<Rightarrow> string \<Rightarrow> deployment option" where
  "LatestDeploymentByJobID s jobID =
     fold (\<lambda>d out. case out of
             None \<Rightarrow> Some d
           | Some latest \<Rightarrow> if d_CreateIndex latest < d_CreateIndex d then Some d else out)
          (DeploymentsByJobID s jobID) None"

definition ss_Index :: "state_store \<Rightarrow> string \<Rightarrow> nat" where
  "ss_Index s name = amap_get 0 (ss_index s) name"

definition LatestIndex :: "state_store \<Rightarrow> nat" where
  "LatestIndex s = fold (\<lambda>(_, v) m. if v > m then v else m) (ss_index s) 0"

text \<open>The versions of a job: the order of the index keys, reversed.\<close>

definition jobVersionByID :: "state_store \<Rightarrow> string \<Rightarrow> job list" where
  "jobVersionByID s jobID =
     rev (sort_key (\<lambda>j. version_key (j_Version j)) (rows (ss_job_version s) (\<lambda>j. j_ID j = jobID)))"

definition jobByIDAndVersionImpl :: "state_store \<Rightarrow> string \<Rightarrow> nat \<Rightarrow> job option" where
  "jobByIDAndVersionImpl s jobID version = map_of (ss_job_version s) (lower jobID, version)"

section \<open>Job status\<close>

definition getJobStatus :: "state_store \<Rightarrow> job \<Rightarrow> bool \<Rightarrow> string" where
  "getJobStatus s job evalDelete =
     (let allocs = allocs_of_job s (j_ID job); evals = EvalsByJob s (j_ID job) in
      if list_ex (\<lambda>a. \<not> alloc_TerminalStatus a) allocs then JobStatusRunning
      else if list_ex (\<lambda>e. \<not> eval_TerminalStatus e) evals then JobStatusPending
      else if j_Type job = JobTypeSystem then (if j_Stop job then JobStatusDead else JobStatusRunning)
      else if evalDelete \<or> evals \<noteq> [] \<or> allocs \<noteq> [] then JobStatusDead
      else if IsPeriodic job \<or> IsParameterized job then (if j_Stop job then JobStatusDead else JobStatusRunning)
      else JobStatusPending)"

definition dec_child :: "string \<Rightarrow> children_summary \<Rightarrow> state_error + children_summary" where
  "dec_child oldStatus c =
     (if oldStatus = '''' then Inr c
      else if oldStatus = JobStatusPending then Inr (c\<lparr>cs_Pending := cs_Pending c - 1\<rparr>)
      else if oldStatus = JobStatusRunning then Inr (c\<lparr>cs_Running := cs_Running c - 1\<rparr>)
      else if oldStatus = JobStatusDead then Inr (c\<lparr>cs_Dead := cs_Dead c - 1\<rparr>)
      else Inl (UnknownOldStatus oldStatus))"

definition inc_child :: "string \<Rightarrow> children_summary \<Rightarrow> state_error + children_summary" where
  "inc_child newStatus c =
     (if newStatus = JobStatusPending then Inr (c\<lparr>cs_Pending := cs_Pending c + 1\<rparr>)
      else if newStatus = JobStatusRunning then Inr (c\<lparr>cs_Running := cs_Running c + 1\<rparr>)
      else if newStatus = JobStatusDead then Inr (c\<lparr>cs_Dead := cs_Dead c + 1\<rparr>)
      else Inl (UnknownNewStatus newStatus))"

definition setJobStatus :: "nat \<Rightarrow> job \<Rightarrow> bool \<Rightarrow> string \<Rightarrow> state_store \<Rightarrow> txn" where
  "setJobStatus index job evalDelete forceStatus s =
     (let oldStatus = (if index = j_CreateIndex job then '''' else j_Status job);
          newStatus = (if forceStatus = '''' then getJobStatus s job evalDelete else forceStatus)
      in if oldStatus = newStatus then Inr s
         else
           let updated = job\<lparr>j_Status := newStatus, j_ModifyIndex := index\<rparr>;
               s1 = set_index ''jobs'' index (insert_job updated s)
           in if j_ParentID updated = '''' then Inr s1
              else case JobSummaryByID s1 (j_ParentID updated) of
                None \<Rightarrow> Inr s1
              | Some existing \<Rightarrow>
                  let children = (case js_Children existing of None \<Rightarrow> zero_children | Some c \<Rightarrow> c)
                  in and_then (dec_child oldStatus children) (\<lambda>c1.
                     and_then (inc_child newStatus c1) (\<lambda>c2.
                       Inr (set_index ''job_summary'' index (insert_summary
                         (existing\<lparr>js_Children := Some c2, js_ModifyIndex := index\<rparr>) s1)))))"

fun setJobStatuses :: "nat \<Rightarrow> (string \<times> string) list \<Rightarrow> bool \<Rightarrow> state_store \<Rightarrow> txn" where
  "setJobStatuses index [] evalDelete s = Inr s"
| "setJobStatuses index ((jb, forceStatus) # jobs) evalDelete s =
     (case JobByID s jb of
        None \<Rightarrow> setJobStatuses index jobs evalDelete s
      | Some existing \<Rightarrow>
          and_then (setJobStatus index existing evalDelete forceStatus s) (setJobStatuses index jobs evalDelete))"


section \<open>Nodes\<close>

definition UpsertNode :: "nat \<Rightarrow> node \<Rightarrow> state_store \<Rightarrow> state_store" where
  "UpsertNode index node s =
     (let node1 = (case NodeByID s (n_ID node) of
                     Some exist \<Rightarrow> node\<lparr>n_CreateIndex := n_CreateIndex exist, n_ModifyIndex := index, n_Drain := n_Drain exist\<rparr>
                   | None \<Rightarrow> node\<lparr>n_CreateIndex := index, n_ModifyIndex := index\<rparr>)
      in set_index ''nodes'' index (s\<lparr>ss_nodes := amap_put (n_ID node1) node1 (ss_nodes s)\<rparr>))"

definition DeleteNode :: "nat \<Rightarrow> string \<Rightarrow> state_store \<Rightarrow> state_error option \<times> state_store" where
  "DeleteNode index nodeID s = commit s
     (case NodeByID s nodeID of
        None \<Rightarrow> Inl NodeNotFound
      | Some existing \<Rightarrow> Inr (set_index ''nodes'' index (s\<lparr>ss_nodes := amap_del (n_ID existing) (ss_nodes s)\<rparr>)))"

definition UpdateNodeStatus :: "nat \<Rightarrow> string \<Rightarrow> string \<Rightarrow> state_store \<Rightarrow> state_error option \<times> state_store" where
  "UpdateNodeStatus index nodeID status s = commit s
     (case NodeByID s nodeID of
        None \<Rightarrow> Inl NodeNotFound
      | Some existing \<Rightarrow>
          let copyNode = existing\<lparr>n_Status := status, n_ModifyIndex := index\<rparr>
          in Inr (set_index ''nodes'' index (s\<lparr>ss_nodes := amap_put (n_ID copyNode) copyNode (ss_nodes s)\<rparr>)))"

definition UpdateNodeDrain :: "nat \<Rightarrow> string \<Rightarrow> bool \<Rightarrow> state_store \<Rightarrow> state_error option \<times> state_store" where
  "UpdateNodeDrain index nodeID drain s = commit s
     (case NodeByID s nodeID of
        None \<Rightarrow> Inl NodeNotFound
      | Some existing \<Rightarrow>
          let copyNode = existing\<lparr>n_Drain := drain, n_ModifyIndex := index\<rparr>
          in Inr (set_index ''nodes'' index (s\<lparr>ss_nodes := amap_put (n_ID copyNode) copyNode (ss_nodes s)\<rparr>)))"

section \<open>Jobs\<close>

text \<open>
  \<open>addEphemeralDiskToTaskGroups\<close> updates the job in place, so the rows that already hold the job
  see the change too; the model applies it before the first insert.
\<close>

definition ephemeral_group :: "task_group \<Rightarrow> task_group" where
  "ephemeral_group tg =
     (let diskMB = fold (\<lambda>t d. case t_Resources t of None \<Rightarrow> d | Some r \<Rightarrow> wrap64 (d + r_DiskMB r)) (tg_Tasks tg) 0;
          tg1 = tg\<lparr>tg_Tasks := map (\<lambda>t. t\<lparr>t_Resources := map_option (\<lambda>r. r\<lparr>r_DiskMB := 0\<rparr>) (t_Resources t)\<rparr>) (tg_Tasks tg)\<rparr>
      in case tg_EphemeralDisk tg of
           Some _ \<Rightarrow> tg1
         | None \<Rightarrow> tg1\<lparr>tg_EphemeralDisk := Some \<lparr>ed_Sticky = False, ed_SizeMB = diskMB, ed_Migrate = False\<rparr>\<rparr>)"

definition addEphemeralDiskToTaskGroups :: "job \<Rightarrow> job" where
  "addEphemeralDiskToTaskGroups j = j\<lparr>j_TaskGroups := map ephemeral_group (j_TaskGroups j)\<rparr>"

definition updateSummaryWithJob :: "nat \<Rightarrow> job \<Rightarrow> state_store \<Rightarrow> state_store" where
  "updateSummaryWithJob index job s =
     (let (summary, changed) =
            (case JobSummaryByID s (j_ID job) of
               Some existing \<Rightarrow> (existing, False)
             | None \<Rightarrow> (\<lparr>js_JobID = j_ID job, js_Summary = [], js_Children = Some zero_children,
                         js_CreateIndex = index, js_ModifyIndex = 0\<rparr>, True));
          (groups, changed') =
            fold (\<lambda>tg (m, c). if map_of m (tg_Name tg) = None then (amap_put (tg_Name tg) zero_tg_summary m, True) else (m, c))
              (j_TaskGroups job) (js_Summary summary, changed)
      in if changed'
         then insert_summary (summary\<lparr>js_Summary := groups, js_ModifyIndex := index\<rparr>) (set_index ''job_summary'' index s)
         else s)"

definition JobTrackedVersions :: nat where "JobTrackedVersions = 6"

definition stable_index :: "job list \<Rightarrow> nat option" where
  "stable_index all = (let i = length (takeWhile (\<lambda>j. \<not> j_Stable j) all) in if i < length all then Some i else None)"

definition upsertJobVersion :: "nat \<Rightarrow> job \<Rightarrow> state_store \<Rightarrow> state_store" where
  "upsertJobVersion index job s =
     (let s1 = set_index ''job_version'' index
                 (s\<lparr>ss_job_version := amap_put (lower (j_ID job), j_Version job) job (ss_job_version s)\<rparr>);
          all = jobVersionByID s1 (j_ID job)
      in if length all \<le> JobTrackedVersions then s1
         else
           let mx = JobTrackedVersions;
               all' = (if stable_index all = Some mx then swap all (mx - 1) mx else all);
               d = all' ! mx
           in s1\<lparr>ss_job_version := amap_del (lower (j_ID d), j_Version d) (ss_job_version s1)\<rparr>)"

definition upsertJobImpl :: "nat \<Rightarrow> job \<Rightarrow> bool \<Rightarrow> state_store \<Rightarrow> txn" where
  "upsertJobImpl index job keepVersion s =
     and_then
       (case JobByID s (j_ID job) of
          Some existing \<Rightarrow>
            (let job1 = job\<lparr>j_CreateIndex := j_CreateIndex existing, j_ModifyIndex := index\<rparr>;
                 job2 = (if keepVersion then job1
                         else job1\<lparr>j_JobModifyIndex := index, j_Version := j_Version existing + 1\<rparr>)
             in Inr (job2\<lparr>j_Status := getJobStatus s job2 False\<rparr>, s))
        | None \<Rightarrow>
            (let job1 = job\<lparr>j_CreateIndex := index, j_ModifyIndex := index, j_JobModifyIndex := index, j_Version := 0\<rparr>
             in and_then (setJobStatus index job1 False '''' s) (\<lambda>s1.
                  Inr (case JobByID s1 (j_ID job1) of Some updated \<Rightarrow> updated | None \<Rightarrow> job1, s1))))
       (\<lambda>(job0, s0).
          let job' = addEphemeralDiskToTaskGroups job0;
              s1 = upsertJobVersion index job' (updateSummaryWithJob index job' s0)
          in Inr (set_index ''jobs'' index (insert_job job' s1)))"

definition UpsertJob :: "nat \<Rightarrow> job \<Rightarrow> state_store \<Rightarrow> state_error option \<times> state_store" where
  "UpsertJob index job s = commit s (upsertJobImpl index job False s)"

text \<open>Every round of the loop deletes the version of the job that is passed in.\<close>

definition deleteJobVersions :: "nat \<Rightarrow> job \<Rightarrow> state_store \<Rightarrow> state_store" where
  "deleteJobVersions index job s =
     set_index ''job_summary'' index
       (fold (\<lambda>_ s. s\<lparr>ss_job_version := amap_del (lower (j_ID job), j_Version job) (ss_job_version s)\<rparr>)
          (rows (ss_job_version s) (\<lambda>j. j_ID j = j_ID job)) s)"

text \<open>The effect of deleting a child on the summary of its parent.\<close>

definition bury_child :: "nat \<Rightarrow> job \<Rightarrow> state_store \<Rightarrow> txn" where
  "bury_child index job s =
     (if j_ParentID job = '''' then Inr s
      else case JobSummaryByID s (j_ParentID job) of
        None \<Rightarrow> Inr s
      | Some existing \<Rightarrow>
          (case js_Children existing of
             None \<Rightarrow> Inr s
           | Some c \<Rightarrow>
               let put = (\<lambda>c'. Inr (set_index ''job_summary'' index (insert_summary
                     (existing\<lparr>js_Children := Some c', js_ModifyIndex := index\<rparr>) s)))
               in if j_Status job = JobStatusPending
                  then put (c\<lparr>cs_Pending := cs_Pending c - 1, cs_Dead := cs_Dead c + 1\<rparr>)
                  else if j_Status job = JobStatusRunning
                  then put (c\<lparr>cs_Running := cs_Running c - 1, cs_Dead := cs_Dead c + 1\<rparr>)
                  else if j_Status job = JobStatusDead then Inr s
                  else Inl (UnknownOldStatus (j_Status job))))"

definition DeleteJob :: "nat \<Rightarrow> string \<Rightarrow> state_store \<Rightarrow> state_error option \<times> state_store" where
  "DeleteJob index jobID s = commit s
     (case JobByID s jobID of
        None \<Rightarrow> Inl JobNotFound
      | Some job \<Rightarrow>
          and_then (bury_child index job s) (\<lambda>s1.
            let s2 = set_index ''jobs'' index (s1\<lparr>ss_jobs := amap_del (lower (j_ID job)) (ss_jobs s1)\<rparr>);
                s3 = deleteJobVersions index job s2
            in Inr (set_index ''job_summary'' index
                 (s3\<lparr>ss_job_summary := amap_del (lower jobID) (ss_job_summary s3)\<rparr>))))"

definition updateJobStabilityImpl :: "nat \<Rightarrow> string \<Rightarrow> nat \<Rightarrow> bool \<Rightarrow> state_store \<Rightarrow> txn" where
  "updateJobStabilityImpl index jobID jobVersion stab s =
     (case jobByIDAndVersionImpl s jobID jobVersion of
        None \<Rightarrow> Inr s
      | Some job \<Rightarrow> if j_Stable job = stab then Inr s
                    else upsertJobImpl index (job\<lparr>j_Stable := stab\<rparr>) True s)"

definition UpdateJobStability :: "nat \<Rightarrow> string \<Rightarrow> nat \<Rightarrow> bool \<Rightarrow> state_store \<Rightarrow> state_error option \<times> state_store" where
  "UpdateJobStability index jobID jobVersion stab s = commit s (updateJobStabilityImpl index jobID jobVersion stab s)"

section \<open>Deployments\<close>

definition upsertDeploymentImpl :: "nat \<Rightarrow> deployment \<Rightarrow> state_store \<Rightarrow> txn" where
  "upsertDeploymentImpl index deployment s =
     (let d = (case DeploymentByID s (d_ID deployment) of
                 Some existing \<Rightarrow> deployment\<lparr>d_CreateIndex := d_CreateIndex existing, d_ModifyIndex := index\<rparr>
               | None \<Rightarrow> deployment\<lparr>d_CreateIndex := index, d_ModifyIndex := index\<rparr>);
          s1 = set_index ''deployment'' index (s\<lparr>ss_deployment := amap_put (d_ID d) d (ss_deployment s)\<rparr>)
      in if d_Status d = DeploymentStatusSuccessful
         then updateJobStabilityImpl index (d_JobID d) (d_JobVersion d) True s1
         else Inr s1)"

definition UpsertDeployment :: "nat \<Rightarrow> deployment \<Rightarrow> state_store \<Rightarrow> state_error option \<times> state_store" where
  "UpsertDeployment index deployment s = commit s (upsertDeploymentImpl index deployment s)"

fun delete_deployments :: "string list \<Rightarrow> state_store \<Rightarrow> txn" where
  "delete_deployments [] s = Inr s"
| "delete_deployments (x # xs) s =
     (case DeploymentByID s x of
        None \<Rightarrow> Inl DeploymentNotFound
      | Some existing \<Rightarrow> delete_deployments xs (s\<lparr>ss_deployment := amap_del (d_ID existing) (ss_deployment s)\<rparr>))"

definition DeleteDeployment :: "nat \<Rightarrow> string list \<Rightarrow> state_store \<Rightarrow> state_error option \<times> state_store" where
  "DeleteDeployment index deploymentIDs s =
     (if deploymentIDs = [] then (None, s)
      else commit s (and_then (delete_deployments deploymentIDs s) (\<lambda>s1. Inr (set_index ''deployment'' index s1))))"

text \<open>The deployment an update refers to, which has to be active.\<close>

definition active_deployment :: "string \<Rightarrow> state_store \<Rightarrow> state_error + deployment" where
  "active_deployment x s =
     (case DeploymentByID s x of
        None \<Rightarrow> Inl (DeploymentDoesNotExist x)
      | Some d \<Rightarrow> if \<not> deployment_Active d then Inl (DeploymentTerminal (d_ID d) (d_Status d)) else Inr d)"

definition updateDeploymentStatusImpl :: "nat \<Rightarrow> deployment_status_update \<Rightarrow> state_store \<Rightarrow> txn" where
  "updateDeploymentStatusImpl index u s =
     and_then (active_deployment (dsu_DeploymentID u) s) (\<lambda>deployment.
       let copy = deployment\<lparr>d_Status := dsu_Status u, d_StatusDescription := dsu_StatusDescription u, d_ModifyIndex := index\<rparr>;
           s1 = set_index ''deployment'' index (s\<lparr>ss_deployment := amap_put (d_ID copy) copy (ss_deployment s)\<rparr>)
       in if d_Status copy = DeploymentStatusSuccessful
          then updateJobStabilityImpl index (d_JobID copy) (d_JobVersion copy) True s1
          else Inr s1)"

text \<open>
  The updates up to the first that fails; the caller drops its error and keeps what was done. The
  only errors are those raised before the deployment is written.
\<close>

fun upsertDeploymentUpdates :: "nat \<Rightarrow> deployment_status_update list \<Rightarrow> state_store \<Rightarrow> state_store" where
  "upsertDeploymentUpdates index [] s = s"
| "upsertDeploymentUpdates index (u # us) s =
     (case updateDeploymentStatusImpl index u s of
        Inl _ \<Rightarrow> s
      | Inr s1 \<Rightarrow> upsertDeploymentUpdates index us s1)"


section \<open>Evaluations\<close>

text \<open>The loop over the queued allocations of an evaluation; groups that are not in the summary are skipped.\<close>

definition update_queued :: "(string \<times> int) list \<Rightarrow> (string \<times> tg_summary) list \<Rightarrow> (string \<times> tg_summary) list \<times> bool" where
  "update_queued queued groups =
     fold (\<lambda>(tg, num) (m, changed).
             case map_of m tg of
               None \<Rightarrow> (m, changed)
             | Some summary \<Rightarrow> if tgs_Queued summary \<noteq> num then (amap_put tg (summary\<lparr>tgs_Queued := num\<rparr>) m, True)
                               else (m, changed))
          queued (groups, False)"

definition successful_description :: "string \<Rightarrow> string" where
  "successful_description x = ''evaluation '' @ [CHR 0x22] @ x @ [CHR 0x22] @ '' successful''"

definition cancel_eval :: "nat \<Rightarrow> evaluation \<Rightarrow> state_store \<Rightarrow> state_store" where
  "cancel_eval index e s = insert_eval (e\<lparr>ev_Status := EvalStatusCancelled,
     ev_StatusDescription := successful_description (ev_ID e), ev_ModifyIndex := index\<rparr>) s"

definition summarise_queued :: "nat \<Rightarrow> evaluation \<Rightarrow> state_store \<Rightarrow> state_store" where
  "summarise_queued index eval s =
     (case JobSummaryByID s (ev_JobID eval) of
        None \<Rightarrow> s
      | Some js \<Rightarrow>
          (let (groups, changed) = update_queued (ev_QueuedAllocations eval) (js_Summary js)
           in if changed
              then set_index ''job_summary'' index (insert_summary (js\<lparr>js_Summary := groups, js_ModifyIndex := index\<rparr>) s)
              else s))"

definition cancel_blocked :: "nat \<Rightarrow> evaluation \<Rightarrow> state_store \<Rightarrow> state_store" where
  "cancel_blocked index eval s =
     (if ev_Status eval = EvalStatusComplete \<and> ev_FailedTGAllocs eval = []
      then fold (cancel_eval index)
             (rows (ss_evals s) (\<lambda>e. lower (ev_JobID e) = lower (ev_JobID eval) \<and> lower (ev_Status e) = EvalStatusBlocked)) s
      else s)"

definition nestedUpsertEval :: "nat \<Rightarrow> evaluation \<Rightarrow> state_store \<Rightarrow> state_store" where
  "nestedUpsertEval index eval s =
     (let eval1 = (case EvalByID s (ev_ID eval) of
                     Some existing \<Rightarrow> eval\<lparr>ev_CreateIndex := ev_CreateIndex existing, ev_ModifyIndex := index\<rparr>
                   | None \<Rightarrow> eval\<lparr>ev_CreateIndex := index, ev_ModifyIndex := index\<rparr>)
      in set_index ''evals'' index (insert_eval eval1 (cancel_blocked index eval1 (summarise_queued index eval1 s))))"

text \<open>A Go map from job ID to forced status, built by the callers of \<open>setJobStatuses\<close>.\<close>

definition UpsertEvals :: "nat \<Rightarrow> evaluation list \<Rightarrow> state_store \<Rightarrow> state_error option \<times> state_store" where
  "UpsertEvals index evals s = commit s
     (let (s1, jobs) = fold (\<lambda>eval (s, jobs). (nestedUpsertEval index eval s, amap_put (ev_JobID eval) '''' jobs)) evals (s, [])
      in setJobStatuses index jobs False s1)"

definition DeleteEval :: "nat \<Rightarrow> string list \<Rightarrow> string list \<Rightarrow> state_store \<Rightarrow> state_error option \<times> state_store" where
  "DeleteEval index evals allocs s = commit s
     (let (s1, jobs) =
            fold (\<lambda>x (s, jobs).
                    case EvalByID s x of
                      None \<Rightarrow> (s, jobs)
                    | Some existing \<Rightarrow> (s\<lparr>ss_evals := amap_del (ev_ID existing) (ss_evals s)\<rparr>,
                                       amap_put (ev_JobID existing) '''' jobs))
                 evals (s, []);
          s2 = fold (\<lambda>x s.
                    case AllocByID s x of
                      None \<Rightarrow> s
                    | Some existing \<Rightarrow> s\<lparr>ss_allocs := amap_del (a_ID existing) (ss_allocs s)\<rparr>)
                 allocs s1;
          s3 = set_index ''allocs'' index (set_index ''evals'' index s2)
      in setJobStatuses index jobs True s3)"

section \<open>Allocations\<close>

abbreviation health :: "alloc_deployment_status option \<Rightarrow> bool option" where
  "health ds \<equiv> Option.bind ds ads_Healthy"

text \<open>How an update of an allocation changes the counters of its group: placed, healthy, unhealthy.\<close>

definition health_change :: "allocation \<Rightarrow> allocation option \<Rightarrow> int \<times> int \<times> int" where
  "health_change alloc existing =
     (case existing of
        None \<Rightarrow> (1, 0, 0)
      | Some e \<Rightarrow>
          if a_DeploymentID e \<noteq> a_DeploymentID alloc then (1, 0, 0)
          else case (health (a_DeploymentStatus e), health (a_DeploymentStatus alloc)) of
            (None, Some True) \<Rightarrow> (0, 1, 0)
          | (None, Some False) \<Rightarrow> (0, 0, 1)
          | (Some True, Some False) \<Rightarrow> (0, -1, 1)
          | _ \<Rightarrow> (0, 0, 0))"

definition updateDeploymentWithAlloc ::
  "nat \<Rightarrow> allocation \<Rightarrow> allocation option \<Rightarrow> state_store \<Rightarrow> state_error + allocation \<times> state_store" where
  "updateDeploymentWithAlloc index alloc existing s =
     (if a_DeploymentID alloc = '''' then Inr (alloc, s)
      else case DeploymentByID s (a_DeploymentID alloc) of
        None \<Rightarrow> Inl (UnknownDeployment (a_ID alloc) (a_DeploymentID alloc))
      | Some deployment \<Rightarrow>
          (case map_of (d_TaskGroups deployment) (a_TaskGroup alloc) of
             None \<Rightarrow> Inr (alloc, s)
           | Some state \<Rightarrow>
               (let (placed, healthy, unhealthy) = health_change alloc existing in
                if placed = 0 \<and> healthy = 0 \<and> unhealthy = 0 then Inr (alloc, s)
                else
                  let alloc1 = (case a_DeploymentStatus alloc of
                                  None \<Rightarrow> alloc
                                | Some ds \<Rightarrow> if healthy + unhealthy \<noteq> 0
                                             then alloc\<lparr>a_DeploymentStatus := Some (ds\<lparr>ads_ModifyIndex := index\<rparr>)\<rparr>
                                             else alloc);
                      state1 = state\<lparr>ds_PlacedAllocs := ds_PlacedAllocs state + placed,
                                     ds_HealthyAllocs := ds_HealthyAllocs state + healthy,
                                     ds_UnhealthyAllocs := ds_UnhealthyAllocs state + unhealthy\<rparr>;
                      copy = deployment\<lparr>d_ModifyIndex := index,
                               d_TaskGroups := amap_put (a_TaskGroup alloc) state1 (d_TaskGroups deployment)\<rparr>
                  in and_then (upsertDeploymentImpl index copy s) (\<lambda>s1. Inr (alloc1, s1)))))"

definition inc_bin :: "string \<Rightarrow> tg_summary \<Rightarrow> tg_summary" where
  "inc_bin status g =
     (if status = AllocClientStatusRunning then g\<lparr>tgs_Running := tgs_Running g + 1\<rparr>
      else if status = AllocClientStatusFailed then g\<lparr>tgs_Failed := tgs_Failed g + 1\<rparr>
      else if status = AllocClientStatusPending then g\<lparr>tgs_Starting := tgs_Starting g + 1\<rparr>
      else if status = AllocClientStatusComplete then g\<lparr>tgs_Complete := tgs_Complete g + 1\<rparr>
      else if status = AllocClientStatusLost then g\<lparr>tgs_Lost := tgs_Lost g + 1\<rparr>
      else g)"

definition dec_bin :: "string \<Rightarrow> tg_summary \<Rightarrow> tg_summary" where
  "dec_bin status g =
     (if status = AllocClientStatusRunning then g\<lparr>tgs_Running := tgs_Running g - 1\<rparr>
      else if status = AllocClientStatusPending then g\<lparr>tgs_Starting := tgs_Starting g - 1\<rparr>
      else if status = AllocClientStatusLost then g\<lparr>tgs_Lost := tgs_Lost g - 1\<rparr>
      else g)"

text \<open>The new summary of the group and whether it changed.\<close>

definition summary_change :: "allocation \<Rightarrow> allocation option \<Rightarrow> tg_summary \<Rightarrow> tg_summary \<times> bool" where
  "summary_change alloc existing g =
     (case existing of
        None \<Rightarrow>
          if a_ClientStatus alloc = AllocClientStatusPending
          then (g\<lparr>tgs_Starting := tgs_Starting g + 1,
                  tgs_Queued := (if tgs_Queued g > 0 then tgs_Queued g - 1 else tgs_Queued g)\<rparr>, True)
          else (g, False)
      | Some e \<Rightarrow>
          if a_ClientStatus e \<noteq> a_ClientStatus alloc
          then (dec_bin (a_ClientStatus e) (inc_bin (a_ClientStatus alloc) g), True)
          else (g, False))"

definition updateSummaryWithAlloc :: "nat \<Rightarrow> allocation \<Rightarrow> allocation option \<Rightarrow> state_store \<Rightarrow> txn" where
  "updateSummaryWithAlloc index alloc existing s =
     (case a_Job alloc of
        None \<Rightarrow> Inr s
      | Some job \<Rightarrow>
          (case JobSummaryByID s (a_JobID alloc) of
             None \<Rightarrow> if JobByID s (a_JobID alloc) = None then Inr s else Inl (SummaryNotPresent (a_JobID alloc))
           | Some js \<Rightarrow>
               if js_CreateIndex js \<noteq> j_CreateIndex job then Inr s
               else case map_of (js_Summary js) (a_TaskGroup alloc) of
                 None \<Rightarrow> Inl (TaskGroupNotInSummary (a_TaskGroup alloc))
               | Some g \<Rightarrow>
                   (let (g', changed) = summary_change alloc existing g
                    in if changed
                       then Inr (insert_summary (js\<lparr>js_Summary := amap_put (a_TaskGroup alloc) g' (js_Summary js),
                                                    js_ModifyIndex := index\<rparr>)
                                  (set_index ''job_summary'' index s))
                       else Inr s)))"

definition forced_status :: "allocation \<Rightarrow> string" where
  "forced_status a = (if \<not> alloc_TerminalStatus a then JobStatusRunning else '''')"

definition nestedUpdateAllocFromClient :: "nat \<Rightarrow> allocation \<Rightarrow> state_store \<Rightarrow> txn" where
  "nestedUpdateAllocFromClient index alloc s =
     (case AllocByID s (a_ID alloc) of
        None \<Rightarrow> Inr s
      | Some exist \<Rightarrow>
          let copyAlloc = exist\<lparr>a_ClientStatus := a_ClientStatus alloc, a_ClientDescription := a_ClientDescription alloc,
                a_TaskStates := a_TaskStates alloc, a_DeploymentStatus := a_DeploymentStatus alloc, a_ModifyIndex := index\<rparr>
          in and_then (updateDeploymentWithAlloc index copyAlloc (Some exist) s) (\<lambda>(copy1, s1).
             and_then (updateSummaryWithAlloc index copy1 (Some exist) s1) (\<lambda>s2.
               setJobStatuses index [(a_JobID exist, forced_status copy1)] False (insert_alloc copy1 s2))))"

fun update_allocs_from_client :: "nat \<Rightarrow> allocation list \<Rightarrow> state_store \<Rightarrow> txn" where
  "update_allocs_from_client index [] s = Inr s"
| "update_allocs_from_client index (a # as) s =
     and_then (nestedUpdateAllocFromClient index a s) (update_allocs_from_client index as)"

definition UpdateAllocsFromClient :: "nat \<Rightarrow> allocation list \<Rightarrow> state_store \<Rightarrow> state_error option \<times> state_store" where
  "UpdateAllocsFromClient index allocs s = commit s
     (and_then (update_allocs_from_client index allocs s) (\<lambda>s1. Inr (set_index ''allocs'' index s1)))"

text \<open>The fields an upserted allocation takes from the index and from the existing one.\<close>

definition merge_existing :: "nat \<Rightarrow> allocation \<Rightarrow> allocation option \<Rightarrow> state_error + allocation" where
  "merge_existing index alloc existing =
     (case existing of
        None \<Rightarrow>
          if a_Job alloc = None then Inl (AllocWithoutJob (a_ID alloc))
          else Inr (alloc\<lparr>a_CreateIndex := index, a_ModifyIndex := index, a_AllocModifyIndex := index\<rparr>)
      | Some exist \<Rightarrow>
          let a1 = alloc\<lparr>a_CreateIndex := a_CreateIndex exist, a_ModifyIndex := index, a_AllocModifyIndex := index,
                a_TaskStates := a_TaskStates exist\<rparr>;
              a2 = (if a_ClientStatus a1 \<noteq> AllocClientStatusLost
                    then a1\<lparr>a_ClientStatus := a_ClientStatus exist, a_ClientDescription := a_ClientDescription exist\<rparr>
                    else a1)
          in Inr (if a_Job a2 = None then a2\<lparr>a_Job := a_Job exist\<rparr> else a2))"

definition upsert_alloc :: "nat \<Rightarrow> allocation \<Rightarrow> state_store \<Rightarrow> state_error + allocation \<times> state_store" where
  "upsert_alloc index alloc s =
     (let existing = AllocByID s (a_ID alloc) in
      and_then (merge_existing index alloc existing) (\<lambda>a1.
      and_then (updateDeploymentWithAlloc index a1 existing s) (\<lambda>(a2, s1).
      and_then (updateSummaryWithAlloc index a2 existing s1) (\<lambda>s2.
        let a3 = a2\<lparr>a_Job := map_option addEphemeralDiskToTaskGroups (a_Job a2)\<rparr>
        in Inr (a3, insert_alloc a3 s2)))))"

fun upsert_allocs :: "nat \<Rightarrow> allocation list \<Rightarrow> (string \<times> string) list \<Rightarrow> state_store \<Rightarrow>
    state_error + (string \<times> string) list \<times> state_store" where
  "upsert_allocs index [] jobs s = Inr (jobs, s)"
| "upsert_allocs index (a # as) jobs s =
     and_then (upsert_alloc index a s) (\<lambda>(a', s1).
       upsert_allocs index as (amap_put (a_JobID a') (forced_status a') jobs) s1)"

definition upsertAllocsImpl :: "nat \<Rightarrow> allocation list \<Rightarrow> state_store \<Rightarrow> txn" where
  "upsertAllocsImpl index allocs s =
     and_then (upsert_allocs index allocs [] s) (\<lambda>(jobs, s1).
       setJobStatuses index jobs False (set_index ''allocs'' index s1))"

definition UpsertAllocs :: "nat \<Rightarrow> allocation list \<Rightarrow> state_store \<Rightarrow> state_error option \<times> state_store" where
  "UpsertAllocs index allocs s = commit s (upsertAllocsImpl index allocs s)"


section \<open>Requests that span tables\<close>

record apply_plan_results =
  apr_Job :: "job option"
  apr_Alloc :: "allocation list"
  apr_Deployment :: "deployment option"
  apr_DeploymentUpdates :: "deployment_status_update list"

text \<open>The combined resources of an allocation, computed from those of its tasks.\<close>

definition total_resources :: "allocation \<Rightarrow> allocation" where
  "total_resources a =
     (case a_Resources a of
        Some _ \<Rightarrow> a
      | None \<Rightarrow> a\<lparr>a_Resources := Some
          (r_Add (foldl (\<lambda>r (_, t). r_Add r (Some t)) zero_resources (entries (a_TaskResources a))) (a_SharedResources a))\<rparr>)"

definition UpsertPlanResults :: "nat \<Rightarrow> apply_plan_results \<Rightarrow> state_store \<Rightarrow> state_error option \<times> state_store" where
  "UpsertPlanResults index results s = commit s
     (and_then (case apr_Deployment results of None \<Rightarrow> Inr s | Some d \<Rightarrow> upsertDeploymentImpl index d s) (\<lambda>s1.
        let s2 = (if apr_DeploymentUpdates results \<noteq> []
                  then upsertDeploymentUpdates index (apr_DeploymentUpdates results) s1 else s1);
            allocs = map total_resources (DenormalizeAllocationJobs (apr_Job results) (apr_Alloc results))
        in upsertAllocsImpl index allocs s2))"

definition optional :: "('a \<Rightarrow> state_store \<Rightarrow> txn) \<Rightarrow> 'a option \<Rightarrow> state_store \<Rightarrow> txn" where
  "optional f x s = (case x of None \<Rightarrow> Inr s | Some y \<Rightarrow> f y s)"

record deployment_update_request =
  dur_Eval :: "evaluation option"
  dur_DeploymentUpdate :: deployment_status_update
  dur_Job :: "job option"

definition UpdateDeploymentStatus :: "nat \<Rightarrow> deployment_update_request \<Rightarrow> state_store \<Rightarrow> state_error option \<times> state_store" where
  "UpdateDeploymentStatus index req s = commit s
     (and_then (updateDeploymentStatusImpl index (dur_DeploymentUpdate req) s) (\<lambda>s1.
      and_then (optional (\<lambda>j. upsertJobImpl index j False) (dur_Job req) s1) (\<lambda>s2.
        optional (\<lambda>e s. Inr (nestedUpsertEval index e s)) (dur_Eval req) s2)))"

record promote_request =
  prq_DeploymentID :: string
  prq_All :: bool
  prq_Groups :: "string list"
  prq_Eval :: "evaluation option"

definition UpdateDeploymentPromotion :: "nat \<Rightarrow> promote_request \<Rightarrow> state_store \<Rightarrow> state_error option \<times> state_store" where
  "UpdateDeploymentPromotion index req s = commit s
     (and_then (active_deployment (prq_DeploymentID req) s) (\<lambda>deployment.
        let selected = (\<lambda>g. prq_All req \<or> g \<in> set (prq_Groups req));
            canaries = concat (map (\<lambda>(_, state). ds_PlacedCanaries state) (d_TaskGroups deployment));
            bad = filter (\<lambda>a. a_ID a \<in> set canaries \<and> selected (a_TaskGroup a) \<and> \<not> ads_IsHealthy (a_DeploymentStatus a))
                    (AllocsByDeployment s (prq_DeploymentID req))
        in if bad \<noteq> [] then Inl (UnhealthyCanaries (map (\<lambda>a. (a_ID a, a_TaskGroup a)) bad))
           else
             let copy = deployment\<lparr>d_ModifyIndex := index,
                   d_TaskGroups := map (\<lambda>(g, state). (g, if selected g then state\<lparr>ds_Promoted := True\<rparr> else state)) (d_TaskGroups deployment)\<rparr>;
                 copy1 = (if \<not> RequiresPromotion (Some copy) \<and> d_Status copy = DeploymentStatusRunning
                          then copy\<lparr>d_StatusDescription := ''Deployment is running''\<rparr> else copy)
             in and_then (upsertDeploymentImpl index copy1 s) (\<lambda>s1.
                  optional (\<lambda>e s. Inr (nestedUpsertEval index e s)) (prq_Eval req) s1)))"

record alloc_health_request =
  ahr_DeploymentID :: string
  ahr_HealthyAllocationIDs :: "string list"
  ahr_UnhealthyAllocationIDs :: "string list"
  ahr_DeploymentUpdate :: "deployment_status_update option"
  ahr_Job :: "job option"
  ahr_Eval :: "evaluation option"

text \<open>The closure \<open>setAllocHealth\<close>; it leaves the modify index of the allocation as it is.\<close>

definition setAllocHealth :: "nat \<Rightarrow> string \<Rightarrow> bool \<Rightarrow> string \<Rightarrow> state_store \<Rightarrow> txn" where
  "setAllocHealth index deploymentID healthy x s =
     (case AllocByID s x of
        None \<Rightarrow> Inl (UnknownAlloc x)
      | Some old \<Rightarrow>
          if a_DeploymentID old \<noteq> deploymentID then Inl (AllocNotInDeployment x deploymentID)
          else
            let copy = old\<lparr>a_DeploymentStatus := Some \<lparr>ads_Healthy = Some healthy, ads_ModifyIndex = index\<rparr>\<rparr>
            in and_then (updateDeploymentWithAlloc index copy (Some old) s) (\<lambda>(copy1, s1). Inr (insert_alloc copy1 s1)))"

fun set_health_all :: "nat \<Rightarrow> string \<Rightarrow> bool \<Rightarrow> string list \<Rightarrow> state_store \<Rightarrow> txn" where
  "set_health_all index deploymentID healthy [] s = Inr s"
| "set_health_all index deploymentID healthy (x # xs) s =
     and_then (setAllocHealth index deploymentID healthy x s) (set_health_all index deploymentID healthy xs)"

definition UpdateDeploymentAllocHealth ::
  "nat \<Rightarrow> alloc_health_request \<Rightarrow> state_store \<Rightarrow> state_error option \<times> state_store" where
  "UpdateDeploymentAllocHealth index req s = commit s
     (and_then (active_deployment (ahr_DeploymentID req) s) (\<lambda>_.
      and_then
        (if length (ahr_HealthyAllocationIDs req) + length (ahr_UnhealthyAllocationIDs req) \<noteq> 0
         then and_then (set_health_all index (ahr_DeploymentID req) True (ahr_HealthyAllocationIDs req) s) (\<lambda>s1.
              and_then (set_health_all index (ahr_DeploymentID req) False (ahr_UnhealthyAllocationIDs req) s1) (\<lambda>s2.
                Inr (set_index ''allocs'' index s2)))
         else Inr s) (\<lambda>s3.
      and_then (optional (updateDeploymentStatusImpl index) (ahr_DeploymentUpdate req) s3) (\<lambda>s4.
      and_then (optional (\<lambda>j. upsertJobImpl index j False) (ahr_Job req) s4) (\<lambda>s5.
        optional (\<lambda>e s. Inr (nestedUpsertEval index e s)) (ahr_Eval req) s5)))))"

section \<open>Rebuilding the summaries\<close>

definition count_alloc :: "allocation \<Rightarrow> tg_summary \<Rightarrow> tg_summary" where
  "count_alloc a g =
     (if a_ClientStatus a = AllocClientStatusFailed then g\<lparr>tgs_Failed := tgs_Failed g + 1\<rparr>
      else if a_ClientStatus a = AllocClientStatusLost then g\<lparr>tgs_Lost := tgs_Lost g + 1\<rparr>
      else if a_ClientStatus a = AllocClientStatusComplete then g\<lparr>tgs_Complete := tgs_Complete g + 1\<rparr>
      else if a_ClientStatus a = AllocClientStatusRunning then g\<lparr>tgs_Running := tgs_Running g + 1\<rparr>
      else if a_ClientStatus a = AllocClientStatusPending then g\<lparr>tgs_Starting := tgs_Starting g + 1\<rparr>
      else g)"

definition rebuild_summary :: "nat \<Rightarrow> state_store \<Rightarrow> job \<Rightarrow> job_summary" where
  "rebuild_summary index s job =
     (let empty = fold (\<lambda>tg m. amap_put (tg_Name tg) zero_tg_summary m) (j_TaskGroups job) [];
          groups = fold (\<lambda>a m.
              case a_Job a of
                None \<Rightarrow> m
              | Some j \<Rightarrow> if j_CreateIndex j \<noteq> j_CreateIndex job then m
                          else amap_put (a_TaskGroup a) (count_alloc a (amap_get zero_tg_summary m (a_TaskGroup a))) m)
            (allocs_of_job s (j_ID job)) empty
      in \<lparr>js_JobID = j_ID job, js_Summary = groups, js_Children = None,
          js_CreateIndex = j_CreateIndex job, js_ModifyIndex = index\<rparr>)"

definition ReconcileJobSummaries :: "nat \<Rightarrow> state_store \<Rightarrow> state_store" where
  "ReconcileJobSummaries index s =
     set_index ''job_summary'' index (fold (\<lambda>(_, job) s. insert_summary (rebuild_summary index s job) s) (ss_jobs s) s)"

end
