(* ===== verification/Store_Relation.thy ===== *)
theory Store_Relation
  imports State_Store
begin

text \<open>
  The transactions of the state store are built from a few writes, each with the update of the
  index of its table. A relation between states that is a preorder and that these writes respect
  is respected by the helpers they share. The locale collects the writes; its instances are the
  index discipline of the store and the frame conditions.
\<close>

definition rel_txn :: "(state_store \<Rightarrow> state_store \<Rightarrow> bool) \<Rightarrow> state_store \<Rightarrow> txn \<Rightarrow> bool" where
  "rel_txn R s t \<longleftrightarrow> (\<forall>s'. t = Inr s' \<longrightarrow> R s s')"

lemma rel_txn_Inr: "R s t \<Longrightarrow> rel_txn R s (Inr t)"
  and rel_txn_Inl [simp]: "rel_txn R s (Inl e)"
  by (simp_all add: rel_txn_def)

lemma rel_txnD: "rel_txn R s t \<Longrightarrow> t = Inr s' \<Longrightarrow> R s s'"
  by (simp add: rel_txn_def)

lemma rel_if: "(c \<Longrightarrow> rel_txn R s a) \<Longrightarrow> (\<not> c \<Longrightarrow> rel_txn R s b) \<Longrightarrow> rel_txn R s (if c then a else b)"
  by simp

lemma rel_case: "rel_txn R s a \<Longrightarrow> (\<And>y. rel_txn R s (f y)) \<Longrightarrow> rel_txn R s (case x of None \<Rightarrow> a | Some y \<Rightarrow> f y)"
  by (cases x) simp_all

lemma insert_summary_set_index: "insert_summary js (set_index n i s) = set_index n i (insert_summary js s)"
  by (simp add: insert_summary_def set_index_def)

locale store_preorder =
  fixes R :: "state_store \<Rightarrow> state_store \<Rightarrow> bool"
  assumes rel_refl [simp, intro]: "R s s"
    and rel_trans: "R s t \<Longrightarrow> R t u \<Longrightarrow> R s u"
begin

lemma rel_txn_trans: "R s t \<Longrightarrow> rel_txn R t m \<Longrightarrow> rel_txn R s m"
  unfolding rel_txn_def using rel_trans by blast

lemma rel_and_then:
  assumes "\<And>x. m = Inr x \<Longrightarrow> R s (st x) \<and> rel_txn R (st x) (f x)"
  shows "rel_txn R s (and_then m f)"
  using assms by (cases m) (auto intro: rel_txn_trans)

lemma rel_value: "(\<And>x. rel_txn R s (f x)) \<Longrightarrow> rel_txn R s (and_then m f)"
  by (rule rel_and_then [where st = "\<lambda>_. s"]) simp

lemma rel_seq: "rel_txn R s m \<Longrightarrow> (\<And>t. rel_txn R t (f t)) \<Longrightarrow> rel_txn R s (and_then m f)"
  by (rule rel_and_then [where st = id]) (auto simp: rel_txn_def)

lemma rel_commit: "rel_txn R s t \<Longrightarrow> R s (snd (commit s t))"
  by (cases t) (simp_all add: commit_def rel_txn_def)

lemma rel_fold: "(\<And>x s. R s (f x s)) \<Longrightarrow> R s (fold f xs s)"
proof (induction xs arbitrary: s)
  case (Cons x xs)
  from rel_trans [OF Cons.prems Cons.IH [OF Cons.prems]] show ?case by simp
qed simp

lemma rel_optional: "(\<And>x t. rel_txn R t (f x t)) \<Longrightarrow> rel_txn R s (optional f y s)"
  by (auto simp: optional_def intro!: rel_case rel_txn_Inr)

end

locale store_relation = store_preorder R for R +
  fixes i :: nat
  assumes job_write: "R s (set_index ''jobs'' i (insert_job j s))"
    and summary_write: "R s (set_index ''job_summary'' i (insert_summary js s))"
    and version_write: "R s (upsertJobVersion i j s)"
    and deployment_write: "R s (set_index ''deployment'' i (s\<lparr>ss_deployment := d\<rparr>))"
begin

lemma rel_setJobStatus: "rel_txn R s (setJobStatus i job del force s)"
  unfolding setJobStatus_def Let_def
  by (intro rel_if rel_case rel_value rel_txn_Inr job_write rel_trans [OF job_write summary_write] rel_refl)

lemma rel_setJobStatuses: "rel_txn R s (setJobStatuses i jobs del s)"
proof (induction jobs arbitrary: s)
  case (Cons p jobs)
  obtain jb force where "p = (jb, force)" by (cases p)
  with Cons show ?case by (auto intro!: rel_case rel_seq rel_setJobStatus)
qed (simp add: rel_txn_Inr)

lemma rel_updateSummaryWithJob: "R s (updateSummaryWithJob i job s)"
  by (simp add: updateSummaryWithJob_def Let_def split_beta insert_summary_set_index summary_write)

lemma rel_upsertJobImpl: "rel_txn R s (upsertJobImpl i job keep s)"
  unfolding upsertJobImpl_def
proof (rule rel_and_then [where st = snd])
  let ?m = "case JobByID s (j_ID job) of
      Some existing \<Rightarrow>
        (let job1 = job\<lparr>j_CreateIndex := j_CreateIndex existing, j_ModifyIndex := i\<rparr>;
             job2 = (if keep then job1 else job1\<lparr>j_JobModifyIndex := i, j_Version := j_Version existing + 1\<rparr>)
         in Inr (job2\<lparr>j_Status := getJobStatus s job2 False\<rparr>, s))
    | None \<Rightarrow>
        (let job1 = job\<lparr>j_CreateIndex := i, j_ModifyIndex := i, j_JobModifyIndex := i, j_Version := 0\<rparr>
         in and_then (setJobStatus i job1 False '''' s) (\<lambda>s1.
              Inr (case JobByID s1 (j_ID job1) of Some updated \<Rightarrow> updated | None \<Rightarrow> job1, s1)))"
  fix x assume x: "?m = Inr x"
  then have "R s (snd x)"
    using rel_setJobStatus [unfolded rel_txn_def]
    by (auto simp: Let_def and_then_Inr split: option.splits if_splits)
  moreover have "R t (set_index ''jobs'' i (insert_job j (upsertJobVersion i k (updateSummaryWithJob i l t))))" for t j k l
    by (rule rel_trans [OF rel_trans [OF rel_updateSummaryWithJob [of _ l] version_write [of _ k]] job_write])
  ultimately show "R s (snd x) \<and> rel_txn R (snd x) (case x of (job0, s0) \<Rightarrow>
      let job' = addEphemeralDiskToTaskGroups job0; s1 = upsertJobVersion i job' (updateSummaryWithJob i job' s0)
      in Inr (set_index ''jobs'' i (insert_job job' s1)))"
    by (auto simp: rel_txn_def Let_def split: prod.splits)
qed

lemma rel_updateJobStability: "rel_txn R s (updateJobStabilityImpl i jid v st s)"
  by (auto simp: updateJobStabilityImpl_def intro!: rel_upsertJobImpl rel_txn_Inr split: option.splits)

lemma rel_upsertDeploymentImpl: "rel_txn R s (upsertDeploymentImpl i d s)"
  unfolding upsertDeploymentImpl_def Let_def
  by (auto intro: rel_txn_trans [OF deployment_write rel_updateJobStability] rel_txn_Inr [of R, OF deployment_write])

lemma rel_updateDeploymentStatus: "rel_txn R s (updateDeploymentStatusImpl i u s)"
  unfolding updateDeploymentStatusImpl_def Let_def
  by (rule rel_and_then [where st = "\<lambda>_. s"])
    (auto intro: rel_txn_trans [OF deployment_write rel_updateJobStability] rel_txn_Inr [of R, OF deployment_write])

lemma rel_upsertDeploymentUpdates: "R s (upsertDeploymentUpdates i us s)"
proof (induction us arbitrary: s)
  case (Cons u us)
  then show ?case using rel_updateDeploymentStatus [of s u]
    by (auto simp: rel_txn_def split: sum.splits intro: rel_trans)
qed simp

lemma rel_updateDeploymentWithAlloc:
  "updateDeploymentWithAlloc i a ex s = Inr (a', s') \<Longrightarrow> R s s'"
  using rel_upsertDeploymentImpl [unfolded rel_txn_def]
  by (fastforce simp: updateDeploymentWithAlloc_def Let_def and_then_Inr split: if_splits option.splits prod.splits)

lemma rel_updateSummaryWithAlloc: "rel_txn R s (updateSummaryWithAlloc i a ex s)"
  unfolding updateSummaryWithAlloc_def insert_summary_set_index
  by (auto intro!: rel_case rel_if rel_txn_Inr summary_write split: prod.splits)

lemma rel_summarise_queued: "R s (summarise_queued i e s)"
  by (auto simp: summarise_queued_def summary_write split: option.splits prod.splits)

end

end
