(* ===== verification/State_Store_Index.thy ===== *)
theory State_Store_Index
  imports Store_Relation
begin

text \<open>
  Blocking queries wait for the index of a table to move. This theory shows that every transaction
  that changes a table also sets the index of the table, so a change is never missed, and shows
  the one exception, the version history of a deleted job.
\<close>

section \<open>Changes and index updates\<close>

definition changed :: "state_store \<Rightarrow> state_store \<Rightarrow> string \<Rightarrow> bool" where
  "changed s s' name \<longleftrightarrow>
     (if name = ''nodes'' then ss_nodes s' \<noteq> ss_nodes s
      else if name = ''jobs'' then ss_jobs s' \<noteq> ss_jobs s
      else if name = ''job_version'' then ss_job_version s' \<noteq> ss_job_version s
      else if name = ''job_summary'' then ss_job_summary s' \<noteq> ss_job_summary s
      else if name = ''deployment'' then ss_deployment s' \<noteq> ss_deployment s
      else if name = ''evals'' then ss_evals s' \<noteq> ss_evals s
      else if name = ''allocs'' then ss_allocs s' \<noteq> ss_allocs s
      else False)"

text \<open>From \<open>s\<close> to \<open>s'\<close> only indexes were set to \<open>i\<close>, and those of the tables that changed, but for \<open>E\<close>.\<close>

definition bumps :: "nat \<Rightarrow> string set \<Rightarrow> state_store \<Rightarrow> state_store \<Rightarrow> bool" where
  "bumps i E s s' \<longleftrightarrow> (\<forall>n. n \<notin> E \<longrightarrow> changed s s' n \<longrightarrow> ss_Index s' n = i) \<and>
     (\<forall>n. ss_Index s' n = ss_Index s n \<or> ss_Index s' n = i)"

abbreviation bumps_txn :: "nat \<Rightarrow> string set \<Rightarrow> state_store \<Rightarrow> txn \<Rightarrow> bool" where
  "bumps_txn i E \<equiv> rel_txn (bumps i E)"

named_theorems bump_rules "transactions that set the index of what they change"

lemma changed_trans: "changed s u n \<Longrightarrow> changed s t n \<or> changed t u n"
  by (auto simp: changed_def split: if_splits)

lemma bumps_refl [simp]: "bumps i E s s"
  by (simp add: bumps_def changed_def)

lemma bumps_trans: "bumps i E s t \<Longrightarrow> bumps i E t u \<Longrightarrow> bumps i E s u"
  unfolding bumps_def by (metis changed_trans)

lemma bumps_mono: "bumps i E s t \<Longrightarrow> E \<subseteq> F \<Longrightarrow> bumps i F s t"
  by (auto simp: bumps_def)

lemma ss_Index_set [simp]: "ss_Index (set_index name i s) n = (if n = name then i else ss_Index s n)"
  by (simp add: ss_Index_def set_index_def)

lemma changed_set_index [simp]: "changed s (set_index name i t) n = changed s t n"
  by (simp add: changed_def set_index_def)

lemma bumps_set_index: "bumps i (insert name E) s t \<Longrightarrow> bumps i E s (set_index name i t)"
  by (auto simp: bumps_def)

lemma bumps_set_index': "bumps i E s t \<Longrightarrow> bumps i E s (set_index name i t)"
  by (auto simp: bumps_def)

text \<open>Writes to one table.\<close>

lemma bumps_write [simp]:
  "''nodes'' \<in> E \<Longrightarrow> bumps i E s (s\<lparr>ss_nodes := a\<rparr>)" "''jobs'' \<in> E \<Longrightarrow> bumps i E s (s\<lparr>ss_jobs := b\<rparr>)"
  "''job_version'' \<in> E \<Longrightarrow> bumps i E s (s\<lparr>ss_job_version := c\<rparr>)"
  "''job_summary'' \<in> E \<Longrightarrow> bumps i E s (s\<lparr>ss_job_summary := d\<rparr>)"
  "''deployment'' \<in> E \<Longrightarrow> bumps i E s (s\<lparr>ss_deployment := e\<rparr>)"
  "''evals'' \<in> E \<Longrightarrow> bumps i E s (s\<lparr>ss_evals := f\<rparr>)" "''allocs'' \<in> E \<Longrightarrow> bumps i E s (s\<lparr>ss_allocs := g\<rparr>)"
  by (auto simp: bumps_def changed_def ss_Index_def)

lemma bumps_insert [simp]:
  "''jobs'' \<in> E \<Longrightarrow> bumps i E s (insert_job j s)" "''job_summary'' \<in> E \<Longrightarrow> bumps i E s (insert_summary js s)"
  "''evals'' \<in> E \<Longrightarrow> bumps i E s (insert_eval e s)" "''allocs'' \<in> E \<Longrightarrow> bumps i E s (insert_alloc a s)"
  by (simp_all add: insert_job_def insert_summary_def insert_eval_def insert_alloc_def)

lemma bumps_close: "bumps_txn i (insert name E) s m \<Longrightarrow> bumps_txn i E s (and_then m (\<lambda>t. Inr (set_index name i t)))"
  by (cases m) (auto simp: rel_txn_def intro: bumps_set_index)

section \<open>The helpers\<close>

lemma bumps_upsertJobVersion: "bumps i E s (upsertJobVersion i job s)"
  by (auto simp: upsertJobVersion_def Let_def bumps_def changed_def set_index_def ss_Index_def)

interpretation ix: store_relation "bumps i E" i for i E
proof unfold_locales
  fix s t u :: state_store
  show "bumps i E s s" by simp
  show "bumps i E s t \<Longrightarrow> bumps i E t u \<Longrightarrow> bumps i E s u" by (rule bumps_trans)
qed (auto intro: bumps_set_index bumps_upsertJobVersion)

lemmas index_rules [bump_rules] = ix.rel_setJobStatus ix.rel_setJobStatuses ix.rel_upsertJobImpl
  ix.rel_updateJobStability ix.rel_upsertDeploymentImpl ix.rel_updateDeploymentStatus
  ix.rel_upsertDeploymentUpdates ix.rel_updateSummaryWithAlloc ix.rel_summarise_queued

lemma bumps_nestedUpsertEval [bump_rules]: "bumps i E s (nestedUpsertEval i e s)"
proof -
  have c: "bumps i (insert ''evals'' E) t (cancel_blocked i e t)" for e t
    by (auto simp: cancel_blocked_def cancel_eval_def intro: ix.rel_fold)
  have "bumps i (insert ''evals'' E) s (insert_eval e (cancel_blocked i e (summarise_queued i e s)))" for e
    by (rule bumps_trans [OF bumps_trans [OF ix.rel_summarise_queued [of _ _ _ e] c [of _ e]]]) simp
  then show ?thesis unfolding nestedUpsertEval_def Let_def by (rule bumps_set_index)
qed


lemma bumps_nestedUpdateAlloc: "''allocs'' \<in> E \<Longrightarrow> bumps_txn i E s (nestedUpdateAllocFromClient i a s)"
proof -
  assume E: "''allocs'' \<in> E"
  have last: "bumps_txn i E t (setJobStatuses i jobs False (insert_alloc x t))" for t jobs x
    by (rule ix.rel_txn_trans [OF _ ix.rel_setJobStatuses]) (simp add: E)
  show ?thesis unfolding nestedUpdateAllocFromClient_def Let_def
    by (intro rel_case rel_txn_Inr bumps_refl ix.rel_and_then [where st = snd])
      (auto simp: ix.rel_updateDeploymentWithAlloc simp del: setJobStatuses.simps
        intro: ix.rel_seq [OF ix.rel_updateSummaryWithAlloc last])
qed

lemma bumps_update_allocs: "''allocs'' \<in> E \<Longrightarrow> bumps_txn i E s (update_allocs_from_client i as s)"
  by (induction as arbitrary: s) (simp_all add: rel_txn_Inr ix.rel_seq bumps_nestedUpdateAlloc)

lemma bumps_upsert_alloc:
  assumes "''allocs'' \<in> E" "upsert_alloc i a s = Inr (a', s')"
  shows "bumps i E s s'"
proof -
  from assms(2) obtain a1 a2 s1 s2 where
    "updateDeploymentWithAlloc i a1 (AllocByID s (a_ID a)) s = Inr (a2, s1)"
    "updateSummaryWithAlloc i a2 (AllocByID s (a_ID a)) s1 = Inr s2" "s' = insert_alloc a' s2"
    by (auto simp: upsert_alloc_def Let_def and_then_Inr)
  then show ?thesis
    using ix.rel_updateDeploymentWithAlloc [of i a1 _ s a2 s1 E] ix.rel_updateSummaryWithAlloc [of i E s1 a2 "AllocByID s (a_ID a)"] assms(1)
    by (auto simp: rel_txn_def intro!: bumps_trans [of i E s s2 "insert_alloc a' s2"] intro: bumps_trans)
qed

lemma bumps_upsert_allocs: "''allocs'' \<in> E \<Longrightarrow> upsert_allocs i as jobs s = Inr (jobs', s') \<Longrightarrow> bumps i E s s'"
proof (induction as arbitrary: jobs s)
  case (Cons a as)
  then obtain a' s1 where 1: "upsert_alloc i a s = Inr (a', s1)"
    and 2: "upsert_allocs i as (amap_put (a_JobID a') (forced_status a') jobs) s1 = Inr (jobs', s')"
    by (auto simp: and_then_Inr)
  from bumps_trans [OF bumps_upsert_alloc [OF Cons.prems(1) 1] Cons.IH [OF Cons.prems(1) 2]] show ?case .
qed simp

lemma bumps_upsertAllocsImpl [bump_rules]: "bumps_txn i E s (upsertAllocsImpl i as s)"
  unfolding upsertAllocsImpl_def
proof (rule ix.rel_and_then [where st = "\<lambda>(_, t). set_index ''allocs'' i t"])
  fix x assume x: "upsert_allocs i as [] s = Inr x"
  obtain jobs t where "x = (jobs, t)" by (cases x)
  with x bumps_set_index [OF bumps_upsert_allocs [of "insert ''allocs'' E" i as "[]" s jobs t]]
  show "bumps i E s (case x of (_, t) \<Rightarrow> set_index ''allocs'' i t) \<and>
      bumps_txn i E (case x of (_, t) \<Rightarrow> set_index ''allocs'' i t)
        (case x of (jobs, s1) \<Rightarrow> setJobStatuses i jobs False (set_index ''allocs'' i s1))"
    by (simp add: ix.rel_setJobStatuses)
qed

lemma bumps_eval_txn [bump_rules]: "bumps_txn i E s (Inr (nestedUpsertEval i e s))"
  by (intro rel_txn_Inr bumps_nestedUpsertEval)

lemma bumps_set_health: "''allocs'' \<in> E \<Longrightarrow> bumps_txn i E s (setAllocHealth i d h x s)"
  unfolding setAllocHealth_def Let_def
  by (intro rel_case rel_if rel_txn_Inl ix.rel_and_then [where st = snd])
    (auto simp: ix.rel_updateDeploymentWithAlloc intro: rel_txn_Inr)

lemma bumps_set_health_all: "''allocs'' \<in> E \<Longrightarrow> bumps_txn i E s (set_health_all i d h xs s)"
  by (induction xs arbitrary: s) (simp_all add: rel_txn_Inr ix.rel_seq bumps_set_health)

section \<open>Transactions\<close>

text \<open>One transaction of the FSM at index \<open>i\<close>.\<close>

inductive store_step :: "nat \<Rightarrow> state_store \<Rightarrow> state_store \<Rightarrow> bool" for i where
  upsert_node: "store_step i s (UpsertNode i n s)"
| delete_node: "store_step i s (snd (DeleteNode i x s))"
| node_status: "store_step i s (snd (UpdateNodeStatus i x st s))"
| node_drain: "store_step i s (snd (UpdateNodeDrain i x d s))"
| upsert_job: "store_step i s (snd (UpsertJob i j s))"
| delete_job: "store_step i s (snd (DeleteJob i jid s))"
| job_stability: "store_step i s (snd (UpdateJobStability i jid v st s))"
| upsert_evals: "store_step i s (snd (UpsertEvals i es s))"
| delete_eval: "store_step i s (snd (DeleteEval i xs ys s))"
| client_allocs: "store_step i s (snd (UpdateAllocsFromClient i as s))"
| upsert_allocs: "store_step i s (snd (UpsertAllocs i as s))"
| upsert_deployment: "store_step i s (snd (UpsertDeployment i d s))"
| delete_deployment: "store_step i s (snd (DeleteDeployment i xs s))"
| deployment_status: "store_step i s (snd (UpdateDeploymentStatus i r1 s))"
| promotion: "store_step i s (snd (UpdateDeploymentPromotion i r2 s))"
| alloc_health: "store_step i s (snd (UpdateDeploymentAllocHealth i r3 s))"
| plan_results: "store_step i s (snd (UpsertPlanResults i r4 s))"
| reconcile: "store_step i s (ReconcileJobSummaries i s)"

lemma bumps_put_node: "bumps i E s (set_index ''nodes'' i (s\<lparr>ss_nodes := t\<rparr>))"
  by (intro bumps_set_index) simp

lemma bumps_nodes:
  "bumps i E s (UpsertNode i n s)" "bumps i E s (snd (DeleteNode i x s))"
  "bumps i E s (snd (UpdateNodeStatus i x st s))" "bumps i E s (snd (UpdateNodeDrain i x d s))"
  unfolding UpsertNode_def DeleteNode_def UpdateNodeStatus_def UpdateNodeDrain_def Let_def
  by (auto intro!: bumps_put_node ix.rel_commit rel_case rel_txn_Inr)

lemma bumps_bury_child: "bumps_txn i E s (bury_child i job s)"
proof -
  have "bumps i E s (set_index ''job_summary'' i (insert_summary js s))" for js by (intro bumps_set_index) simp
  then show ?thesis unfolding bury_child_def Let_def
    by (auto intro!: rel_case rel_if rel_txn_Inr)
qed

lemma bumps_DeleteJob: "''job_version'' \<in> E \<Longrightarrow> bumps i E s (snd (DeleteJob i jid s))"
proof -
  assume E: "''job_version'' \<in> E"
  have j: "bumps i E t (set_index ''jobs'' i (t\<lparr>ss_jobs := x\<rparr>))" for t x by (intro bumps_set_index) simp
  have v: "bumps i E t (deleteJobVersions i job t)" for t job
    unfolding deleteJobVersions_def by (intro bumps_set_index' ix.rel_fold) (simp add: E)
  have js: "bumps i E t (set_index ''job_summary'' i (t\<lparr>ss_job_summary := x\<rparr>))" for t x by (intro bumps_set_index) simp
  show ?thesis unfolding DeleteJob_def Let_def
    by (intro ix.rel_commit rel_case rel_txn_Inl ix.rel_seq [OF bumps_bury_child] rel_txn_Inr
        bumps_trans [OF bumps_trans [OF j v] js])
qed

lemma bumps_evals:
  "bumps i E s (snd (UpsertEvals i es s))" "bumps i E s (snd (DeleteEval i xs ys s))"
proof -
  have f: "bumps i E s (fst (fold (\<lambda>eval (s, jobs). (nestedUpsertEval i eval s, amap_put (ev_JobID eval) '''' jobs)) es (s, jobs)))" for jobs
  proof (induction es arbitrary: s jobs)
    case (Cons e es)
    from bumps_trans [OF bumps_nestedUpsertEval Cons.IH] show ?case by simp
  qed simp
  show "bumps i E s (snd (UpsertEvals i es s))" unfolding UpsertEvals_def Let_def split_beta
    by (intro ix.rel_commit ix.rel_txn_trans [OF f [unfolded split_beta] ix.rel_setJobStatuses])
  let ?F = "insert ''evals'' (insert ''allocs'' E)"
  have g: "bumps i ?F s (fst (fold (\<lambda>x (s, jobs). case EvalByID s x of None \<Rightarrow> (s, jobs)
      | Some existing \<Rightarrow> (s\<lparr>ss_evals := amap_del (ev_ID existing) (ss_evals s)\<rparr>, amap_put (ev_JobID existing) '''' jobs)) xs (s, jobs)))" for jobs
  proof (induction xs arbitrary: s jobs)
    case (Cons x xs)
    show ?case
    proof (cases "EvalByID s x")
      case (Some e)
      then show ?thesis using bumps_trans [OF _ Cons.IH, of s "s\<lparr>ss_evals := amap_del (ev_ID e) (ss_evals s)\<rparr>"] by simp
    qed (use Cons.IH in simp)
  qed simp
  have h: "bumps i ?F t (fold (\<lambda>x s. case AllocByID s x of None \<Rightarrow> s
      | Some existing \<Rightarrow> s\<lparr>ss_allocs := amap_del (a_ID existing) (ss_allocs s)\<rparr>) ys t)" for t
    by (rule ix.rel_fold) (auto split: option.splits)
  show "bumps i E s (snd (DeleteEval i xs ys s))" unfolding DeleteEval_def Let_def split_beta
    by (rule ix.rel_commit, rule ix.rel_txn_trans [OF _ ix.rel_setJobStatuses],
        rule bumps_set_index, rule bumps_set_index, rule bumps_mono [OF bumps_trans [OF g [unfolded split_beta] h]]) auto
qed


lemma bumps_delete_deployments: "''deployment'' \<in> E \<Longrightarrow> bumps_txn i E s (delete_deployments xs s)"
proof (induction xs arbitrary: s)
  case (Cons x xs)
  then show ?case
    by (auto intro!: rel_case intro: ix.rel_txn_trans [OF bumps_write(5)])
qed (simp add: rel_txn_Inr)

lemma bumps_deployments:
  "bumps i E s (snd (UpsertDeployment i d s))" "bumps i E s (snd (DeleteDeployment i xs s))"
  "bumps i E s (snd (UpdateDeploymentStatus i r1 s))" "bumps i E s (snd (UpdateDeploymentPromotion i r2 s))"
  "bumps i E s (snd (UpdateDeploymentAllocHealth i r3 s))"
proof -
  show "bumps i E s (snd (UpsertDeployment i d s))" unfolding UpsertDeployment_def
    by (intro ix.rel_commit bump_rules)
  show "bumps i E s (snd (DeleteDeployment i xs s))"
  proof (cases "xs = []")
    case False
    from ix.rel_commit [OF bumps_close [OF bumps_delete_deployments]] False show ?thesis by (simp add: DeleteDeployment_def)
  qed (simp add: DeleteDeployment_def)
  show "bumps i E s (snd (UpdateDeploymentStatus i r1 s))" unfolding UpdateDeploymentStatus_def
    by (intro ix.rel_commit ix.rel_seq ix.rel_optional bump_rules)
  show "bumps i E s (snd (UpdateDeploymentPromotion i r2 s))" unfolding UpdateDeploymentPromotion_def Let_def
    by (intro ix.rel_commit ix.rel_value rel_if rel_txn_Inl ix.rel_seq ix.rel_optional bump_rules)
  have h: "bumps_txn i E s (if c then and_then (set_health_all i d True xs s) (\<lambda>s1.
      and_then (set_health_all i d False ys s1) (\<lambda>s2. Inr (set_index ''allocs'' i s2))) else Inr s)" for c d xs ys
    unfolding and_then_assoc [symmetric]
    by (intro rel_if rel_txn_Inr bumps_refl bumps_close ix.rel_seq bumps_set_health_all) simp_all
  show "bumps i E s (snd (UpdateDeploymentAllocHealth i r3 s))" unfolding UpdateDeploymentAllocHealth_def
    by (intro ix.rel_commit ix.rel_value ix.rel_seq [OF h] ix.rel_seq ix.rel_optional bump_rules)
qed

lemma bumps_plan_results: "bumps i E s (snd (UpsertPlanResults i r s))"
proof -
  have "bumps_txn i E t (let s2 = (if c then upsertDeploymentUpdates i us t else t) in upsertAllocsImpl i as s2)" for t c us as
    using ix.rel_txn_trans [OF ix.rel_upsertDeploymentUpdates bumps_upsertAllocsImpl] bumps_upsertAllocsImpl by (simp add: Let_def)
  then show ?thesis unfolding UpsertPlanResults_def Let_def
    by (intro ix.rel_commit ix.rel_seq rel_case rel_txn_Inr bumps_refl bump_rules) (simp_all add: Let_def)
qed

lemma bumps_reconcile: "bumps i E s (ReconcileJobSummaries i s)"
  unfolding ReconcileJobSummaries_def by (intro bumps_set_index ix.rel_fold) (auto split: prod.splits)

lemma store_step_bumps: "store_step i s s' \<Longrightarrow> bumps i {''job_version''} s s'"
proof (induction rule: store_step.induct)
  case (client_allocs s as)
  from ix.rel_commit [OF bumps_close [OF bumps_update_allocs]] show ?case by (simp add: UpdateAllocsFromClient_def)
qed (auto simp: UpsertJob_def UpdateJobStability_def UpsertAllocs_def
    intro: bumps_nodes bumps_DeleteJob bumps_evals bumps_deployments bumps_plan_results bumps_reconcile ix.rel_commit bump_rules)

section \<open>Properties\<close>

text \<open>
  C29: a blocking query never misses a change. Every transaction that changes the rows of the node, job,
  summary, deployment, evaluation or allocation table sets the index of that table to the index
  of the transaction, whatever errors occur and however the transactions call each other.
\<close>

theorem changes_set_index:
  assumes "store_step i s s'" "changed s s' name" "name \<noteq> ''job_version''"
  shows "ss_Index s' name = i"
  using store_step_bumps [OF assms(1)] assms(2,3) by (auto simp: bumps_def)

theorem changes_set_index_witness:
  "ss_nodes (UpsertNode 7 (zero_node\<lparr>n_ID := ''n''\<rparr>) NewStateStore) \<noteq> [] \<and>
   ss_Index (UpsertNode 7 (zero_node\<lparr>n_ID := ''n''\<rparr>) NewStateStore) ''nodes'' = 7"
proof -
  let ?s = "UpsertNode 7 (zero_node\<lparr>n_ID := ''n''\<rparr>) NewStateStore"
  have n: "ss_nodes ?s \<noteq> []" by (simp add: UpsertNode_def set_index_def Let_def)
  then have "changed NewStateStore ?s ''nodes''" by (simp add: changed_def NewStateStore_def)
  from changes_set_index [OF store_step.intros(1) this] n show ?thesis by simp
qed

text \<open>The exception: deleting a job changes its history but not the index of the history.\<close>

lemma DeleteJob_version_index: "ss_Index (snd (DeleteJob i x s)) ''job_version'' = ss_Index s ''job_version''"
proof -
  have f: "ss_index (fold (\<lambda>_ s. s\<lparr>ss_job_version := f s\<rparr>) js s) = ss_index s" for js :: "job list" and f and s :: state_store
    by (induction js arbitrary: s) simp_all
  have "ss_Index s1 ''job_version'' = ss_Index s ''job_version''" if "bury_child i job s = Inr s1" for job s1
    using that unfolding bury_child_def
    by (auto simp: Let_def insert_summary_def ss_Index_def set_index_def split: if_splits option.splits)
  then show ?thesis
    unfolding DeleteJob_def commit_def Let_def deleteJobVersions_def
    by (auto simp: f and_then_def ss_Index_def set_index_def split: option.splits sum.splits)
qed

end
