(* ===== verification/Job_Versions.thy ===== *)
theory Job_Versions
  imports State_Store
begin

text \<open>
  The version history that \<^verbatim>\<open>nomad/state/state_store.go\<close> keeps for every job: what \<open>upsertJobVersion\<close>
  retains, and three ways in which the history and the job table go wrong. The order of the
  history is the order of the index keys, which is the order of the versions below 256 only.
\<close>

section \<open>The order of versions\<close>

lemma uvarint_small: "v < 256 \<Longrightarrow> uvarint v = (if v < 128 then [v] else [v, 1])"
proof -
  assume v: "v < 256"
  show ?thesis
  proof (cases "v < 128")
    case False
    then have "v div 128 = 1" using v by (intro div_nat_eqI) auto
    moreover have "v mod 128 + 128 = v" using calculation mult_div_mod_eq [of 128 v] by linarith
    ultimately show ?thesis using False by (simp add: uvarint.simps [of v] uvarint.simps [of "Suc 0"])
  qed (simp add: uvarint.simps)
qed

lemma version_key_small: "v < 256 \<Longrightarrow> \<exists>rest. version_key v = v # rest"
  by (simp add: version_key_def uvarint_small)

lemma version_key_le: "v < 256 \<Longrightarrow> w < 256 \<Longrightarrow> version_key v \<le> version_key w \<Longrightarrow> v \<le> w"
  using version_key_small [of v] version_key_small [of w] by auto

section \<open>The history of one job\<close>

abbreviation history :: "state_store \<Rightarrow> string \<Rightarrow> job list" where
  "history s x \<equiv> rows (ss_job_version s) (\<lambda>j. j_ID j = x)"

text \<open>Rows sit under their own key, and no other job shares the keys of job \<open>x\<close>.\<close>

definition history_ok :: "string \<Rightarrow> state_store \<Rightarrow> bool" where
  "history_ok x s \<longleftrightarrow> distinct (map fst (ss_job_version s)) \<and>
     (\<forall>k j. (k, j) \<in> set (ss_job_version s) \<longrightarrow> k = (lower (j_ID j), j_Version j)) \<and>
     (\<forall>k j. (k, j) \<in> set (ss_job_version s) \<longrightarrow> lower (j_ID j) = lower x \<longrightarrow> j_ID j = x)"

lemma history_okD:
  assumes "history_ok x s"
  shows "distinct (map fst (ss_job_version s))"
    "(k, j) \<in> set (ss_job_version s) \<Longrightarrow> k = (lower (j_ID j), j_Version j)"
    "(k, j) \<in> set (ss_job_version s) \<Longrightarrow> lower (j_ID j) = lower x \<Longrightarrow> j_ID j = x"
  using assms unfolding history_ok_def by blast+

lemma history_set: "set (history s x) = {j. \<exists>k. (k, j) \<in> set (ss_job_version s) \<and> j_ID j = x}"
  unfolding rows_def by force

lemma history_lookup:
  assumes "history_ok x s"
  shows "j \<in> set (history s x) \<longleftrightarrow> jobByIDAndVersionImpl s x (j_Version j) = Some j"
proof
  assume "j \<in> set (history s x)"
  then obtain k where k: "(k, j) \<in> set (ss_job_version s)" "j_ID j = x" by (auto simp: history_set)
  then have "k = (lower x, j_Version j)" using history_okD(2) [OF assms k(1)] by simp
  with k(1) show "jobByIDAndVersionImpl s x (j_Version j) = Some j"
    using history_okD(1) [OF assms] by (simp add: jobByIDAndVersionImpl_def)
next
  assume "jobByIDAndVersionImpl s x (j_Version j) = Some j"
  then have k: "((lower x, j_Version j), j) \<in> set (ss_job_version s)"
    unfolding jobByIDAndVersionImpl_def by (rule map_of_SomeD)
  have "lower (j_ID j) = lower x" using history_okD(2) [OF assms k] by (metis prod.inject)
  then have "j_ID j = x" by (rule history_okD(3) [OF assms k])
  with k show "j \<in> set (history s x)" by (auto simp: history_set)
qed

lemma history_distinct:
  assumes "history_ok x s"
  shows "distinct (map j_Version (history s x))"
proof -
  note d = history_okD(1) [OF assms] and k = history_okD(2) [OF assms]
  let ?h = "filter (\<lambda>p. j_ID (snd p) = x) (ss_job_version s)"
  have h: "history s x = map snd ?h" by (simp add: rows_def filter_map comp_def)
  have e: "map (\<lambda>p. (lower x, j_Version (snd p))) ?h = map fst ?h"
  proof (rule map_cong [OF refl])
    fix p assume "p \<in> set ?h"
    then show "(lower x, j_Version (snd p)) = fst p" using k [of "fst p" "snd p"] by simp
  qed
  have "distinct (map (\<lambda>p. (lower x, j_Version (snd p))) ?h)" unfolding e by (rule distinct_map_filter [OF d])
  then have "distinct (map (Pair (lower x)) (map j_Version (history s x)))" by (simp add: h comp_def)
  then show ?thesis by (metis distinct_map)
qed

lemma history_sorted:
  assumes "history_ok x s" "\<forall>j \<in> set (history s x). j_Version j < 256"
  shows "sorted_wrt (\<lambda>i j. j_Version j < j_Version i) (jobVersionByID s x)" "mset (jobVersionByID s x) = mset (history s x)"
proof -
  let ?ys = "sort_key (\<lambda>j. version_key (j_Version j)) (history s x)"
  show m: "mset (jobVersionByID s x) = mset (history s x)" by (simp add: jobVersionByID_def)
  have d: "distinct (map j_Version ?ys)"
    using history_distinct [OF assms(1)]
    by (subst mset_eq_imp_distinct_iff [of _ "map j_Version (history s x)"]) simp_all
  have s: "sorted (map (\<lambda>j. version_key (j_Version j)) ?ys)" by (rule sorted_sort_key)
  have "sorted_wrt (\<lambda>i j. j_Version i < j_Version j) ?ys"
  proof (unfold sorted_wrt_iff_nth_less, intro allI impI)
    fix i j assume ij: "i < j" "j < length ?ys"
    then have "version_key (j_Version (?ys ! i)) \<le> version_key (j_Version (?ys ! j))"
      using sorted_nth_mono [OF s, of i j] by simp
    moreover have "j_Version (?ys ! i) < 256" "j_Version (?ys ! j) < 256"
      using assms(2) ij nth_mem [of i ?ys] nth_mem [of j ?ys] by (simp_all del: nth_mem)
    ultimately have "j_Version (?ys ! i) \<le> j_Version (?ys ! j)" by (metis version_key_le)
    moreover have "j_Version (?ys ! i) \<noteq> j_Version (?ys ! j)"
      using d ij nth_eq_iff_index_eq [OF d, of i j] by simp
    ultimately show "j_Version (?ys ! i) < j_Version (?ys ! j)" by simp
  qed
  then show "sorted_wrt (\<lambda>i j. j_Version j < j_Version i) (jobVersionByID s x)"
    unfolding jobVersionByID_def sorted_wrt_rev .
qed

section \<open>What an upsert keeps\<close>

abbreviation add_version :: "nat \<Rightarrow> job \<Rightarrow> state_store \<Rightarrow> state_store" where
  "add_version index job s \<equiv> set_index ''job_version'' index
     (s\<lparr>ss_job_version := amap_put (lower (j_ID job), j_Version job) job (ss_job_version s)\<rparr>)"

abbreviation drop_version :: "job \<Rightarrow> state_store \<Rightarrow> state_store" where
  "drop_version d s \<equiv> s\<lparr>ss_job_version := amap_del (lower (j_ID d), j_Version d) (ss_job_version s)\<rparr>"

lemma amap_put_mem: "(a, b) \<in> set (amap_put k v xs) \<Longrightarrow> a = k \<and> b = v \<or> (a, b) \<in> set xs"
  by (induction xs) (auto split: if_splits)

lemma history_ok_add:
  assumes "history_ok x s" "j_ID job = x"
  shows "history_ok x (add_version i job s)"
proof -
  note u = amap_put_mem [of _ _ "(lower x, j_Version job)" job "ss_job_version s"]
  show ?thesis
    unfolding history_ok_def set_index_def
    using u history_okD [OF assms(1)] assms(2) distinct_update [of "ss_job_version s"]
    by (simp del: distinct_map) blast
qed

lemma history_ok_drop:
  assumes "history_ok x s"
  shows "history_ok x (drop_version d s)"
  using assms unfolding history_ok_def by (simp add: distinct_delete) (auto simp: AList.delete_eq)

lemma lookup_add:
  "j_ID job = x \<Longrightarrow> jobByIDAndVersionImpl (add_version i job s) x v =
     (if v = j_Version job then Some job else jobByIDAndVersionImpl s x v)"
  by (simp add: jobByIDAndVersionImpl_def set_index_def update_conv')

lemma lookup_drop:
  "j_ID d = x \<Longrightarrow> jobByIDAndVersionImpl (drop_version d s) x v =
     (if v = j_Version d then None else jobByIDAndVersionImpl s x v)"
  by (simp add: jobByIDAndVersionImpl_def delete_conv')

lemma history_add:
  assumes "history_ok x s" "j_ID job = x"
  shows "set (history (add_version i job s) x) = insert job {j \<in> set (history s x). j_Version j \<noteq> j_Version job}"
  using history_lookup [OF assms(1)] history_lookup [OF history_ok_add [OF assms]] lookup_add [OF assms(2)]
  by (auto split: if_splits)

lemma history_drop:
  assumes "history_ok x s" "d \<in> set (history s x)"
  shows "set (history (drop_version d s) x) = set (history s x) - {d}"
proof -
  have d: "j_ID d = x" using assms(2) by (auto simp: history_set)
  have l: "j \<in> set (history (drop_version d s) x) \<longleftrightarrow> j_Version j \<noteq> j_Version d \<and> j \<in> set (history s x)" for j
    using history_lookup [OF history_ok_drop [OF assms(1)], of j d] history_lookup [OF assms(1), of j]
    by (simp add: lookup_drop [OF d])
  have "j_Version j = j_Version d \<Longrightarrow> j \<in> set (history s x) \<Longrightarrow> j = d" for j
    using history_lookup [OF assms(1), of j] history_lookup [OF assms(1), of d] assms(2) by simp
  then show ?thesis using l by blast
qed

lemma history_length: "history_ok x s \<Longrightarrow> length (history s x) = card (set (history s x))"
  using history_distinct [of x s] by (metis distinct_card distinct_map)

lemma stable_index_Some:
  assumes "stable_index all = Some i"
  shows "i < length all" "j_Stable (all ! i)" "k < i \<Longrightarrow> \<not> j_Stable (all ! k)"
proof -
  let ?n = "length (takeWhile (\<lambda>j. \<not> j_Stable j) all)"
  have i: "i = ?n" and l: "?n < length all"
    using assms unfolding stable_index_def Let_def by (simp_all split: if_splits)
  show "i < length all" "j_Stable (all ! i)" unfolding i using l nth_length_takeWhile [OF l] by simp_all
  show "k < i \<Longrightarrow> \<not> j_Stable (all ! k)" unfolding i by (metis nth_mem set_takeWhileD takeWhile_nth)
qed

lemma stable_index_None: "stable_index all = None \<Longrightarrow> j \<in> set all \<Longrightarrow> \<not> j_Stable j"
  unfolding stable_index_def Let_def
  by (metis length_takeWhile_le linorder_not_less option.distinct(1) takeWhile_eq_all_conv take_all_iff takeWhile_eq_take)

text \<open>The row that is dropped when there are seven.\<close>

abbreviation victim :: "job list \<Rightarrow> job" where
  "victim all \<equiv> (if stable_index all = Some JobTrackedVersions
     then swap all (JobTrackedVersions - 1) JobTrackedVersions else all) ! JobTrackedVersions"

lemma victim_keeps:
  assumes "length all = 7" "distinct all"
  shows "victim all \<in> set all" "victim all \<noteq> all ! 0"
    "stable_index all = Some i \<Longrightarrow> victim all \<noteq> all ! i"
proof -
  obtain n where n: "victim all = all ! n" "n < 7" "n \<noteq> 0" "stable_index all \<noteq> Some n"
    using assms(1) by (cases "stable_index all = Some 6") (auto simp: JobTrackedVersions_def nth_swap)
  show "victim all \<in> set all" using n(1,2) assms(1) by simp
  show "victim all \<noteq> all ! 0" unfolding n(1) using n(2,3) assms nth_eq_iff_index_eq [OF assms(2), of n 0] by simp
  assume i: "stable_index all = Some i"
  then have "i < 7" "n \<noteq> i" using stable_index_Some(1) [OF i] assms(1) n(4) by auto
  then show "victim all \<noteq> all ! i" unfolding n(1) using n(2) assms nth_eq_iff_index_eq [OF assms(2), of n i] by simp
qed

lemma descending_first:
  assumes "sorted_wrt (\<lambda>i j. j_Version j < j_Version i) all" "job \<in> set all"
    "\<forall>j \<in> set all. j_Version j \<le> j_Version job"
  shows "all ! 0 = job"
proof (cases all)
  case (Cons a as)
  then have "j_Version job < j_Version a \<or> job = a" using assms(1,2) by auto
  moreover have "j_Version a \<le> j_Version job" using assms(3) Cons by simp
  ultimately show ?thesis using Cons by auto
qed (use assms(2) in simp)

lemma first_stable_newest:
  assumes "sorted_wrt (\<lambda>i j. j_Version j < j_Version i) all" "stable_index all = Some i"
    "k \<in> set all" "j_Stable k"
  shows "j_Version k \<le> j_Version (all ! i)"
proof -
  obtain n where n: "n < length all" "k = all ! n" using assms(3) by (metis in_set_conv_nth)
  then have "i \<le> n" using stable_index_Some(3) [OF assms(2), of n] assms(4) by (meson not_le)
  then show ?thesis
    using n sorted_wrt_nth_less [OF assms(1), of i n] by (cases "i = n") auto
qed

lemma upsertJobVersion_cases:
  assumes "j_ID job = x"
  obtains "length (jobVersionByID (add_version i job s) x) \<le> 6" "upsertJobVersion i job s = add_version i job s"
  | "length (jobVersionByID (add_version i job s) x) > 6"
    "upsertJobVersion i job s = drop_version (victim (jobVersionByID (add_version i job s) x)) (add_version i job s)"
  using assms unfolding upsertJobVersion_def Let_def
  by (cases "length (jobVersionByID (add_version i job s) x) \<le> 6") (simp_all add: JobTrackedVersions_def)

text \<open>
  C30: the history of a job. When a job is stored with the highest version so far, below 256, then the
  history stays well formed, the new version can be looked up, at most six versions are kept and
  are listed from the newest to the oldest, nothing but the new version is added, and the newest stable version
  is never dropped, so that a failed deployment has a version to revert to.
\<close>

theorem version_history:
  fixes s :: state_store and job :: job and i :: nat
  defines "s' \<equiv> upsertJobVersion i job s" and "x \<equiv> j_ID job"
  assumes "history_ok x s" "length (history s x) \<le> JobTrackedVersions" "j_Version job < 256"
    "\<forall>j \<in> set (history s x). j_Version j \<le> j_Version job"
  shows "history_ok x s' \<and> jobByIDAndVersionImpl s' x (j_Version job) = Some job
    \<and> length (history s' x) \<le> JobTrackedVersions
    \<and> sorted_wrt (\<lambda>i j. j_Version j < j_Version i) (jobVersionByID s' x)
    \<and> set (history s' x) \<subseteq> insert job (set (history s x))
    \<and> (\<forall>j \<in> insert job {j \<in> set (history s x). j_Version j \<noteq> j_Version job}. j_Stable j \<longrightarrow>
         (\<exists>k \<in> set (history s' x). j_Stable k \<and> j_Version j \<le> j_Version k))"
proof -
  let ?s1 = "add_version i job s" and ?old = "{j \<in> set (history s x). j_Version j \<noteq> j_Version job}"
  let ?all = "jobVersionByID ?s1 x"
  have x: "j_ID job = x" by (simp add: x_def)
  note ok1 = history_ok_add [OF assms(3) x, of i]
  note h1 = history_add [OF assms(3) x, of i]
  have v1: "\<forall>j \<in> set (history ?s1 x). j_Version j < 256" using assms(5,6) h1 by auto
  note so = history_sorted [OF ok1 v1]
  have all: "set ?all = insert job ?old" using mset_eq_setD [OF so(2)] h1 by (rule trans)
  have len: "length ?all = length (history ?s1 x)" by (rule mset_eq_length [OF so(2)])
  have "card (insert job ?old) \<le> card (insert job (set (history s x)))" by (rule card_mono) auto
  then have "card (insert job ?old) \<le> Suc (card (set (history s x)))"
    by (rule order_trans) (simp add: card_insert_if)
  then have l7: "length ?all \<le> 7"
    using assms(4) unfolding len history_length [OF ok1] h1 history_length [OF assms(3)] JobTrackedVersions_def by simp
  have d: "distinct ?all"
    unfolding mset_eq_imp_distinct_iff [OF so(2)] using history_distinct [OF ok1] by (simp add: distinct_map)
  have first: "?all ! 0 = job" by (rule descending_first [OF so(1)]) (use all assms(6) in auto)
  from x show ?thesis
  proof (cases rule: upsertJobVersion_cases [of job x i s])
    case 1
    then have s': "s' = ?s1" by (simp add: s'_def)
    show ?thesis unfolding s' using ok1 so(1) 1(1) len h1 lookup_add [OF x, of i s "j_Version job"]
      by (auto simp: JobTrackedVersions_def)
  next
    case 2
    let ?d = "victim ?all"
    have s': "s' = drop_version ?d ?s1" using 2(2) by (simp add: s'_def)
    have l: "length ?all = 7" using 2(1) l7 by simp
    note v = victim_keeps [OF l d]
    have dm: "?d \<in> set (history ?s1 x)" using v(1) all h1 by simp
    have h': "set (history s' x) = insert job ?old - {?d}" unfolding s' history_drop [OF ok1 dm] h1 ..
    have ok': "history_ok x s'" unfolding s' by (rule history_ok_drop [OF ok1])
    have v': "\<forall>j \<in> set (history s' x). j_Version j < 256" using v1 h' h1 by auto
    have jm: "job \<in> set (history s' x)" using v(2) first h' by auto
    have "length (history s' x) \<le> 6"
      using l dm unfolding history_length [OF ok'] h' len history_length [OF ok1] h1 by (simp add: card_Diff_singleton)
    moreover have "\<exists>k \<in> set (history s' x). j_Stable k \<and> j_Version j \<le> j_Version k"
      if j: "j \<in> insert job ?old" "j_Stable j" for j
    proof -
      have ja: "j \<in> set ?all" using j all by simp
      obtain n where n: "stable_index ?all = Some n" using stable_index_None [OF _ ja] j(2) by (cases "stable_index ?all") auto
      have "?all ! n \<in> insert job ?old" using nth_mem [OF stable_index_Some(1) [OF n]] unfolding all .
      then have "?all ! n \<in> set (history s' x)" unfolding h' using v(3) [OF n] by (intro DiffI) auto
      then show ?thesis using stable_index_Some(2) [OF n] first_stable_newest [OF so(1) n ja j(2)] by blast
    qed
    moreover have "set (history s' x) \<subseteq> insert job (set (history s x))" using h' by auto
    moreover have "jobByIDAndVersionImpl s' x (j_Version job) = Some job" using history_lookup [OF ok'] jm by blast
    ultimately show ?thesis
      using ok' history_sorted(1) [OF ok' v'] unfolding JobTrackedVersions_def by blast
  qed
qed

abbreviation job_at :: "nat \<Rightarrow> bool \<Rightarrow> job" where
  "job_at v st \<equiv> zero_job\<lparr>j_ID := ''web'', j_Version := v, j_Stable := st\<rparr>"

definition versions_store :: "job list \<Rightarrow> state_store" where
  "versions_store js = NewStateStore\<lparr>ss_job_version := map (\<lambda>j. ((lower (j_ID j), j_Version j), j)) js\<rparr>"

definition six_versions :: state_store where
  "six_versions = versions_store (job_at 1 True # map (\<lambda>v. job_at v False) [2, 3, 4, 5, 6])"

lemma history_versions_store: "history (versions_store js) x = filter (\<lambda>j. j_ID j = x) js"
  by (simp add: rows_def comp_def versions_store_def)

lemma history_ok_versions_store:
  "distinct (map j_Version js) \<Longrightarrow> list_all (\<lambda>j. j_ID j = x) js \<Longrightarrow> history_ok x (versions_store js)"
  unfolding history_ok_def versions_store_def by (auto simp: list_all_iff comp_def distinct_map inj_on_def)

theorem version_history_witness:
  "history_ok ''web'' six_versions
   \<and> jobByIDAndVersionImpl (upsertJobVersion 9 (job_at 7 False) six_versions) ''web'' 7 = Some (job_at 7 False)
   \<and> length (history (upsertJobVersion 9 (job_at 7 False) six_versions) ''web'') \<le> 6
   \<and> (\<exists>k \<in> set (history (upsertJobVersion 9 (job_at 7 False) six_versions) ''web''). j_Stable k)"
proof -
  have ok: "history_ok (j_ID (job_at 7 False)) six_versions"
    unfolding six_versions_def by (rule history_ok_versions_store) simp_all
  have h: "history six_versions (j_ID (job_at 7 False)) = job_at 1 True # map (\<lambda>v. job_at v False) [2, 3, 4, 5, 6]"
    unfolding six_versions_def history_versions_store by simp
  have 1: "length (history six_versions (j_ID (job_at 7 False))) \<le> JobTrackedVersions" "j_Version (job_at 7 False) < 256"
    "\<forall>j \<in> set (history six_versions (j_ID (job_at 7 False))). j_Version j \<le> j_Version (job_at 7 False)"
    unfolding h JobTrackedVersions_def by simp_all
  note r = version_history [OF ok 1, of 9]
  have m: "job_at 1 True \<in> insert (job_at 7 False) {j \<in> set (history six_versions (j_ID (job_at 7 False))). j_Version j \<noteq> j_Version (job_at 7 False)}"
    unfolding h by simp
  have st: "j_Stable (job_at 1 True)" and x: "j_ID (job_at 7 False) = ''web''" by simp_all
  have "\<exists>k \<in> set (history (upsertJobVersion 9 (job_at 7 False) six_versions) ''web''). j_Stable k"
    using bspec [OF r [THEN conjunct2, THEN conjunct2, THEN conjunct2, THEN conjunct2, THEN conjunct2] m, THEN mp, OF st]
    unfolding x by blast
  then show ?thesis using ok r by (simp add: JobTrackedVersions_def)
qed

section \<open>Where the history goes wrong\<close>

lemma version_key_256: "128 < v \<Longrightarrow> v < 256 \<Longrightarrow> version_key 256 < version_key v"
  by (simp add: version_key_def uvarint_small uvarint.simps [of 256] uvarint.simps [of 2])

lemma least_first:
  assumes "sorted (map f ys)" "y \<in> set ys" "\<And>z. z \<in> set ys \<Longrightarrow> z \<noteq> y \<Longrightarrow> f y < (f z :: 'b :: linorder)"
  shows "ys ! 0 = y"
  using assms by (cases ys) fastforce+

text \<open>
  C31: version 256 is lost. When a job that has six versions between 129 and 255 is registered
  once more, as version 256 and not yet stable, then the row the store drops to make room is the new one:
  the index key of 256 sorts before theirs, so the code takes the newest version for the oldest.
\<close>

theorem version_256_dropped:
  fixes s :: state_store and job :: job
  defines "x \<equiv> j_ID job"
  assumes "history_ok x s" "length (history s x) = 6" "\<forall>j \<in> set (history s x). 128 < j_Version j \<and> j_Version j < 256"
    "j_Version job = 256" "\<not> j_Stable job"
  shows "jobByIDAndVersionImpl (upsertJobVersion i job s) x 256 = None"
proof -
  let ?s1 = "add_version i job s"
  let ?ys = "sort_key (\<lambda>j. version_key (j_Version j)) (history ?s1 x)"
  have x: "j_ID job = x" by (simp add: x_def)
  note ok1 = history_ok_add [OF assms(2) x, of i]
  have h1: "set (history ?s1 x) = insert job (set (history s x))" and n: "job \<notin> set (history s x)"
    using history_add [OF assms(2) x, of i] assms(4,5) by auto
  have len: "length (history ?s1 x) = 7"
    using n assms(3) unfolding history_length [OF ok1] h1 history_length [OF assms(2)] by simp
  have all: "jobVersionByID ?s1 x = rev ?ys" by (simp add: jobVersionByID_def)
  have "?ys ! 0 = job"
  proof (rule least_first [where f = "\<lambda>j. version_key (j_Version j)"])
    show "sorted (map (\<lambda>j. version_key (j_Version j)) ?ys)" by (rule sorted_sort_key)
    show "job \<in> set ?ys" using h1 by simp
    show "z \<in> set ?ys \<Longrightarrow> z \<noteq> job \<Longrightarrow> version_key (j_Version job) < version_key (j_Version z)" for z
      using h1 assms(4,5) version_key_256 [of "j_Version z"] by simp
  qed
  then have last: "jobVersionByID ?s1 x ! 6 = job" unfolding all using len by (simp add: rev_nth)
  then have "stable_index (jobVersionByID ?s1 x) \<noteq> Some 6"
    using stable_index_Some(2) [of "jobVersionByID ?s1 x" 6] assms(6) by auto
  then have v: "victim (jobVersionByID ?s1 x) = job" using last by (simp add: JobTrackedVersions_def)
  show ?thesis
  proof (cases rule: upsertJobVersion_cases [OF x, of i s])
    case 1
    then show ?thesis using len by (simp add: all)
  next
    case 2
    show ?thesis unfolding 2(2) v using lookup_drop [OF x, of ?s1 256] assms(5) by simp
  qed
qed

theorem version_256_dropped_witness:
  "jobByIDAndVersionImpl (upsertJobVersion 900 (job_at 256 False)
     (versions_store (map (\<lambda>v. job_at v False) [250, 251, 252, 253, 254, 255]))) ''web'' 256 = None"
proof -
  let ?s = "versions_store (map (\<lambda>v. job_at v False) [250, 251, 252, 253, 254, 255])"
  have x: "j_ID (job_at 256 False) = ''web''" by simp
  have a: "history_ok (j_ID (job_at 256 False)) ?s" by (rule history_ok_versions_store) simp_all
  have b: "length (history ?s (j_ID (job_at 256 False))) = 6"
    "\<forall>j \<in> set (history ?s (j_ID (job_at 256 False))). 128 < j_Version j \<and> j_Version j < 256"
    unfolding history_versions_store by simp_all
  have c: "j_Version (job_at 256 False) = 256" "\<not> j_Stable (job_at 256 False)" by simp_all
  show ?thesis using version_256_dropped [OF a b c, of 900] unfolding x .
qed

lemma deleteJobVersions_versions:
  "ss_job_version (deleteJobVersions i job s) = ss_job_version s \<or>
   ss_job_version (deleteJobVersions i job s) = amap_del (lower (j_ID job), j_Version job) (ss_job_version s)"
proof -
  let ?k = "(lower (j_ID job), j_Version job)"
  have "ss_job_version (fold (\<lambda>_ s. s\<lparr>ss_job_version := amap_del ?k (ss_job_version s)\<rparr>) js s) =
      (if js = [] then ss_job_version s else amap_del ?k (ss_job_version s))" for js :: "job list" and s :: state_store
    by (induction js arbitrary: s) (simp_all add: delete_idem)
  then show ?thesis by (simp add: deleteJobVersions_def set_index_def)
qed

text \<open>
  C32: a deregistered job keeps its history. \<open>DeleteJob\<close> means to delete every version of the
  job, but the loop deletes the current version in every round: a lookup of any other version
  gives what it gave before.
\<close>

theorem DeleteJob_keeps_versions:
  assumes "DeleteJob i x s = (None, s')" "JobByID s x = Some job" "v \<noteq> j_Version job"
  shows "JobByID s' (j_ID job) = None \<and> jobByIDAndVersionImpl s' y v = jobByIDAndVersionImpl s y v"
proof -
  obtain s1 where s1: "bury_child i job s = Inr s1"
    using assms(1,2) unfolding DeleteJob_def commit_def by (cases "bury_child i job s") auto
  have v1: "ss_job_version s1 = ss_job_version s"
    using s1 unfolding bury_child_def
    by (auto simp: Let_def insert_summary_def set_index_def split: if_splits option.splits)
  let ?s2 = "set_index ''jobs'' i (s1\<lparr>ss_jobs := amap_del (lower (j_ID job)) (ss_jobs s1)\<rparr>)"
  let ?s3 = "deleteJobVersions i job ?s2"
  have s': "s' = set_index ''job_summary'' i (?s3\<lparr>ss_job_summary := amap_del (lower x) (ss_job_summary ?s3)\<rparr>)"
    using assms(1,2) s1 unfolding DeleteJob_def commit_def by (simp add: Let_def)
  have "ss_jobs (fold (\<lambda>_ s. s\<lparr>ss_job_version := f s\<rparr>) js s) = ss_jobs s" for js :: "job list" and f and s :: state_store
    by (induction js arbitrary: s) simp_all
  then have "ss_jobs ?s3 = ss_jobs ?s2" by (simp add: deleteJobVersions_def set_index_def)
  then have "JobByID s' (j_ID job) = None"
    unfolding s' by (simp add: JobByID_def set_index_def delete_conv')
  moreover have "ss_job_version s' = ss_job_version s \<or> ss_job_version s' = amap_del (lower (j_ID job), j_Version job) (ss_job_version s)"
    using deleteJobVersions_versions [of i job ?s2] v1 unfolding s' by (simp add: set_index_def)
  then have "jobByIDAndVersionImpl s' y v = jobByIDAndVersionImpl s y v"
    using assms(3) by (auto simp: jobByIDAndVersionImpl_def)
  ultimately show ?thesis ..
qed

definition registered :: state_store where
  "registered = six_versions\<lparr>ss_jobs := [(''web'', job_at 6 False)]\<rparr>"

lemma lower_web: "lower ''web'' = ''web''"
  by (simp add: lower_def)

lemma registered_facts:
  "JobByID registered ''web'' = Some (job_at 6 False)" "jobByIDAndVersionImpl registered ''web'' 1 = Some (job_at 1 True)"
  "jobByIDAndVersionImpl registered ''web'' 2 = Some (job_at 2 False)"
  by (simp_all add: JobByID_def jobByIDAndVersionImpl_def registered_def six_versions_def versions_store_def lower_web)

theorem DeleteJob_keeps_versions_witness:
  "fst (DeleteJob 9 ''web'' registered) = None \<and> JobByID (snd (DeleteJob 9 ''web'' registered)) ''web'' = None
   \<and> jobByIDAndVersionImpl (snd (DeleteJob 9 ''web'' registered)) ''web'' 1 = Some (job_at 1 True)"
proof -
  have "fst (DeleteJob 9 ''web'' registered) = None"
    unfolding DeleteJob_def registered_facts by (simp add: bury_child_def commit_def zero_job_def Let_def)
  then have "DeleteJob 9 ''web'' registered = (None, snd (DeleteJob 9 ''web'' registered))" by (metis prod.collapse)
  from DeleteJob_keeps_versions [OF this registered_facts(1), of 1 "''web''"] show ?thesis
    using \<open>fst _ = None\<close> registered_facts(2) by simp
qed

text \<open>
  C33: marking an older version stable reinstalls it. When the version of a job that a deployment
  reports stable is no longer the current one, then \<open>UpdateJobStability\<close> replaces the current job by that
  older version in the job table, although only its stability was to change.
\<close>

theorem UpdateJobStability_reinstalls:
  assumes "JobByID s x = Some current" "jobByIDAndVersionImpl s x v = Some old"
    "j_ID old = x" "j_Version old = v" "v \<noteq> j_Version current" "j_Stable old \<noteq> stab"
  shows "fst (UpdateJobStability i x v stab s) = None
    \<and> (\<exists>job. JobByID (snd (UpdateJobStability i x v stab s)) x = Some job \<and> j_Version job = v \<and> j_Version job \<noteq> j_Version current)"
  using assms
  by (simp add: UpdateJobStability_def updateJobStabilityImpl_def upsertJobImpl_def commit_def Let_def
      addEphemeralDiskToTaskGroups_def insert_job_def set_index_def JobByID_def update_conv')

theorem UpdateJobStability_reinstalls_witness:
  "JobByID registered ''web'' = Some (job_at 6 False)
   \<and> (\<exists>job. JobByID (snd (UpdateJobStability 9 ''web'' 2 True registered)) ''web'' = Some job \<and> j_Version job = 2)"
  using UpdateJobStability_reinstalls [OF registered_facts(1,3), of True 9] registered_facts(1) by auto

end
