(* ===== verification/Plan_Apply.thy ===== *)
theory Plan_Apply
  imports State_Store
begin

text \<open>
  \<^verbatim>\<open>nomad/plan_apply.go\<close>: the verification of a plan against a snapshot of the state, and its
  application through Raft.

  The nodes of a plan are evaluated by a pool of workers and their answers arrive in any order.
  Once an answer cancels the evaluation the remaining ones are drained and ignored, and a node
  whose request was never sent gives no answer, so the only effect of the concurrency is the
  order of the answers: an argument of the model, a permutation of the nodes. What the bitmap
  pool hands to the evaluation of a node is a parameter too. Metrics and log lines are left out.
\<close>

section \<open>Verification of one node\<close>

definition evaluateNodePlan ::
  "state_store \<Rightarrow> plan \<Rightarrow> string \<Rightarrow> pool \<Rightarrow> (fit_error + bool) option" where
  "evaluateNodePlan snap plan nodeID gets =
     (let placed = amap_get [] (pl_NodeAllocation plan) nodeID in
      if length placed = 0 then Some (Inr True)
      else case NodeByID snap nodeID of
        None \<Rightarrow> Some (Inr False)
      | Some node \<Rightarrow>
          if n_Status node \<noteq> NodeStatusReady \<or> n_Drain node then Some (Inr False)
          else
            let existingAlloc = AllocsByNodeTerminal snap nodeID False;
                remove = amap_get [] (pl_NodeUpdate plan) nodeID @ placed
            in Option.bind (RemoveAllocs (map Some existingAlloc) remove) (\<lambda>(kept, _).
               Option.bind (those kept) (\<lambda>proposed.
               map_option (\<lambda>(answer, _). case answer of Inl e \<Rightarrow> Inl e | Inr (fit, _, _) \<Rightarrow> Inr fit)
                 (AllocsFit node (proposed @ placed) None gets))))"

section \<open>Verification of a plan\<close>

datatype plan_error = FitError fit_error | PartialCommitAtZero nat nat

text \<open>What the evaluation accumulates: the result, whether a node was left out, the errors.\<close>

record plan_eval =
  pe_result :: plan_result
  pe_partialCommit :: bool
  pe_mErr :: "plan_error list"

definition node_id_list :: "plan \<Rightarrow> string list" where
  "node_id_list plan =
     fold (\<lambda>nodeID xs. if nodeID \<in> set xs then xs else xs @ [nodeID])
       (map fst (pl_NodeUpdate plan) @ map fst (pl_NodeAllocation plan)) []"

definition new_result :: "plan \<Rightarrow> plan_result" where
  "new_result plan = \<lparr>pr_NodeUpdate = Some [], pr_NodeAllocation = Some [], pr_Deployment = pl_Deployment plan,
     pr_DeploymentUpdates = pl_DeploymentUpdates plan, pr_RefreshIndex = 0, pr_AllocIndex = 0\<rparr>"

text \<open>Writing to a nil map panics; the entry is written only when the list is not empty.\<close>

definition put_nonempty ::
  "string \<Rightarrow> allocation list \<Rightarrow> (string \<times> allocation list) list option \<Rightarrow> (string \<times> allocation list) list option option" where
  "put_nonempty nodeID allocs m =
     (if length allocs > 0 then map_option (\<lambda>es. Some (amap_put nodeID allocs es)) m else Some m)"

definition handleResult :: "plan \<Rightarrow> string \<Rightarrow> fit_error + bool \<Rightarrow> plan_eval \<Rightarrow> (bool \<times> plan_eval) option" where
  "handleResult plan nodeID answer pe =
     (case answer of
        Inl e \<Rightarrow> Some (True, pe\<lparr>pe_mErr := pe_mErr pe @ [FitError e]\<rparr>)
      | Inr False \<Rightarrow>
          let pe1 = pe\<lparr>pe_partialCommit := True\<rparr>
          in if pl_AllAtOnce plan
             then Some (True, pe1\<lparr>pe_result := (pe_result pe1)\<lparr>pr_NodeUpdate := None, pr_NodeAllocation := None,
                    pr_DeploymentUpdates := [], pr_Deployment := None\<rparr>\<rparr>)
             else Some (False, pe1)
      | Inr True \<Rightarrow>
          Option.bind (put_nonempty nodeID (amap_get [] (pl_NodeUpdate plan) nodeID) (pr_NodeUpdate (pe_result pe))) (\<lambda>u.
          Option.bind (put_nonempty nodeID (amap_get [] (pl_NodeAllocation plan) nodeID) (pr_NodeAllocation (pe_result pe))) (\<lambda>a.
            Some (False, pe\<lparr>pe_result := (pe_result pe)\<lparr>pr_NodeUpdate := u, pr_NodeAllocation := a\<rparr>\<rparr>))))"

text \<open>The answers in the order in which they arrive, up to the one that cancels.\<close>

fun handle_results ::
  "(string \<Rightarrow> (fit_error + bool) option) \<Rightarrow> plan \<Rightarrow> string list \<Rightarrow> plan_eval \<Rightarrow> plan_eval option" where
  "handle_results answer plan [] pe = Some pe"
| "handle_results answer plan (nodeID # nodeIDs) pe =
     Option.bind (answer nodeID) (\<lambda>r.
     Option.bind (handleResult plan nodeID r pe) (\<lambda>(cancel, pe').
       if cancel then Some pe' else handle_results answer plan nodeIDs pe'))"

definition correctDeploymentCanaries :: "plan_result \<Rightarrow> plan_result" where
  "correctDeploymentCanaries result =
     (case pr_Deployment result of
        None \<Rightarrow> result
      | Some d \<Rightarrow>
          if \<not> HasPlacedCanaries (Some d) then result
          else
            let placedAllocs = concat (map (\<lambda>(_, placed). map a_ID placed) (entries (pr_NodeAllocation result)))
            in result\<lparr>pr_Deployment := Some (d\<lparr>d_TaskGroups :=
                 map (\<lambda>(name, grp). (name, grp\<lparr>ds_PlacedCanaries := filter (\<lambda>c. c \<in> set placedAllocs) (ds_PlacedCanaries grp)\<rparr>))
                   (d_TaskGroups d)\<rparr>)\<rparr>)"

definition finish_plan :: "state_store \<Rightarrow> plan_eval \<Rightarrow> plan_result \<times> plan_error list" where
  "finish_plan snap pe =
     (if pe_partialCommit pe
      then
        let allocIndex = ss_Index snap ''allocs''; nodeIndex = ss_Index snap ''nodes'';
            result = (pe_result pe)\<lparr>pr_RefreshIndex := max nodeIndex allocIndex\<rparr>;
            errs = (if pr_RefreshIndex result = 0 then pe_mErr pe @ [PartialCommitAtZero nodeIndex allocIndex] else pe_mErr pe)
        in (correctDeploymentCanaries result, errs)
      else (pe_result pe, pe_mErr pe))"

definition evaluatePlan ::
  "(string \<Rightarrow> pool) \<Rightarrow> string list \<Rightarrow> state_store \<Rightarrow> plan \<Rightarrow> (plan_result \<times> plan_error list) option" where
  "evaluatePlan gets order snap plan =
     map_option (finish_plan snap)
       (handle_results (\<lambda>nodeID. evaluateNodePlan snap plan nodeID (gets nodeID)) plan order
          \<lparr>pe_result = new_result plan, pe_partialCommit = False, pe_mErr = []\<rparr>)"

section \<open>Application\<close>

text \<open>The request for Raft; \<open>now\<close> is the clock.\<close>

definition plan_request :: "int \<Rightarrow> plan \<Rightarrow> plan_result \<Rightarrow> apply_plan_results" where
  "plan_request now plan result =
     (let allocs = concat (map snd (entries (pr_NodeUpdate result))) @ concat (map snd (entries (pr_NodeAllocation result)))
      in \<lparr>apr_Job = pl_Job plan,
          apr_Alloc = map (\<lambda>a. if a_CreateTime a = 0 then a\<lparr>a_CreateTime := now\<rparr> else a) allocs,
          apr_Deployment = pr_Deployment result, apr_DeploymentUpdates = pr_DeploymentUpdates result\<rparr>)"

text \<open>
  The apply loop of the leader. Raft is outside the sources: it accepts a request or not, and later
  commits it, which applies it to the replicated state, or fails it, in the order of submission. The plan queue hands out one plan at a time.
  An iteration of the loop stops at most once, to wait for the application before it, so it is
  modelled in two parts, up to the verdict and from there on. A snapshot is the state at the time
  it is taken; \<open>Snapshot\<close> returns no error, so the error branches of the loop are left out.
\<close>

datatype wait_ch = NilCh | OpenCh | ClosedCh

datatype plan_reply = Applied plan_result | NotValid "plan_error list" | RaftFailed | NotSubmitted state_error

datatype apply_phase = Waiting | Verified plan plan_result

text \<open>A submitted request goes with the plan that \<open>asyncPlanWait\<close> answers, if it runs.\<close>

record applier =
  pa_fsm :: state_store
  pa_log :: "(apply_plan_results \<times> (plan \<times> plan_result) option) list"
  pa_waitCh :: wait_ch
  pa_snap :: "state_store option"
  pa_phase :: apply_phase
  pa_replies :: "(plan \<times> plan_reply) list"

definition pa_respond :: "plan \<Rightarrow> plan_reply \<Rightarrow> applier \<Rightarrow> applier" where
  "pa_respond plan reply w = w\<lparr>pa_replies := pa_replies w @ [(plan, reply)], pa_phase := Waiting\<rparr>"

text \<open>The snapshot the loop verifies against, after the check of the last application.\<close>

definition current_snapshot :: "applier \<Rightarrow> wait_ch \<times> state_store" where
  "current_snapshot w =
     (let (waitCh, snap) = (if pa_waitCh w = ClosedCh then (NilCh, None) else (pa_waitCh w, pa_snap w))
      in (waitCh, case snap of None \<Rightarrow> pa_fsm w | Some s \<Rightarrow> if waitCh = NilCh then pa_fsm w else s))"

definition planApply_verify :: "(string \<Rightarrow> pool) \<Rightarrow> string list \<Rightarrow> plan \<Rightarrow> applier \<Rightarrow> applier option" where
  "planApply_verify gets order plan w =
     (let (waitCh, snap) = current_snapshot w;
          w1 = w\<lparr>pa_waitCh := waitCh, pa_snap := Some snap\<rparr>
      in map_option (\<lambda>(result, err).
           if err \<noteq> [] then pa_respond plan (NotValid err) w1
           else if result_IsNoOp result then pa_respond plan (Applied result) w1
           else w1\<lparr>pa_phase := Verified plan result\<rparr>) (evaluatePlan gets order snap plan))"

text \<open>\<open>applyPlan\<close>: submit the request, then apply it to the optimistic snapshot.\<close>

definition applyPlan :: "nat \<Rightarrow> int \<Rightarrow> bool \<Rightarrow> plan \<Rightarrow> plan_result \<Rightarrow> state_store \<Rightarrow>
    plan_reply + (apply_plan_results \<times> state_error option \<times> state_store)" where
  "applyPlan nextIdx now submitted plan result snap =
     (let req = plan_request now plan result
      in if \<not> submitted then Inl RaftFailed else Inr (req, UpsertPlanResults nextIdx req snap))"

definition planApply_dispatch :: "nat \<Rightarrow> int \<Rightarrow> bool \<Rightarrow> applier \<Rightarrow> applier" where
  "planApply_dispatch nextIdx now submitted w =
     (case pa_phase w of
        Waiting \<Rightarrow> w
      | Verified plan result \<Rightarrow>
          if pa_waitCh w = OpenCh then w
          else
            let snap = (case pa_snap w of None \<Rightarrow> pa_fsm w | Some s \<Rightarrow> if pa_waitCh w = NilCh then s else pa_fsm w);
                w1 = w\<lparr>pa_snap := Some snap\<rparr>
            in case applyPlan nextIdx now submitted plan result snap of
                 Inl reply \<Rightarrow> pa_respond plan reply w1
               | Inr (req, Some e, _) \<Rightarrow> pa_respond plan (NotSubmitted e) (w1\<lparr>pa_log := pa_log w @ [(req, None)]\<rparr>)
               | Inr (req, None, snap') \<Rightarrow> w1\<lparr>pa_log := pa_log w @ [(req, Some (plan, result))],
                   pa_snap := Some snap', pa_waitCh := OpenCh, pa_phase := Waiting\<rparr>)"

definition asyncPlanWait :: "nat \<Rightarrow> bool \<Rightarrow> plan \<Rightarrow> plan_result \<Rightarrow> applier \<Rightarrow> applier" where
  "asyncPlanWait index ok plan result w =
     (let reply =
        (if \<not> ok then RaftFailed
         else Applied (result\<lparr>pr_AllocIndex := index,
                pr_RefreshIndex := (if pr_RefreshIndex result \<noteq> 0 then max (pr_RefreshIndex result) index
                                    else pr_RefreshIndex result)\<rparr>))
      in w\<lparr>pa_replies := pa_replies w @ [(plan, reply)], pa_waitCh := ClosedCh\<rparr>)"

text \<open>Raft decides the oldest request.\<close>

definition raft_decides :: "nat \<Rightarrow> bool \<Rightarrow> applier \<Rightarrow> applier" where
  "raft_decides index ok w =
     (case pa_log w of
        [] \<Rightarrow> w
      | (req, waiter) # log \<Rightarrow>
          let w1 = w\<lparr>pa_log := log, pa_fsm := (if ok then snd (UpsertPlanResults index req (pa_fsm w)) else pa_fsm w)\<rparr>
          in case waiter of None \<Rightarrow> w1 | Some (plan, result) \<Rightarrow> asyncPlanWait index ok plan result w1)"

end
