(* ===== verification/Plan_Apply_Safe.thy ===== *)
theory Plan_Apply_Safe
  imports Plan_Apply Store_Relation
begin

text \<open>
  No plan overcommits a node: what \<open>evaluatePlan\<close> lets through fits when it is applied to the
  state it was verified against, or to a later state in which allocations have only ended; and
  the apply loop keeps every node within its resources as long as no application fails.
\<close>

section \<open>What an allocation uses\<close>

definition asks :: "(resources \<Rightarrow> int) \<Rightarrow> allocation \<Rightarrow> int" where
  "asks f a = sum_list (map (opt_dim f) (deltas_of [a]))"

definition same_usage :: "allocation \<Rightarrow> allocation \<Rightarrow> bool" where
  "same_usage a b \<longleftrightarrow> list_all (\<lambda>f. asks f a = asks f b) dimensions \<and> alloc_networks a = alloc_networks b"

definition sane :: "allocation \<Rightarrow> bool" where
  "sane a \<longleftrightarrow> list_all (\<lambda>f. 0 \<le> asks f a) dimensions \<and> list_all (\<lambda>n. 0 \<le> nr_MBits n) (alloc_networks a)"

definition usage :: "allocation \<Rightarrow> int list \<times> network_resource list" where
  "usage a = (map (\<lambda>f. asks f a) dimensions, alloc_networks a)"

lemma same_usage_eq: "same_usage a b \<longleftrightarrow> usage a = usage b"
  by (auto simp: same_usage_def usage_def list_all_iff)

lemma sane_usage: "usage a = usage b \<Longrightarrow> sane a \<longleftrightarrow> sane b"
  by (auto simp: sane_def usage_def list_all_iff)

lemma demand_asks: "demand f node as = opt_dim f (n_Reserved node) + sum_list (map (asks f) as)"
  by (induction as) (auto simp: demand_def asks_def deltas_of_def)

lemma ports_on_append: "ports_on ip (xs @ ys) = ports_on ip xs @ ports_on ip ys"
  by (simp add: ports_on_def)

lemma bandwidth_on_append: "bandwidth_on d (xs @ ys) = bandwidth_on d xs + bandwidth_on d ys"
  by (simp add: bandwidth_on_def)

lemma mset_ports_on: "mset (ports_on ip ns) = (\<Sum>n\<in>#filter_mset (\<lambda>n. nr_IP n = ip) (mset ns). mset (port_values n))"
  by (induction ns) (auto simp: ports_on_def)

lemma bandwidth_on_mset: "bandwidth_on d ns = (\<Sum>n\<in>#filter_mset (\<lambda>n. nr_Device n = d) (mset ns). nr_MBits n)"
  by (induction ns) (auto simp: bandwidth_on_def)

lemma collides_mono: "mset vs \<subseteq># mset ws \<Longrightarrow> \<not> collides {} ws \<Longrightarrow> \<not> collides {} vs"
proof -
  assume a: "mset vs \<subseteq># mset ws" "\<not> collides {} ws"
  then obtain cs where m: "mset ws = mset (vs @ cs)" by (metis ex_mset mset_append mset_subset_eq_exists_conv)
  have "set vs \<subseteq> set ws" "distinct ws \<longleftrightarrow> distinct (vs @ cs)"
    using mset_eq_setD [OF m] mset_eq_imp_distinct_iff [OF m] by auto
  then show ?thesis using a(2) by (auto simp: collides_def list_all_iff)
qed

text \<open>Fewer allocations ask for less.\<close>

lemma sum_mset_mono_subset:
  assumes "A \<subseteq># B" "\<forall>x \<in># B. 0 \<le> (f x :: int)"
  shows "(\<Sum>x\<in>#A. f x) \<le> (\<Sum>x\<in>#B. f x)"
proof -
  obtain C where "B = A + C" using assms(1) by (metis mset_subset_eq_exists_conv)
  moreover have "0 \<le> (\<Sum>x\<in>#C. f x)" if "\<forall>x \<in># C. 0 \<le> f x" for C
    using that by (induction C) auto
  ultimately show ?thesis using assms(2) by auto
qed

lemma networks_mset: "mset (concat (map alloc_networks as)) = (\<Sum>u\<in>#mset (map usage as). mset (snd u))"
  by (induction as) (auto simp: usage_def)
lemma asks_usage:
  assumes "f \<in> set dimensions"
  shows "\<exists>k. \<forall>a. asks f a = fst (usage a) ! k"
proof -
  obtain k where "k < length dimensions" "f = dimensions ! k" using assms by (metis in_set_conv_nth)
  then show ?thesis by (intro exI [of _ k]) (simp add: usage_def)
qed

lemma sum_asks:
  assumes "f \<in> set dimensions"
  shows "\<exists>g. (\<forall>as. sum_list (map (asks f) as) = (\<Sum>u\<in>#mset (map usage as). g u)) \<and> (\<forall>a. g (usage a) = asks f a)"
proof -
  obtain k where k: "\<And>a. asks f a = fst (usage a) ! k" using asks_usage [OF assms] by blast
  have "sum_list (map (asks f) as) = (\<Sum>u\<in>#mset (map usage as). fst u ! k)" for as
    by (induction as) (simp_all add: k)
  with k show ?thesis by (intro exI [of _ "\<lambda>u. fst u ! k"]) simp
qed

lemma fits_subset:
  assumes fit: "fits_spec node ys" and sane: "\<forall>b \<in> set ys. sane b" "list_all (\<lambda>n. 0 \<le> nr_MBits n) (claimed_networks node [])"
    and sub: "mset (map usage xs) \<subseteq># mset (map usage ys)"
  shows "fits_spec node xs"
proof -
  let ?nx = "claimed_networks node xs" and ?ny = "claimed_networks node ys"
  have "demand f node xs \<le> demand f node ys" if f: "f \<in> set dimensions" for f
  proof -
    obtain g where g: "\<And>as. sum_list (map (asks f) as) = (\<Sum>u\<in>#mset (map usage as). g u)" "\<And>a. g (usage a) = asks f a"
      using sum_asks [OF f] by blast
    have "\<forall>u \<in># mset (map usage ys). 0 \<le> g u" using sane(1) f g(2) by (auto simp: sane_def list_all_iff)
    from sum_mset_mono_subset [OF sub this] show ?thesis by (simp add: demand_asks g(1))
  qed
  then have dims: "list_all (\<lambda>f. demand f node xs \<le> f (n_Resources node)) dimensions"
    using fit by (auto simp: fits_spec_def list_all_iff) (meson order_trans)
  obtain C where C: "mset (map usage ys) = mset (map usage xs) + C" using sub by (metis mset_subset_eq_exists_conv)
  have nets: "mset ?nx \<subseteq># mset ?ny"
    unfolding claimed_networks_def mset_append networks_mset C by simp
  have "mset (ports_on ip ?nx) \<subseteq># mset (ports_on ip ?ny)" for ip
    using nets unfolding mset_ports_on by (auto simp: mset_subset_eq_exists_conv)
  then have ports: "\<forall>ip. \<not> collides {} (ports_on ip ?nx)"
    using fit by (meson collides_mono fits_spec_def)
  have pos: "\<forall>n \<in># filter_mset P (mset ?ny). 0 \<le> nr_MBits n" for P
    using sane by (auto simp: claimed_networks_def sane_def list_all_iff)
  have "bandwidth_on d ?nx \<le> bandwidth_on d ?ny" for d
    unfolding bandwidth_on_mset by (rule sum_mset_mono_subset [OF multiset_filter_mono [OF nets] pos])
  moreover have "set ?nx \<subseteq> set ?ny" using nets by (metis set_mset_mono set_mset_mset)
  ultimately have "list_all (\<lambda>n. bandwidth_on (nr_Device n) ?nx \<le> node_bandwidth node (nr_Device n)) ?nx"
    using fit by (auto simp: fits_spec_def list_all_iff) (meson order_trans subsetD)
  with dims ports show ?thesis by (simp add: fits_spec_def)
qed

lemma fits_matched:
  assumes "fits_spec node ys" "\<forall>b \<in> set ys. sane b" "list_all (\<lambda>n. 0 \<le> nr_MBits n) (claimed_networks node [])"
    "distinct (map a_ID xs)" "\<And>a. a \<in> set xs \<Longrightarrow> \<exists>b \<in> set ys. a_ID b = a_ID a \<and> usage b = usage a"
  shows "fits_spec node xs"
proof (rule fits_subset [OF assms(1-3)])
  let ?g = "\<lambda>a. (a_ID a, usage a)"
  have "distinct (map ?g xs)" using assms(4) by (induction xs) auto
  moreover have "set (map ?g xs) \<subseteq> set (map ?g ys)"
    using assms(5) by (auto simp: image_iff) metis
  ultimately have "mset (map ?g xs) \<subseteq># mset (map ?g ys)"
    by (auto simp: subseteq_mset_def distinct_count_atmost_1 count_eq_zero_iff simp del: mset_map set_map)
  then have "image_mset snd (mset (map ?g xs)) \<subseteq># image_mset snd (mset (map ?g ys))" by (rule image_mset_subseteq_mono)
  then show "mset (map usage xs) \<subseteq># mset (map usage ys)" by (simp add: image_mset.compositionality comp_def)
qed

text \<open>The order of the allocations does not matter.\<close>

lemma perm_usage:
  assumes "mset xs = mset ys"
  shows "demand f node xs = demand f node ys" "mset (claimed_networks node xs) = mset (claimed_networks node ys)"
proof -
  have "sum_list (map g xs) = sum_list (map g ys)" for g :: "allocation \<Rightarrow> int"
    using assms by (metis mset_map sum_mset_sum_list)
  then show "demand f node xs = demand f node ys" by (simp add: demand_asks)
  show "mset (claimed_networks node xs) = mset (claimed_networks node ys)"
    unfolding claimed_networks_def mset_append networks_mset mset_map assms ..
qed

lemma perm_fits:
  assumes "mset xs = mset ys"
  shows "fits_spec node xs \<longleftrightarrow> fits_spec node ys" "no_overflow node xs \<longleftrightarrow> no_overflow node ys"
proof -
  note u = perm_usage [OF assms, where node = node]
  have b: "bandwidth_on d (claimed_networks node xs) = bandwidth_on d (claimed_networks node ys)" for d
    by (simp add: bandwidth_on_mset u(2))
  have p: "mset (ports_on ip (claimed_networks node xs)) = mset (ports_on ip (claimed_networks node ys))" for ip
    by (simp add: mset_ports_on u(2))
  have c: "collides {} (ports_on ip (claimed_networks node xs)) \<longleftrightarrow> collides {} (ports_on ip (claimed_networks node ys))" for ip
    using collides_mono p [of ip] by (metis subset_mset.order_refl)
  have s: "set (claimed_networks node xs) = set (claimed_networks node ys)" by (rule mset_eq_setD [OF u(2)])
  show "fits_spec node xs \<longleftrightarrow> fits_spec node ys" "no_overflow node xs \<longleftrightarrow> no_overflow node ys"
    by (simp_all add: fits_spec_def no_overflow_def u(1) b c list_all_iff s)
qed

section \<open>Verification\<close>

text \<open>The allocations a node would run after the plan.\<close>

definition proposed :: "state_store \<Rightarrow> plan \<Rightarrow> string \<Rightarrow> allocation list" where
  "proposed s plan x =
     (let placed = amap_get [] (pl_NodeAllocation plan) x; remove = amap_get [] (pl_NodeUpdate plan) x @ placed
      in filter (\<lambda>a. a_ID a \<notin> a_ID ` set remove) (AllocsByNodeTerminal s x False) @ placed)"

lemma those_map_Some: "those (map Some xs) = Some xs"
  by (induction xs) simp_all

lemma add_used_deltas: "add_used as u = Inr v \<Longrightarrow> list_all (\<lambda>a. alloc_deltas a \<noteq> None) as"
  by (induction as arbitrary: u) (auto split: option.splits)

lemma AllocsFit_deltas: "AllocsFit node as idx gets = Some (Inr r, rest) \<Longrightarrow> list_all (\<lambda>a. alloc_deltas a \<noteq> None) as"
  unfolding AllocsFit_def Let_def by (auto split: sum.splits dest: add_used_deltas)

lemma evaluateNodePlan_fits:
  assumes ev: "evaluateNodePlan snap plan x gets = Some (Inr True)" and ne: "amap_get [] (pl_NodeAllocation plan) x \<noteq> []"
    and pool: "pool_ok gets" and over: "\<forall>node. NodeByID snap x = Some node \<longrightarrow> no_overflow node (proposed snap plan x)"
  shows "\<exists>node. NodeByID snap x = Some node \<and> node_Ready node \<and> fits_spec node (proposed snap plan x) \<and>
    list_all (\<lambda>a. alloc_deltas a \<noteq> None) (proposed snap plan x)"
proof -
  let ?placed = "amap_get [] (pl_NodeAllocation plan) x"
  let ?remove = "amap_get [] (pl_NodeUpdate plan) x @ ?placed"
  obtain node where node: "NodeByID snap x = Some node" "node_Ready node"
    using ev ne by (auto simp: evaluateNodePlan_def node_Ready_def Let_def split: option.splits if_splits)
  obtain kept arr where kept: "RemoveAllocs (map Some (AllocsByNodeTerminal snap x False)) ?remove = Some (map Some kept, arr)"
    "mset kept = filter_mset (\<lambda>a. a_ID a \<notin> a_ID ` set ?remove) (mset (AllocsByNodeTerminal snap x False))"
    using RemoveAllocs_mset by blast
  have m: "mset (kept @ ?placed) = mset (proposed snap plan x)" using kept(2) by (simp add: proposed_def Let_def)
  have "map_option (\<lambda>(answer, _). case answer of Inl e \<Rightarrow> Inl e | Inr (fit, _, _) \<Rightarrow> Inr fit)
      (AllocsFit node (kept @ ?placed) None gets) = Some (Inr True)"
    using ev ne node kept(1) by (simp add: evaluateNodePlan_def node_Ready_def Let_def those_map_Some)
  then obtain answer rest where "AllocsFit node (kept @ ?placed) None gets = Some (answer, rest)"
    "(case answer of Inl e \<Rightarrow> Inl e | Inr (fit, _, _) \<Rightarrow> Inr fit) = Inr True"
    by (auto simp del: split_paired_Ex)
  then obtain dim used where fit: "AllocsFit node (kept @ ?placed) None gets = Some (Inr (True, dim, used), rest)"
    by (cases answer) auto
  have "no_overflow node (kept @ ?placed)" using over node(1) perm_fits(2) [OF m] by blast
  from AllocsFit_decides [OF pool AllocsFit_deltas [OF fit] this] fit have "fits_spec node (kept @ ?placed)" by auto
  moreover have "list_all (\<lambda>a. alloc_deltas a \<noteq> None) (proposed snap plan x)"
    using AllocsFit_deltas [OF fit] mset_eq_setD [OF m] by (simp add: list_all_iff)
  ultimately show ?thesis using node perm_fits(1) [OF m] by blast
qed

lemma evaluateNodePlan_decides:
  assumes "pool_ok gets" "\<forall>node. NodeByID snap x = Some node \<longrightarrow> no_overflow node (proposed snap plan x)"
    "list_all (\<lambda>a. alloc_deltas a \<noteq> None) (proposed snap plan x)"
  shows "evaluateNodePlan snap plan x gets = Some (Inr (amap_get [] (pl_NodeAllocation plan) x = [] \<or>
    (\<exists>node. NodeByID snap x = Some node \<and> node_Ready node \<and> fits_spec node (proposed snap plan x))))"
proof (cases "amap_get [] (pl_NodeAllocation plan) x = [] \<or> \<not> (\<exists>node. NodeByID snap x = Some node \<and> node_Ready node)")
  case True
  then show ?thesis by (auto simp: evaluateNodePlan_def node_Ready_def Let_def split: option.split)
next
  case False
  let ?placed = "amap_get [] (pl_NodeAllocation plan) x"
  let ?remove = "amap_get [] (pl_NodeUpdate plan) x @ ?placed"
  obtain node where node: "NodeByID snap x = Some node" "node_Ready node" and ne: "?placed \<noteq> []" using False by blast
  obtain kept arr where kept: "RemoveAllocs (map Some (AllocsByNodeTerminal snap x False)) ?remove = Some (map Some kept, arr)"
    "mset kept = filter_mset (\<lambda>a. a_ID a \<notin> a_ID ` set ?remove) (mset (AllocsByNodeTerminal snap x False))"
    using RemoveAllocs_mset by blast
  have m: "mset (kept @ ?placed) = mset (proposed snap plan x)" using kept(2) by (simp add: proposed_def Let_def)
  have d: "list_all (\<lambda>a. alloc_deltas a \<noteq> None) (kept @ ?placed)" using assms(3) mset_eq_setD [OF m] by (simp add: list_all_iff)
  have o: "no_overflow node (kept @ ?placed)" using assms(2) node(1) perm_fits(2) [OF m] by blast
  obtain fit dim used rest where f: "AllocsFit node (kept @ ?placed) None gets = Some (Inr (fit, dim, used), rest)"
    "fit \<longleftrightarrow> fits_spec node (proposed snap plan x)"
    using AllocsFit_decides [OF assms(1) d o] perm_fits(1) [OF m, of node] by blast
  show ?thesis using node ne kept(1) f by (simp add: evaluateNodePlan_def node_Ready_def Let_def those_map_Some)
qed

text \<open>What a verified result holds: whole nodes of the plan, each with its evictions, each found to fit.\<close>

definition whole_nodes :: "(string \<Rightarrow> (fit_error + bool) option) \<Rightarrow> plan \<Rightarrow>
    (string \<rightharpoonup> allocation list) \<Rightarrow> (string \<rightharpoonup> allocation list) \<Rightarrow> bool" where
  "whole_nodes ev plan updates placements \<longleftrightarrow>
     (\<forall>x l. updates x = Some l \<longrightarrow> l = amap_get [] (pl_NodeUpdate plan) x) \<and>
     (\<forall>x l. placements x = Some l \<longrightarrow>
        l = amap_get [] (pl_NodeAllocation plan) x \<and> l \<noteq> [] \<and> ev x = Some (Inr True) \<and>
        go_get [] updates x = amap_get [] (pl_NodeUpdate plan) x)"

lemma whole_nodes_empty [simp]: "whole_nodes ev plan Map.empty Map.empty"
  by (simp add: whole_nodes_def)

lemma whole_nodes_put:
  assumes "whole_nodes ev plan U A" "ev x = Some (Inr True)"
    "lu = amap_get [] (pl_NodeUpdate plan) x" "la = amap_get [] (pl_NodeAllocation plan) x"
  shows "whole_nodes ev plan (if lu \<noteq> [] then U(x \<mapsto> lu) else U) (if la \<noteq> [] then A(x \<mapsto> la) else A)"
proof -
  have "go_get [] U x = []" if "lu = []" using assms(1,3) that unfolding whole_nodes_def by (cases "U x") (auto simp: go_get_def)
  then show ?thesis using assms unfolding whole_nodes_def by simp blast
qed

definition verified :: "(string \<Rightarrow> (fit_error + bool) option) \<Rightarrow> plan \<Rightarrow> plan_result \<Rightarrow> bool" where
  "verified ev plan r \<longleftrightarrow>
     distinct (map fst (entries (pr_NodeAllocation r))) \<and> distinct (map fst (entries (pr_NodeUpdate r))) \<and>
     whole_nodes ev plan (map_of (entries (pr_NodeUpdate r))) (map_of (entries (pr_NodeAllocation r)))"

lemma put_nonempty_entries:
  assumes "put_nonempty x l m = Some m'"
  shows "map_of (entries m') = (if l \<noteq> [] then (map_of (entries m))(x \<mapsto> l) else map_of (entries m))"
    "distinct (map fst (entries m)) \<Longrightarrow> distinct (map fst (entries m'))"
  using assms by (auto simp: put_nonempty_def update_conv' distinct_update split: if_splits)

lemma handleResult_verified:
  assumes "handleResult plan x r pe = Some (c, pe')" "verified ev plan (pe_result pe)" "ev x = Some r"
  shows "verified ev plan (pe_result pe')"
proof (cases "r = Inr True")
  case True
  then obtain u a where u: "put_nonempty x (amap_get [] (pl_NodeUpdate plan) x) (pr_NodeUpdate (pe_result pe)) = Some u"
    and a: "put_nonempty x (amap_get [] (pl_NodeAllocation plan) x) (pr_NodeAllocation (pe_result pe)) = Some a"
    and pe': "pe' = pe\<lparr>pe_result := (pe_result pe)\<lparr>pr_NodeUpdate := u, pr_NodeAllocation := a\<rparr>\<rparr>"
    using assms(1) by (auto simp: handleResult_def bind_eq_Some_conv)
  note pu = put_nonempty_entries [OF u] and pa = put_nonempty_entries [OF a]
  have e: "pr_NodeUpdate (pe_result pe') = u" "pr_NodeAllocation (pe_result pe') = a" by (simp_all add: pe')
  show ?thesis
    unfolding verified_def e pu(1) pa(1)
    using assms(2,3) True pu(2) pa(2) by (intro conjI whole_nodes_put) (simp_all add: verified_def)
next
  case False
  then have "pe_result pe' = pe_result pe \<or> entries (pr_NodeUpdate (pe_result pe')) = [] \<and> entries (pr_NodeAllocation (pe_result pe')) = []"
    using assms(1) by (auto simp: handleResult_def Let_def split: sum.splits bool.splits if_splits)
  then show ?thesis using assms(2) unfolding verified_def by (elim disjE conjE) simp_all
qed

lemma handle_results_verified:
  "handle_results ev plan xs pe = Some pe' \<Longrightarrow> verified ev plan (pe_result pe) \<Longrightarrow> verified ev plan (pe_result pe')"
  by (induction xs arbitrary: pe) (auto simp: bind_eq_Some_conv split: if_splits intro: handleResult_verified)

lemma evaluatePlan_verified:
  assumes "evaluatePlan gets order snap plan = Some (r, errs)"
  shows "verified (\<lambda>x. evaluateNodePlan snap plan x (gets x)) plan r"
proof -
  have fin: "verified ev plan (pe_result pe) \<Longrightarrow> verified ev plan (fst (finish_plan snap pe))" for ev pe
    by (auto simp: verified_def finish_plan_def correctDeploymentCanaries_def Let_def split: option.splits)
  have "verified ev plan (new_result plan)" for ev by (simp add: verified_def new_result_def)
  then show ?thesis
    using assms fin handle_results_verified unfolding evaluatePlan_def by fastforce
qed

section \<open>What applying a plan writes\<close>

text \<open>The helpers leave the allocations and the nodes alone.\<close>

definition quiet :: "state_store \<Rightarrow> state_store \<Rightarrow> bool" where
  "quiet s t \<longleftrightarrow> ss_allocs t = ss_allocs s \<and> ss_nodes t = ss_nodes s"

interpretation fr: store_relation quiet i for i
  by unfold_locales
    (auto simp: quiet_def insert_job_def insert_summary_def set_index_def upsertJobVersion_def Let_def)

text \<open>How an upserted allocation is stored, given the row it replaces.\<close>

definition stored :: "allocation \<Rightarrow> allocation option \<Rightarrow> allocation \<Rightarrow> bool" where
  "stored a old a' \<longleftrightarrow> a_ID a' = a_ID a \<and> a_NodeID a' = a_NodeID a \<and> usage a' = usage a \<and>
     a_DesiredStatus a' = a_DesiredStatus a \<and>
     a_ClientStatus a' = (case old of
        Some e \<Rightarrow> if a_ClientStatus a \<noteq> AllocClientStatusLost then a_ClientStatus e else a_ClientStatus a
      | None \<Rightarrow> a_ClientStatus a)"

lemma usage_cong:
  "a_Resources a = a_Resources b \<Longrightarrow> a_SharedResources a = a_SharedResources b \<Longrightarrow>
   a_TaskResources a = a_TaskResources b \<Longrightarrow> usage a = usage b"
proof -
  assume e: "a_Resources a = a_Resources b" "a_SharedResources a = a_SharedResources b" "a_TaskResources a = a_TaskResources b"
  then have "alloc_deltas a = alloc_deltas b" by (simp only: alloc_deltas_def)
  moreover from e(3) have "alloc_networks a = alloc_networks b" unfolding alloc_networks_def by simp
  ultimately show ?thesis by (simp add: usage_def asks_def deltas_of_def)
qed

lemma usage_update [simp]:
  "usage (a\<lparr>a_Job := j\<rparr>) = usage a" "usage (a\<lparr>a_DeploymentStatus := d\<rparr>) = usage a" "usage (a\<lparr>a_CreateTime := t\<rparr>) = usage a"
  by (rule usage_cong; simp)+

lemma alloc_deltas_update [simp]:
  "alloc_deltas (a\<lparr>a_Job := j\<rparr>) = alloc_deltas a" "alloc_deltas (a\<lparr>a_CreateTime := t\<rparr>) = alloc_deltas a"
  by (simp_all add: alloc_deltas_def split: option.split)

lemma merge_existing_stored: "merge_existing i a old = Inr a' \<Longrightarrow> stored a old a'"
  by (auto simp: merge_existing_def stored_def Let_def split: option.splits if_splits intro!: usage_cong)

lemma updateDeploymentWithAlloc_stored: "updateDeploymentWithAlloc i a ex s = Inr (a', s') \<Longrightarrow> stored b old a \<Longrightarrow> stored b old a'"
  by (fastforce simp: updateDeploymentWithAlloc_def Let_def and_then_Inr stored_def split: if_splits option.splits prod.splits)

lemma upsert_alloc_stored:
  assumes "upsert_alloc i a s = Inr (a', s')"
  shows "stored a (AllocByID s (a_ID a)) a'" "ss_nodes s' = ss_nodes s"
    "AllocByID s' x = (if x = a_ID a then Some a' else AllocByID s x)"
    "distinct (map fst (ss_allocs s)) \<Longrightarrow> distinct (map fst (ss_allocs s'))"
proof -
  obtain a1 a2 s1 s2 where m: "merge_existing i a (AllocByID s (a_ID a)) = Inr a1"
    and d: "updateDeploymentWithAlloc i a1 (AllocByID s (a_ID a)) s = Inr (a2, s1)"
    and u: "updateSummaryWithAlloc i a2 (AllocByID s (a_ID a)) s1 = Inr s2"
    and r: "a' = a2\<lparr>a_Job := map_option addEphemeralDiskToTaskGroups (a_Job a2)\<rparr>" "s' = insert_alloc a' s2"
    using assms by (auto simp: upsert_alloc_def Let_def and_then_Inr)
  have "stored a (AllocByID s (a_ID a)) a2"
    by (rule updateDeploymentWithAlloc_stored [OF d merge_existing_stored [OF m]])
  then show st: "stored a (AllocByID s (a_ID a)) a'"
    unfolding r stored_def by simp
  have "quiet s s2" by (rule fr.rel_trans [OF fr.rel_updateDeploymentWithAlloc [OF d] rel_txnD [OF fr.rel_updateSummaryWithAlloc u]])
  then show "ss_nodes s' = ss_nodes s" "AllocByID s' x = (if x = a_ID a then Some a' else AllocByID s x)"
    "distinct (map fst (ss_allocs s)) \<Longrightarrow> distinct (map fst (ss_allocs s'))"
    using st by (simp_all add: r(2) quiet_def insert_alloc_def AllocByID_def update_conv' stored_def distinct_update)
qed

lemma upsert_allocs_stored:
  assumes "upsert_allocs i as jobs s = Inr (jobs', s')"
  shows "ss_nodes s' = ss_nodes s"
    "AllocByID s' x = Some a' \<Longrightarrow> x \<notin> a_ID ` set as \<and> AllocByID s x = Some a' \<or> (\<exists>a \<in> set as. \<exists>old. a_ID a = x \<and> stored a old a')"
  using assms
proof (induction as arbitrary: jobs s)
  case (Cons a as)
  { case 1
    then show ?case using Cons.IH(1) upsert_alloc_stored(2) by (fastforce simp: and_then_Inr)
  next
    case 2
    then obtain b s1 where b: "upsert_alloc i a s = Inr (b, s1)"
      "upsert_allocs i as (amap_put (a_JobID b) (forced_status b) jobs) s1 = Inr (jobs', s')"
      by (auto simp: and_then_Inr)
    from Cons.IH(2) [OF 2(1) b(2)] upsert_alloc_stored(1) [OF b(1)] upsert_alloc_stored(3) [OF b(1), of x]
    show ?case by (auto split: if_splits)
  }
qed auto

lemma upsert_allocs_distinct:
  "upsert_allocs i as jobs s = Inr (jobs', s') \<Longrightarrow> distinct (map fst (ss_allocs s)) \<Longrightarrow> distinct (map fst (ss_allocs s'))"
proof (induction as arbitrary: jobs s)
  case (Cons a as)
  then show ?case using upsert_alloc_stored(4) by (fastforce simp: and_then_Inr)
qed auto

section \<open>Later states\<close>

text \<open>A later state, in which clients may have ended allocations.\<close>

definition follows :: "allocation \<Rightarrow> allocation \<Rightarrow> bool" where
  "follows b a \<longleftrightarrow> a_NodeID a = a_NodeID b \<and> usage a = usage b \<and> a_DesiredStatus a = a_DesiredStatus b \<and>
     (alloc_Terminated b \<longrightarrow> alloc_Terminated a)"

definition follows_store :: "state_store \<Rightarrow> state_store \<Rightarrow> bool" where
  "follows_store s t \<longleftrightarrow> ss_nodes t = ss_nodes s \<and> (\<forall>x. rel_option follows (AllocByID s x) (AllocByID t x))"

lemma follows_store_refl [simp]: "follows_store s s"
  by (auto simp: follows_store_def follows_def option.rel_refl)

lemma follows_store_trans: "follows_store s t \<Longrightarrow> follows_store t u \<Longrightarrow> follows_store s u"
proof -
  assume a: "follows_store s t" "follows_store t u"
  have "rel_option follows (AllocByID s x) (AllocByID u x)" for x
  proof -
    have "rel_option follows (AllocByID s x) (AllocByID t x)" "rel_option follows (AllocByID t x) (AllocByID u x)"
      using a by (simp_all add: follows_store_def)
    then show ?thesis by (cases "AllocByID s x"; cases "AllocByID t x"; cases "AllocByID u x") (auto simp: follows_def)
  qed
  with a show ?thesis by (simp add: follows_store_def)
qed

lemma follows_storeD:
  assumes "follows_store s t" "AllocByID t x = Some a"
  obtains b where "AllocByID s x = Some b" "follows b a"
  using assms unfolding follows_store_def by (metis option.rel_cases option.distinct(1) option.inject)

lemma live_follows: "follows b a \<Longrightarrow> \<not> alloc_TerminalStatus a \<Longrightarrow> \<not> alloc_TerminalStatus b"
  by (auto simp: follows_def alloc_TerminalStatus_def alloc_Terminated_def split: if_splits)

lemma stored_follows:
  assumes "stored a old b" "stored a old' c" "rel_option follows old old'"
  shows "follows b c"
  using assms by (cases old; cases old') (auto simp: stored_def follows_def alloc_Terminated_def AllocClientStatusLost_def
      AllocClientStatusComplete_def AllocClientStatusFailed_def split: if_splits)

lemma upsert_alloc_follows:
  assumes "follows_store s t" "upsert_alloc i a s = Inr (b, s')" "upsert_alloc j a t = Inr (c, t')"
  shows "follows_store s' t'"
proof -
  have "follows b c"
    using upsert_alloc_stored(1) [OF assms(2)] upsert_alloc_stored(1) [OF assms(3)] assms(1)
    by (intro stored_follows) (auto simp: follows_store_def)
  then show ?thesis
    using assms(1) unfolding follows_store_def
    by (simp add: upsert_alloc_stored(2) [OF assms(2)] upsert_alloc_stored(2) [OF assms(3)]
        upsert_alloc_stored(3) [OF assms(2)] upsert_alloc_stored(3) [OF assms(3)])
qed

lemma upsert_allocs_follows:
  "follows_store s t \<Longrightarrow> upsert_allocs i as js s = Inr (js', s') \<Longrightarrow> upsert_allocs j as ks t = Inr (ks', t') \<Longrightarrow> follows_store s' t'"
proof (induction as arbitrary: s t js ks)
  case (Cons a as)
  obtain b s1 c t1 where 1: "upsert_alloc i a s = Inr (b, s1)" "upsert_alloc j a t = Inr (c, t1)"
    and 2: "upsert_allocs i as (amap_put (a_JobID b) (forced_status b) js) s1 = Inr (js', s')"
      "upsert_allocs j as (amap_put (a_JobID c) (forced_status c) ks) t1 = Inr (ks', t')"
    using Cons.prems(2,3) by (auto simp: and_then_Inr)
  show ?case by (rule Cons.IH [OF upsert_alloc_follows [OF Cons.prems(1) 1] 2])
qed simp

section \<open>Applying the results\<close>

definition prepared :: "apply_plan_results \<Rightarrow> allocation list" where
  "prepared req = map total_resources (DenormalizeAllocationJobs (apr_Job req) (apr_Alloc req))"

lemma UpsertPlanResults_run:
  assumes "UpsertPlanResults i req s = (None, s')"
  obtains s2 jobs s3 where "quiet s s2" "upsert_allocs i (prepared req) [] s2 = Inr (jobs, s3)" "quiet s3 s'"
proof -
  obtain s1 where 1: "(case apr_Deployment req of None \<Rightarrow> Inr s | Some d \<Rightarrow> upsertDeploymentImpl i d s) = Inr s1"
    and 2: "upsertAllocsImpl i (prepared req)
        (if apr_DeploymentUpdates req \<noteq> [] then upsertDeploymentUpdates i (apr_DeploymentUpdates req) s1 else s1) = Inr s'"
      (is "upsertAllocsImpl i _ ?s2 = _")
    using assms by (auto simp: UpsertPlanResults_def commit_def and_then_def Let_def prepared_def split: sum.splits)
  obtain jobs s3 where 3: "upsert_allocs i (prepared req) [] ?s2 = Inr (jobs, s3)"
    and 4: "setJobStatuses i jobs False (set_index ''allocs'' i s3) = Inr s'"
    using 2 by (auto simp: upsertAllocsImpl_def and_then_Inr)
  have "rel_txn quiet s (case apr_Deployment req of None \<Rightarrow> Inr s | Some d \<Rightarrow> upsertDeploymentImpl i d s)"
    by (intro rel_case fr.rel_upsertDeploymentImpl rel_txn_Inr fr.rel_refl)
  then have "quiet s ?s2" using 1 fr.rel_trans [OF _ fr.rel_upsertDeploymentUpdates] by (auto simp: rel_txn_def)
  moreover have "quiet s3 s'"
    using rel_txnD [OF fr.rel_setJobStatuses 4] by (simp add: quiet_def set_index_def)
  ultimately show ?thesis using 3 that by blast
qed

lemma quiet_follows: "quiet s t \<Longrightarrow> follows_store s t" "quiet s t \<Longrightarrow> follows_store t s"
  and quiet_AllocByID: "quiet s t \<Longrightarrow> AllocByID t x = AllocByID s x"
  by (simp_all add: quiet_def follows_store_def AllocByID_def option.rel_refl follows_def)

lemma UpsertPlanResults_follows:
  assumes "follows_store s t" "UpsertPlanResults i req s = (None, s')" "UpsertPlanResults j req t = (None, t')"
  shows "follows_store s' t'"
proof -
  obtain s2 js s3 where s: "quiet s s2" "upsert_allocs i (prepared req) [] s2 = Inr (js, s3)" "quiet s3 s'"
    by (rule UpsertPlanResults_run [OF assms(2)])
  obtain t2 ks t3 where t: "quiet t t2" "upsert_allocs j (prepared req) [] t2 = Inr (ks, t3)" "quiet t3 t'"
    by (rule UpsertPlanResults_run [OF assms(3)])
  have "follows_store s2 t2"
    by (rule follows_store_trans [OF quiet_follows(2) [OF s(1)] follows_store_trans [OF assms(1) quiet_follows(1) [OF t(1)]]])
  from upsert_allocs_follows [OF this s(2) t(2)] show ?thesis
    using follows_store_trans quiet_follows s(3) t(3) by blast
qed

text \<open>Every row afterwards is an untouched old one or a stored allocation of the request.\<close>

lemma UpsertPlanResults_rows:
  assumes "UpsertPlanResults i req s = (None, s')"
  shows "ss_nodes s' = ss_nodes s" "distinct (map fst (ss_allocs s)) \<Longrightarrow> distinct (map fst (ss_allocs s'))"
    "AllocByID s' x = Some a' \<Longrightarrow> x \<notin> a_ID ` set (prepared req) \<and> AllocByID s x = Some a' \<or>
       (\<exists>a \<in> set (prepared req). \<exists>old. a_ID a = x \<and> stored a old a')"
proof -
  obtain s2 js s3 where s: "quiet s s2" "upsert_allocs i (prepared req) [] s2 = Inr (js, s3)" "quiet s3 s'"
    by (rule UpsertPlanResults_run [OF assms])
  note u = upsert_allocs_stored [OF s(2)]
  show "ss_nodes s' = ss_nodes s" using u(1) s(1,3) by (simp add: quiet_def)
  show "distinct (map fst (ss_allocs s)) \<Longrightarrow> distinct (map fst (ss_allocs s'))"
    using upsert_allocs_distinct [OF s(2)] s(1,3) by (simp add: quiet_def)
  show "x \<notin> a_ID ` set (prepared req) \<and> AllocByID s x = Some a' \<or> (\<exists>a \<in> set (prepared req). \<exists>old. a_ID a = x \<and> stored a old a')"
    if "AllocByID s' x = Some a'"
    using u(2) [of x a'] that by (simp add: quiet_AllocByID [OF s(1)] quiet_AllocByID [OF s(3)])
qed

section \<open>No overcommitment\<close>

definition node_ok :: "string \<Rightarrow> node \<Rightarrow> bool" where
  "node_ok x node \<longleftrightarrow> lower x = x \<and>
     list_all (\<lambda>f. 0 \<le> opt_dim f (n_Reserved node) \<and> f (n_Resources node) < 2 ^ 63) dimensions \<and>
     list_all (\<lambda>n. 0 \<le> nr_MBits n) (claimed_networks node [])"

text \<open>Rows sit under their ID, node IDs are in lower case, and no live allocation asks for less than nothing.\<close>

definition cluster_ok :: "state_store \<Rightarrow> bool" where
  "cluster_ok s \<longleftrightarrow> distinct (map fst (ss_allocs s)) \<and>
     (\<forall>x a. AllocByID s x = Some a \<longrightarrow> a_ID a = x \<and> (\<not> alloc_TerminalStatus a \<longrightarrow> sane a)) \<and>
     (\<forall>x node. NodeByID s x = Some node \<longrightarrow> node_ok x node)"

definition fits_all :: "state_store \<Rightarrow> bool" where
  "fits_all s \<longleftrightarrow> (\<forall>x node. NodeByID s x = Some node \<longrightarrow> fits_spec node (AllocsByNodeTerminal s x False))"

definition plan_ok :: "plan \<Rightarrow> bool" where
  "plan_ok plan \<longleftrightarrow>
     (\<forall>x l a. map_of (pl_NodeAllocation plan) x = Some l \<longrightarrow> a \<in> set l \<longrightarrow> a_NodeID a = x \<and> lower x = x \<and> sane a) \<and>
     (\<forall>x l a. map_of (pl_NodeUpdate plan) x = Some l \<longrightarrow> a \<in> set l \<longrightarrow> a_DesiredStatus a \<in> {AllocDesiredStatusStop, AllocDesiredStatusEvict})"

definition in_range :: "state_store \<Rightarrow> plan \<Rightarrow> bool" where
  "in_range s plan \<longleftrightarrow> (\<forall>x node. NodeByID s x = Some node \<longrightarrow> no_overflow node (proposed s plan x))"

lemma live_on:
  assumes "cluster_ok s"
  shows "a \<in> set (AllocsByNodeTerminal s x False) \<longleftrightarrow>
      AllocByID s (a_ID a) = Some a \<and> lower (a_NodeID a) = lower x \<and> \<not> alloc_TerminalStatus a"
    "distinct (map a_ID (AllocsByNodeTerminal s x False))"
proof -
  have d: "distinct (map fst (ss_allocs s))" and k: "\<And>y b. AllocByID s y = Some b \<Longrightarrow> a_ID b = y"
    using assms unfolding cluster_ok_def by blast+
  have key: "fst p = a_ID (snd p)" if "p \<in> set (ss_allocs s)" for p
    using k [of "fst p" "snd p"] d that by (simp add: AllocByID_def)
  show "a \<in> set (AllocsByNodeTerminal s x False) \<longleftrightarrow>
      AllocByID s (a_ID a) = Some a \<and> lower (a_NodeID a) = lower x \<and> \<not> alloc_TerminalStatus a"
  proof -
    have "a \<in> snd ` set (ss_allocs s) \<longleftrightarrow> (a_ID a, a) \<in> set (ss_allocs s)"
    proof
      assume "a \<in> snd ` set (ss_allocs s)"
      then obtain p where "p \<in> set (ss_allocs s)" "a = snd p" by blast
      with key [of p] show "(a_ID a, a) \<in> set (ss_allocs s)" by (metis prod.collapse)
    qed force
    then have "a \<in> snd ` set (ss_allocs s) \<longleftrightarrow> AllocByID s (a_ID a) = Some a"
      unfolding AllocByID_def map_of_eq_Some_iff [OF d] .
    then show ?thesis unfolding AllocsByNodeTerminal_def rows_def by auto
  qed
  have "map a_ID (map snd (ss_allocs s)) = map fst (ss_allocs s)" using key by simp
  then have "distinct (map a_ID (map snd (ss_allocs s)))" using d by argo
  then show "distinct (map a_ID (AllocsByNodeTerminal s x False))"
    unfolding AllocsByNodeTerminal_def rows_def by (rule distinct_map_filter)
qed

text \<open>The totals that the store computes are the sums the verification saw.\<close>

lemma foldl_tasks: "foldl (\<lambda>r (_, t). r_Add r (Some t)) z ts = foldl r_Add z (map (\<lambda>(_, t). Some t) ts)"
  by (induction ts arbitrary: z) auto

lemma total_usage:
  assumes "alloc_deltas a \<noteq> None" "\<And>f. f \<in> set dimensions \<Longrightarrow> int64 (asks f a)"
  shows "usage (total_resources a) = usage a"
proof (cases "a_Resources a")
  case None
  then obtain ts where ts: "a_TaskResources a = Some ts" using assms(1) by (auto simp: alloc_deltas_def split: option.splits)
  let ?ds = "map (\<lambda>(_, t). Some t) ts @ [a_SharedResources a]"
  have t: "total_resources a = a\<lparr>a_Resources := Some (foldl r_Add zero_resources ?ds)\<rparr>"
    using None ts by (simp add: total_resources_def foldl_tasks)
  have "asks f (total_resources a) = asks f a" if f: "f \<in> set dimensions" for f
  proof -
    have z: "f zero_resources = 0" "int64 0" using f by (auto simp: dimensions_def zero_resources_def int64_def)
    have "asks f a = sum_list (map (opt_dim f) ?ds)"
      using None ts by (simp add: asks_def deltas_of_def alloc_deltas_def)
    moreover have "asks f (total_resources a) = f (foldl r_Add zero_resources ?ds)"
      unfolding t by (simp add: asks_def deltas_of_def alloc_deltas_def opt_dim_def)
    moreover have "f (foldl r_Add zero_resources ?ds) = wrap64 (f zero_resources + sum_list (map (opt_dim f) ?ds))"
      by (rule foldl_r_Add_dim [OF f]) (simp add: z)
    ultimately show ?thesis using assms(2) [OF f] z(1) by simp
  qed
  moreover have "alloc_networks (total_resources a) = alloc_networks a" unfolding t by (simp add: alloc_networks_def)
  ultimately show ?thesis by (simp add: usage_def)
qed (simp add: total_resources_def)

lemma total_resources_same [simp]:
  "a_ID (total_resources a) = a_ID a" "a_NodeID (total_resources a) = a_NodeID a" "a_DesiredStatus (total_resources a) = a_DesiredStatus a"
  by (simp_all add: total_resources_def split: option.split)

abbreviation result_allocs :: "plan_result \<Rightarrow> allocation list" where
  "result_allocs r \<equiv> concat (map snd (entries (pr_NodeUpdate r))) @ concat (map snd (entries (pr_NodeAllocation r)))"

lemma prepared_ids: "a_ID ` set (prepared (plan_request now plan r)) = a_ID ` set (result_allocs r)"
proof -
  have "map a_ID (prepared (plan_request now plan r)) = map a_ID (result_allocs r)"
    unfolding prepared_def DenormalizeAllocationJobs_def plan_request_def Let_def
    by (cases "pl_Job plan") (simp_all add: comp_def if_distrib [of a_ID] del: map_concat map_append)
  then show ?thesis by (metis set_map)
qed

lemma prepared_elem:
  assumes "p \<in> set (prepared (plan_request now plan r))"
  shows "\<exists>q \<in> set (result_allocs r). \<exists>q'. p = total_resources q' \<and> a_ID q' = a_ID q \<and> a_NodeID q' = a_NodeID q \<and>
    a_DesiredStatus q' = a_DesiredStatus q \<and> alloc_deltas q' = alloc_deltas q \<and> usage q' = usage q"
proof -
  let ?t = "\<lambda>a. if a_CreateTime a = 0 then a\<lparr>a_CreateTime := now\<rparr> else a"
  have d: "\<exists>b \<in> set ts. c = b \<or> (\<exists>j. c = b\<lparr>a_Job := j\<rparr>)" if "c \<in> set (DenormalizeAllocationJobs job ts)" for c job ts
    using that by (cases job) (auto simp: DenormalizeAllocationJobs_def)
  obtain q' where q': "p = total_resources q'" "q' \<in> set (DenormalizeAllocationJobs (pl_Job plan) (map ?t (result_allocs r)))"
    using assms unfolding prepared_def plan_request_def Let_def by auto
  obtain q where q: "q \<in> set (result_allocs r)" "p = total_resources q'" "q' = ?t q \<or> (\<exists>j. q' = (?t q)\<lparr>a_Job := j\<rparr>)"
    using d [OF q'(2)] q'(1) unfolding set_map by blast
  then have "a_ID q' = a_ID q \<and> a_NodeID q' = a_NodeID q \<and>
    a_DesiredStatus q' = a_DesiredStatus q \<and> alloc_deltas q' = alloc_deltas q \<and> usage q' = usage q"
    by auto
  with q(1,2) show ?thesis by blast
qed

lemma result_updates:
  assumes "verified ev plan r" "plan_ok plan" "q \<in> set (concat (map snd (entries (pr_NodeUpdate r))))"
  shows "a_DesiredStatus q \<in> {AllocDesiredStatusStop, AllocDesiredStatusEvict}"
proof -
  obtain x l where l: "(x, l) \<in> set (entries (pr_NodeUpdate r))" "q \<in> set l" using assms(3) by auto
  then have "l = amap_get [] (pl_NodeUpdate plan) x"
    using assms(1) by (simp add: verified_def whole_nodes_def map_of_is_SomeI)
  then have "map_of (pl_NodeUpdate plan) x = Some l" using l(2) by (auto simp: go_get_def split: option.splits)
  with assms(2) l(2) show ?thesis unfolding plan_ok_def by blast
qed

lemma result_placements:
  assumes "verified (\<lambda>x. evaluateNodePlan snap plan x (gets x)) plan r" "plan_ok plan" "in_range snap plan" "\<forall>x. pool_ok (gets x)"
    "cluster_ok snap" "q \<in> set (concat (map snd (entries (pr_NodeAllocation r))))"
  shows "\<exists>node. map_of (entries (pr_NodeAllocation r)) (a_NodeID q) \<noteq> None \<and> q \<in> set (amap_get [] (pl_NodeAllocation plan) (a_NodeID q)) \<and>
    lower (a_NodeID q) = a_NodeID q \<and> sane q \<and> alloc_deltas q \<noteq> None \<and> NodeByID snap (a_NodeID q) = Some node \<and>
    node_Ready node \<and> fits_spec node (proposed snap plan (a_NodeID q)) \<and>
    (\<forall>f \<in> set dimensions. int64 (asks f q))"
proof -
  obtain x l where l: "(x, l) \<in> set (entries (pr_NodeAllocation r))" "q \<in> set l" using assms(6) by auto
  then have m: "map_of (entries (pr_NodeAllocation r)) x = Some l" using assms(1) by (simp add: verified_def)
  then have w: "l = amap_get [] (pl_NodeAllocation plan) x" "l \<noteq> []" "evaluateNodePlan snap plan x (gets x) = Some (Inr True)"
    using assms(1) unfolding verified_def whole_nodes_def by blast+
  have "map_of (pl_NodeAllocation plan) x = Some l" using w(1) l(2) by (auto simp: go_get_def split: option.splits)
  then have q: "a_NodeID q = x" "lower x = x" "sane q" using assms(2) l(2) unfolding plan_ok_def by blast+
  obtain node where n: "NodeByID snap x = Some node" "node_Ready node" "fits_spec node (proposed snap plan x)"
    "list_all (\<lambda>a. alloc_deltas a \<noteq> None) (proposed snap plan x)"
    using evaluateNodePlan_fits [OF w(3)] w(1,2) assms(3,4) unfolding in_range_def by blast
  have qm: "q \<in> set (proposed snap plan x)" using l(2) w(1) by (simp add: proposed_def Let_def)
  have ok: "node_ok x node" and live: "\<forall>a \<in> set (AllocsByNodeTerminal snap x False). sane a"
    using assms(5) n(1) live_on(1) [OF assms(5)] unfolding cluster_ok_def by blast+
  have sane: "\<forall>a \<in> set (proposed snap plan x). sane a"
    using live assms(2) w(1) \<open>map_of (pl_NodeAllocation plan) x = Some l\<close>
    unfolding proposed_def Let_def plan_ok_def by auto
  have "int64 (asks f q)" if f: "f \<in> set dimensions" for f
  proof -
    have nn: "\<forall>a \<in> set (proposed snap plan x). 0 \<le> asks f a" using sane f by (auto simp: sane_def list_all_iff)
    have "asks f q \<le> sum_list (map (asks f) (proposed snap plan x))"
      using nn qm by (intro member_le_sum_list) auto
    also have "\<dots> \<le> demand f node (proposed snap plan x)" using ok f by (auto simp: demand_asks node_ok_def list_all_iff)
    also have "\<dots> \<le> f (n_Resources node)" using n(3) f by (auto simp: fits_spec_def list_all_iff)
    finally show ?thesis using nn qm ok f by (auto simp: int64_def node_ok_def list_all_iff)
  qed
  then show ?thesis using m l(2) w(1) q n qm by (auto simp: list_all_iff)
qed

text \<open>The result of verifying the plan on \<open>snap\<close> is applied to a state \<open>s\<close> that follows it.\<close>

definition applies :: "(string \<Rightarrow> pool) \<Rightarrow> state_store \<Rightarrow> plan \<Rightarrow> plan_result \<Rightarrow> nat \<Rightarrow> int \<Rightarrow> state_store \<Rightarrow> state_store \<Rightarrow> bool" where
  "applies gets snap plan r i now s s' \<longleftrightarrow>
     verified (\<lambda>x. evaluateNodePlan snap plan x (gets x)) plan r \<and> plan_ok plan \<and> in_range snap plan \<and>
     (\<forall>x. pool_ok (gets x)) \<and> cluster_ok snap \<and> follows_store snap s \<and> cluster_ok s \<and>
     UpsertPlanResults i (plan_request now plan r) s = (None, s')"

lemma appliesD:
  assumes "applies gets snap plan r i now s s'"
  shows "verified (\<lambda>x. evaluateNodePlan snap plan x (gets x)) plan r" "plan_ok plan" "in_range snap plan"
    "\<forall>x. pool_ok (gets x)" "cluster_ok snap" "follows_store snap s" "cluster_ok s"
    "UpsertPlanResults i (plan_request now plan r) s = (None, s')"
  using assms unfolding applies_def by blast+

lemmas applied_placements = result_placements [OF appliesD(1) appliesD(2) appliesD(3) appliesD(4) appliesD(5)]

text \<open>A live allocation after the application is an untouched one, or one that the plan placed.\<close>

lemma applied_live:
  assumes app: "applies gets snap plan r i now s s'" and live: "AllocByID s' x = Some a" "\<not> alloc_TerminalStatus a"
  obtains (old) "x \<notin> a_ID ` set (result_allocs r)" "AllocByID s x = Some a"
    | (new) q where "q \<in> set (concat (map snd (entries (pr_NodeAllocation r))))" "a_ID q = x" "a_NodeID a = a_NodeID q" "usage a = usage q"
proof -
  from UpsertPlanResults_rows(3) [OF appliesD(8) [OF app] live(1)]
  consider "x \<notin> a_ID ` set (result_allocs r)" "AllocByID s x = Some a"
    | p old where "p \<in> set (prepared (plan_request now plan r))" "a_ID p = x" "stored p old a"
    unfolding prepared_ids by blast
  then show ?thesis
  proof cases
    case (2 p ol)
    obtain q q' where q: "q \<in> set (result_allocs r)" "p = total_resources q'" "a_ID q' = a_ID q" "a_NodeID q' = a_NodeID q"
      "a_DesiredStatus q' = a_DesiredStatus q" "alloc_deltas q' = alloc_deltas q" "usage q' = usage q"
      using prepared_elem [OF 2(1)] by blast
    have des: "a_DesiredStatus a = a_DesiredStatus q" using 2(3) q(2,5) by (simp add: stored_def)
    have "q \<notin> set (concat (map snd (entries (pr_NodeUpdate r))))"
      using result_updates [OF appliesD(1,2) [OF app], of q] des live(2) by (auto simp: alloc_TerminalStatus_def simp del: set_concat)
    then have qm: "q \<in> set (concat (map snd (entries (pr_NodeAllocation r))))" using q(1) unfolding set_append by blast
    from applied_placements [OF app app app app app qm]
    have d: "alloc_deltas q \<noteq> None" "\<forall>f \<in> set dimensions. int64 (asks f q)" by blast+
    have e: "asks f q' = asks f q" for f unfolding asks_def deltas_of_def using q(6) by simp
    have "usage p = usage q'" unfolding q(2) by (rule total_usage) (use d q(6) e in simp_all)
    then show ?thesis using new [OF qm] 2 q by (simp add: stored_def)
  qed (rule old)
qed

lemma applied_nodes:
  assumes "applies gets snap plan r i now s s'"
  shows "NodeByID s' x = NodeByID s x" "NodeByID snap x = NodeByID s x"
  using UpsertPlanResults_rows(1) [OF appliesD(8) [OF assms]] appliesD(6) [OF assms]
  by (simp_all add: NodeByID_def follows_store_def)

lemma applied_cluster_ok:
  assumes app: "applies gets snap plan r i now s s'"
  shows "cluster_ok s'"
proof -
  note st = appliesD(7) [OF app] and up = appliesD(8) [OF app]
  have "a_ID a = x" if "AllocByID s' x = Some a" for x a
    using UpsertPlanResults_rows(3) [OF up that] st by (auto simp: cluster_ok_def stored_def)
  moreover have "sane a" if "AllocByID s' x = Some a" "\<not> alloc_TerminalStatus a" for x a
  proof (rule applied_live [OF app that])
    show "sane a" if "AllocByID s x = Some a" using st that \<open>\<not> alloc_TerminalStatus a\<close> unfolding cluster_ok_def by blast
    show "sane a" if "q \<in> set (concat (map snd (entries (pr_NodeAllocation r))))" "usage a = usage q" for q
      using applied_placements [OF app app app app app that(1)] sane_usage [OF that(2)] by blast
  qed
  ultimately show ?thesis
    using st UpsertPlanResults_rows(2) [OF up] unfolding cluster_ok_def applied_nodes(1) [OF app] by blast
qed

lemma applied_on_node:
  assumes app: "applies gets snap plan r i now s s'" and y: "NodeByID s y = Some node"
    and a: "a \<in> set (AllocsByNodeTerminal s' y False)"
  obtains (old) "a_ID a \<notin> a_ID ` set (result_allocs r)" "a \<in> set (AllocsByNodeTerminal s y False)"
    | (new) q where "map_of (entries (pr_NodeAllocation r)) y \<noteq> None" "q \<in> set (amap_get [] (pl_NodeAllocation plan) y)"
        "a_ID q = a_ID a" "usage q = usage a"
proof -
  have ly: "lower y = y" using appliesD(7) [OF app] y unfolding cluster_ok_def node_ok_def by blast
  have l: "AllocByID s' (a_ID a) = Some a" "\<not> alloc_TerminalStatus a" and on: "lower (a_NodeID a) = y"
    using live_on(1) [OF applied_cluster_ok [OF app], of a y] a ly by auto
  show ?thesis
  proof (rule applied_live [OF app l])
    assume "a_ID a \<notin> a_ID ` set (result_allocs r)" "AllocByID s (a_ID a) = Some a"
    then show ?thesis using old live_on(1) [OF appliesD(7) [OF app], of a y] on ly l(2) by simp
  next
    fix q assume q: "q \<in> set (concat (map snd (entries (pr_NodeAllocation r))))" "a_ID q = a_ID a" "a_NodeID a = a_NodeID q" "usage a = usage q"
    note p = applied_placements [OF app app app app app q(1)]
    then have "a_NodeID q = y" using on q(3) by auto
    then show ?thesis using p q new by auto
  qed
qed

lemma unplaced_fits:
  assumes app: "applies gets snap plan r i now s s'" and y: "NodeByID s y = Some node"
    and fit: "fits_spec node (AllocsByNodeTerminal s y False)" and n: "map_of (entries (pr_NodeAllocation r)) y = None"
  shows "fits_spec node (AllocsByNodeTerminal s' y False)"
proof (rule fits_matched [OF fit])
  note st = appliesD(7) [OF app]
  show "\<forall>b \<in> set (AllocsByNodeTerminal s y False). sane b"
    using live_on(1) [OF st] st unfolding cluster_ok_def by blast
  show "list_all (\<lambda>n. 0 \<le> nr_MBits n) (claimed_networks node [])" using st y unfolding cluster_ok_def node_ok_def by blast
  show "distinct (map a_ID (AllocsByNodeTerminal s' y False))" by (rule live_on(2) [OF applied_cluster_ok [OF app]])
  show "\<exists>b \<in> set (AllocsByNodeTerminal s y False). a_ID b = a_ID a \<and> usage b = usage a"
    if "a \<in> set (AllocsByNodeTerminal s' y False)" for a
    using applied_on_node [OF app y that] n by metis
qed

lemma placed_fits:
  assumes app: "applies gets snap plan r i now s s'" and y: "NodeByID s y = Some node"
    and m: "map_of (entries (pr_NodeAllocation r)) y = Some l"
  shows "fits_spec node (AllocsByNodeTerminal s' y False)"
proof (rule fits_matched [of _ "proposed snap plan y"])
  note ver = appliesD(1) [OF app] and snap = appliesD(5) [OF app]
  have w: "l = amap_get [] (pl_NodeAllocation plan) y" "l \<noteq> []" "evaluateNodePlan snap plan y (gets y) = Some (Inr True)"
    "amap_get [] (entries (pr_NodeUpdate r)) y = amap_get [] (pl_NodeUpdate plan) y"
    using ver m unfolding verified_def whole_nodes_def by blast+
  have pl: "map_of (pl_NodeAllocation plan) y = Some l" using w(1,2) by (auto simp: go_get_def split: option.splits)
  show "fits_spec node (proposed snap plan y)"
    using evaluateNodePlan_fits [OF w(3)] w(1,2) appliesD(3,4) [OF app] y applied_nodes(2) [OF app, of y]
    unfolding in_range_def by auto
  have "\<forall>b \<in> set (AllocsByNodeTerminal snap y False). sane b"
    using live_on(1) [OF snap] snap unfolding cluster_ok_def by blast
  moreover have "\<forall>b \<in> set l. sane b" using appliesD(2) [OF app] pl unfolding plan_ok_def by blast
  ultimately show "\<forall>b \<in> set (proposed snap plan y). sane b" unfolding proposed_def Let_def w(1) [symmetric] by auto
  show "list_all (\<lambda>n. 0 \<le> nr_MBits n) (claimed_networks node [])"
    using appliesD(7) [OF app] y unfolding cluster_ok_def node_ok_def by blast
  show "distinct (map a_ID (AllocsByNodeTerminal s' y False))" by (rule live_on(2) [OF applied_cluster_ok [OF app]])
  have removed: "a_ID ` set (amap_get [] (pl_NodeUpdate plan) y @ l) \<subseteq> a_ID ` set (result_allocs r)"
    using map_of_SomeD [OF m] w(4) by (force simp: go_get_def split: option.splits dest: map_of_SomeD)
  fix a assume a: "a \<in> set (AllocsByNodeTerminal s' y False)"
  show "\<exists>b \<in> set (proposed snap plan y). a_ID b = a_ID a \<and> usage b = usage a"
  proof (rule applied_on_node [OF app y a])
    assume o: "a_ID a \<notin> a_ID ` set (result_allocs r)" "a \<in> set (AllocsByNodeTerminal s y False)"
    then have l: "AllocByID s (a_ID a) = Some a" "lower (a_NodeID a) = lower y" "\<not> alloc_TerminalStatus a"
      using live_on(1) [OF appliesD(7) [OF app]] by blast+
    obtain b where b: "AllocByID snap (a_ID a) = Some b" "follows b a" by (rule follows_storeD [OF appliesD(6) [OF app] l(1)])
    have id: "a_ID b = a_ID a" using snap b(1) unfolding cluster_ok_def by blast
    have "b \<in> set (AllocsByNodeTerminal snap y False)"
      using live_on(1) [OF snap, of b y] b id l(2) live_follows [OF b(2) l(3)] by (simp add: follows_def)
    then have "b \<in> set (proposed snap plan y)" using o(1) removed id w(1) unfolding proposed_def Let_def by auto
    then show ?thesis using id b(2) by (auto simp: follows_def)
  next
    fix q assume "q \<in> set (amap_get [] (pl_NodeAllocation plan) y)" "a_ID q = a_ID a" "usage q = usage a"
    then show ?thesis by (auto simp: proposed_def Let_def)
  qed
qed

lemma applied_fits: "applies gets snap plan r i now s s' \<Longrightarrow> fits_all s \<Longrightarrow> fits_all s'"
  unfolding fits_all_def applied_nodes(1) using unplaced_fits placed_fits by (metis not_None_eq)

lemma follows_fits:
  assumes "follows_store s t" "cluster_ok s" "cluster_ok t" "fits_all s"
  shows "fits_all t"
  unfolding fits_all_def
proof (intro allI impI)
  fix y node assume "NodeByID t y = Some node"
  then have y: "NodeByID s y = Some node" using assms(1) by (simp add: NodeByID_def follows_store_def)
  have fit: "fits_spec node (AllocsByNodeTerminal s y False)" using assms(4) y unfolding fits_all_def by blast
  show "fits_spec node (AllocsByNodeTerminal t y False)"
  proof (rule fits_matched [OF fit])
    show "\<forall>b \<in> set (AllocsByNodeTerminal s y False). sane b"
      using live_on(1) [OF assms(2)] assms(2) unfolding cluster_ok_def by blast
    show "list_all (\<lambda>n. 0 \<le> nr_MBits n) (claimed_networks node [])" using assms(2) y unfolding cluster_ok_def node_ok_def by blast
    show "distinct (map a_ID (AllocsByNodeTerminal t y False))" by (rule live_on(2) [OF assms(3)])
    fix a assume "a \<in> set (AllocsByNodeTerminal t y False)"
    then have a: "AllocByID t (a_ID a) = Some a" "lower (a_NodeID a) = lower y" "\<not> alloc_TerminalStatus a"
      using live_on(1) [OF assms(3)] by blast+
    obtain b where b: "AllocByID s (a_ID a) = Some b" "follows b a" by (rule follows_storeD [OF assms(1) a(1)])
    have id: "a_ID b = a_ID a" using assms(2) b(1) unfolding cluster_ok_def by blast
    have "b \<in> set (AllocsByNodeTerminal s y False)"
      using live_on(1) [OF assms(2), of b y] b id a(2) live_follows [OF b(2) a(3)] by (simp add: follows_def)
    then show "\<exists>b \<in> set (AllocsByNodeTerminal s y False). a_ID b = a_ID a \<and> usage b = usage a"
      using id b(2) by (auto simp: follows_def)
  qed
qed

section \<open>The apply loop\<close>

definition start_applier :: "state_store \<Rightarrow> applier" where
  "start_applier s = \<lparr>pa_fsm = s, pa_log = [], pa_waitCh = NilCh, pa_snap = None, pa_phase = Waiting, pa_replies = []\<rparr>"

text \<open>
  The steps of the loop, of Raft and of the clients. The flag says that an application failed: in
  Raft, in the replicated state, or on the optimistic snapshot, which leaves a request that nobody waits for. Of
  the other writers of the replicated state only the clients that end allocations are steps: a node that is
  registered again with fewer resources, or drained, between verification and application is not.
\<close>

inductive plan_step :: "bool \<Rightarrow> applier \<Rightarrow> applier \<Rightarrow> bool" where
  verify: "pa_phase w = Waiting \<Longrightarrow> planApply_verify gets order plan w = Some w' \<Longrightarrow> mset order = mset (node_id_list plan) \<Longrightarrow>
     \<forall>x. pool_ok (gets x) \<Longrightarrow> plan_ok plan \<Longrightarrow> in_range (snd (current_snapshot w)) plan \<Longrightarrow> plan_step False w w'"
| dispatch: "pa_phase w = Verified plan result \<Longrightarrow> pa_waitCh w \<noteq> OpenCh \<Longrightarrow> w' = planApply_dispatch nextIdx now submitted w \<Longrightarrow>
     plan_step (list_ex (\<lambda>(_, waiter). waiter = None) (pa_log w')) w w'"
| decide: "pa_log w = (req, waiter) # log \<Longrightarrow>
     plan_step (\<not> ok \<or> fst (UpsertPlanResults index req (pa_fsm w)) \<noteq> None) w (raft_decides index ok w)"
| client: "follows_store (pa_fsm w) s \<Longrightarrow> cluster_ok s \<Longrightarrow> plan_step False w (w\<lparr>pa_fsm := s\<rparr>)"

definition certified :: "state_store \<Rightarrow> plan \<Rightarrow> plan_result \<Rightarrow> bool" where
  "certified v p r \<longleftrightarrow> cluster_ok v \<and> plan_ok p \<and> in_range v p \<and>
     (\<exists>gets. (\<forall>x. pool_ok (gets x)) \<and> verified (\<lambda>x. evaluateNodePlan v p x (gets x)) p r)"

lemma certified_applies:
  "certified v p r \<Longrightarrow> follows_store v s \<Longrightarrow> cluster_ok s \<Longrightarrow> UpsertPlanResults i (plan_request now p r) s = (None, s') \<Longrightarrow>
   \<exists>gets. applies gets v p r i now s s'"
  unfolding certified_def applies_def by blast

text \<open>
  The invariant. With nothing in flight, a verified result was certified on a state that the
  replicated one follows. With a request in flight, the optimistic snapshot is the result of that request,
  and the next result is certified on it.
\<close>

definition settled :: "applier \<Rightarrow> bool" where
  "settled w \<longleftrightarrow> pa_log w = [] \<and> pa_waitCh w \<noteq> OpenCh \<and>
     (\<forall>p r. pa_phase w = Verified p r \<longrightarrow>
        (\<exists>v. certified v p r \<and> follows_store v (pa_fsm w) \<and> (pa_waitCh w = NilCh \<longrightarrow> pa_snap w = Some v)))"

definition in_flight :: "applier \<Rightarrow> bool" where
  "in_flight w \<longleftrightarrow> pa_waitCh w = OpenCh \<and>
     (\<exists>now p r v i s0 s1. pa_log w = [(plan_request now p r, Some (p, r))] \<and> certified v p r \<and> follows_store v (pa_fsm w) \<and>
        follows_store s0 (pa_fsm w) \<and> UpsertPlanResults i (plan_request now p r) s0 = (None, s1) \<and>
        pa_snap w = Some s1 \<and> cluster_ok s1 \<and> (\<forall>p2 r2. pa_phase w = Verified p2 r2 \<longrightarrow> certified s1 p2 r2))"

definition applier_inv :: "applier \<Rightarrow> bool" where
  "applier_inv w \<longleftrightarrow> cluster_ok (pa_fsm w) \<and> fits_all (pa_fsm w) \<and> (settled w \<or> in_flight w)"

lemma verify_result:
  assumes "planApply_verify gets order plan w = Some w'" "current_snapshot w = (c, v)"
  shows "pa_fsm w' = pa_fsm w" "pa_log w' = pa_log w" "pa_waitCh w' = c" "pa_snap w' = Some v"
    "pa_phase w' = Waiting \<or> (\<exists>r. pa_phase w' = Verified plan r \<and> evaluatePlan gets order v plan = Some (r, []))"
proof -
  let ?w1 = "w\<lparr>pa_waitCh := c, pa_snap := Some v\<rparr>"
  obtain r errs where r: "evaluatePlan gets order v plan = Some (r, errs)"
    and w': "w' = (if errs \<noteq> [] then pa_respond plan (NotValid errs) ?w1
      else if result_IsNoOp r then pa_respond plan (Applied r) ?w1 else ?w1\<lparr>pa_phase := Verified plan r\<rparr>)"
    using assms by (auto simp: planApply_verify_def Let_def simp del: split_paired_Ex)
  show "pa_fsm w' = pa_fsm w" "pa_log w' = pa_log w" "pa_waitCh w' = c" "pa_snap w' = Some v"
    unfolding w' by (simp_all add: pa_respond_def)
  show "pa_phase w' = Waiting \<or> (\<exists>r. pa_phase w' = Verified plan r \<and> evaluatePlan gets order v plan = Some (r, []))"
    unfolding w' r by (simp add: pa_respond_def)
qed

lemma verify_keeps:
  assumes "applier_inv w" "pa_phase w = Waiting" "planApply_verify gets order plan w = Some w'"
    "\<forall>x. pool_ok (gets x)" "plan_ok plan" "in_range (snd (current_snapshot w)) plan"
  shows "applier_inv w'"
proof -
  obtain c v where cv: "current_snapshot w = (c, v)" by (cases "current_snapshot w")
  note vr = verify_result [OF assms(3) cv]
  have cert: "certified v p r" if "pa_phase w' = Verified p r" "cluster_ok v" for p r
    using vr(5) that assms(4-6) evaluatePlan_verified [of gets order v plan] cv by (auto simp: certified_def)
  have "settled w \<or> in_flight w" using assms(1) by (simp add: applier_inv_def)
  then have "settled w' \<or> in_flight w'"
  proof
    assume s: "settled w"
    then have "c = NilCh" "v = pa_fsm w"
      using cv by (cases "pa_waitCh w"; auto simp: settled_def current_snapshot_def Let_def split: option.splits)+
    then have "settled w'" using s vr cert assms(1) by (auto simp: settled_def applier_inv_def)
    then show ?thesis ..
  next
    assume f: "in_flight w"
    then have c: "c = OpenCh" and v: "pa_snap w = Some v" "cluster_ok v"
      using cv by (auto simp: in_flight_def current_snapshot_def Let_def)
    from v(2) cert have "\<forall>p2 r2. pa_phase w' = Verified p2 r2 \<longrightarrow> certified v p2 r2" by blast
    with f have "in_flight w'" unfolding in_flight_def vr(1-4) c v(1) option.inject by blast
    then show ?thesis ..
  qed
  then show ?thesis using assms(1) vr(1) by (simp add: applier_inv_def)
qed

lemma dispatch_keeps:
  assumes "applier_inv w" "pa_phase w = Verified p r" "pa_waitCh w \<noteq> OpenCh"
    "w' = planApply_dispatch n now sub w" "\<not> list_ex (\<lambda>(_, waiter). waiter = None) (pa_log w')"
  shows "applier_inv w'"
proof -
  let ?req = "plan_request now p r"
  define snap where "snap = (case pa_snap w of None \<Rightarrow> pa_fsm w | Some s \<Rightarrow> if pa_waitCh w = NilCh then s else pa_fsm w)"
  have set: "settled w" and ok: "cluster_ok (pa_fsm w)" "fits_all (pa_fsm w)"
    using assms(1,3) by (auto simp: applier_inv_def in_flight_def)
  then obtain v where v: "certified v p r" "follows_store v (pa_fsm w)" "pa_waitCh w = NilCh \<Longrightarrow> pa_snap w = Some v"
    using assms(2) unfolding settled_def by blast
  have snap: "follows_store v snap" "cluster_ok snap" "follows_store snap (pa_fsm w)"
    using v ok by (auto simp: snap_def certified_def split: option.splits)
  have fsm: "pa_fsm w' = pa_fsm w"
    using assms(2-4) by (auto simp: planApply_dispatch_def pa_respond_def Let_def split: sum.splits prod.splits option.splits)
  have "settled w' \<or> in_flight w'"
  proof (cases "sub \<and> fst (UpsertPlanResults n ?req snap) = None")
    case True
    then obtain s1 where s1: "UpsertPlanResults n ?req snap = (None, s1)" by (metis prod.collapse)
    have "cluster_ok s1" using applied_cluster_ok certified_applies [OF v(1) snap(1,2) s1] by blast
    moreover have "w' = w\<lparr>pa_log := [(?req, Some (p, r))], pa_snap := Some s1, pa_waitCh := OpenCh, pa_phase := Waiting\<rparr>"
      using assms(2-4) set s1 True by (simp add: planApply_dispatch_def applyPlan_def Let_def snap_def [symmetric] settled_def)
    ultimately have "in_flight w'" using v(1,2) snap(3) s1 unfolding in_flight_def by auto
    then show ?thesis ..
  next
    case False
    have "\<not> sub"
    proof
      assume s: sub
      with False obtain e s1 where "UpsertPlanResults n ?req snap = (Some e, s1)" by (metis not_None_eq prod.collapse)
      with s assms(2-5) show False
        by (simp add: planApply_dispatch_def applyPlan_def pa_respond_def Let_def snap_def [symmetric])
    qed
    then have "settled w'"
      using assms(2-4) set by (simp add: planApply_dispatch_def applyPlan_def pa_respond_def Let_def snap_def [symmetric] settled_def)
    then show ?thesis ..
  qed
  then show ?thesis using ok fsm by (simp add: applier_inv_def)
qed

lemma decide_keeps:
  assumes "applier_inv w" "pa_log w = (req, waiter) # log" "fst (UpsertPlanResults i req (pa_fsm w)) = None"
  shows "applier_inv (raft_decides i True w)"
proof -
  have ok: "cluster_ok (pa_fsm w)" "fits_all (pa_fsm w)" and "in_flight w"
    using assms(1,2) by (auto simp: applier_inv_def settled_def)
  then obtain now p r v j s0 s1 where f: "pa_log w = [(plan_request now p r, Some (p, r))]" "certified v p r" "follows_store v (pa_fsm w)"
    "follows_store s0 (pa_fsm w)" "UpsertPlanResults j (plan_request now p r) s0 = (None, s1)" "pa_snap w = Some s1"
    "cluster_ok s1" "\<forall>p2 r2. pa_phase w = Verified p2 r2 \<longrightarrow> certified s1 p2 r2"
    unfolding in_flight_def by blast
  then have eq: "req = plan_request now p r" "waiter = Some (p, r)" "log = []" using assms(2) by simp_all
  then obtain s' where s': "UpsertPlanResults i (plan_request now p r) (pa_fsm w) = (None, s')"
    using assms(3) by (metis prod.collapse)
  obtain gets where app: "applies gets v p r i now (pa_fsm w) s'" using certified_applies [OF f(2,3) ok(1) s'] by blast
  have fol: "follows_store s1 s'" by (rule UpsertPlanResults_follows [OF f(4,5) s'])
  have w': "pa_fsm (raft_decides i True w) = s'" "pa_log (raft_decides i True w) = []" "pa_waitCh (raft_decides i True w) = ClosedCh"
    "pa_phase (raft_decides i True w) = pa_phase w"
    using assms(2) eq s' by (simp_all add: raft_decides_def asyncPlanWait_def Let_def)
  have "settled (raft_decides i True w)" unfolding settled_def w' using f(8) fol by auto
  then show ?thesis using applied_cluster_ok [OF app] applied_fits [OF app ok(2)] by (simp add: applier_inv_def w')
qed

lemma client_keeps:
  assumes "applier_inv w" "follows_store (pa_fsm w) s" "cluster_ok s"
  shows "applier_inv (w\<lparr>pa_fsm := s\<rparr>)"
proof -
  have "settled (w\<lparr>pa_fsm := s\<rparr>)" if "settled w"
    using that follows_store_trans [OF _ assms(2)] unfolding settled_def by fastforce
  moreover have "in_flight (w\<lparr>pa_fsm := s\<rparr>)" if f: "in_flight w"
  proof -
    have up: "follows_store u (pa_fsm w) \<Longrightarrow> follows_store u s" for u by (rule follows_store_trans [OF _ assms(2)])
    from f show ?thesis unfolding in_flight_def using up by simp blast
  qed
  ultimately show ?thesis
    using assms(1,3) follows_fits [OF assms(2)] by (auto simp: applier_inv_def)
qed

lemma plan_step_keeps: "plan_step f w w' \<Longrightarrow> \<not> f \<Longrightarrow> applier_inv w \<Longrightarrow> applier_inv w'"
proof (induction rule: plan_step.induct)
  case (verify w gets order plan w')
  from verify_keeps [OF verify.prems(2) verify.hyps(1,2,4-6)] show ?case .
next
  case (dispatch w plan result w' n now sub)
  from dispatch_keeps [OF dispatch.prems(2) dispatch.hyps dispatch.prems(1)] show ?case .
next
  case (decide w req waiter log ok i)
  then show ?case using decide_keeps by auto
next
  case (client w s)
  from client_keeps [OF client.prems(2) client.hyps] show ?case .
qed

section \<open>Properties\<close>

text \<open>
  C27: the verdict on a node. When the sums stay in 64 bits and every allocation has resources, then
  \<open>evaluateNodePlan\<close> answers yes exactly when the plan places nothing on the node, or the node is known,
  ready, not draining, and has room for what it runs without the planned evictions and updates
  together with what the plan places.
\<close>

theorem evaluateNodePlan_correct:
  assumes "pool_ok gets" "\<forall>node. NodeByID snap x = Some node \<longrightarrow> no_overflow node (proposed snap plan x)"
    "list_all (\<lambda>a. alloc_deltas a \<noteq> None) (proposed snap plan x)"
  shows "evaluateNodePlan snap plan x gets = Some (Inr (amap_get [] (pl_NodeAllocation plan) x = [] \<or>
    (\<exists>node. NodeByID snap x = Some node \<and> node_Ready node \<and> fits_spec node (proposed snap plan x))))"
  using assms by (rule evaluateNodePlan_decides)

text \<open>
  C25: a verified plan does not overcommit a node. What \<open>evaluatePlan\<close> lets through, whatever the
  order in which the workers answer, leaves every node within its CPU, memory, disk, IOPS, ports
  and bandwidth when the store applies it to the state that was verified or to a later state in
  which allocations have ended, provided the plan is well formed and the sums stay in 64 bits.
\<close>

theorem plan_never_overcommits:
  assumes "evaluatePlan gets order snap plan = Some (r, [])" "plan_ok plan" "in_range snap plan" "\<forall>x. pool_ok (gets x)"
    "cluster_ok snap" "follows_store snap s" "cluster_ok s" "fits_all s"
    "UpsertPlanResults i (plan_request now plan r) s = (None, s')"
  shows "fits_all s' \<and> cluster_ok s'"
proof -
  have "applies gets snap plan r i now s s'"
    using assms evaluatePlan_verified [OF assms(1)] by (simp add: applies_def)
  then show ?thesis using applied_fits applied_cluster_ok assms(8) by blast
qed

text \<open>
  C26: the apply loop keeps the cluster within its resources. Starting from a state in which every node
  fits, every run of the loop, of Raft and of clients that end allocations keeps every node
  within its resources, with the next plan verified while the last one is in flight, as long as no application fails.
\<close>

theorem planApply_never_overcommits:
  assumes "(plan_step False)\<^sup>*\<^sup>* (start_applier s) w" "cluster_ok s" "fits_all s"
  shows "fits_all (pa_fsm w) \<and> cluster_ok (pa_fsm w)"
proof -
  have "applier_inv (start_applier s)" using assms(2,3) by (simp add: applier_inv_def settled_def start_applier_def)
  with assms(1) have "applier_inv w" by (induction rule: rtranclp_induct) (auto intro: plan_step_keeps)
  then show ?thesis by (simp add: applier_inv_def)
qed

end
