(* ===== verification/Plan_Apply_Runs.thy ===== *)
theory Plan_Apply_Runs
  imports Plan_Apply_Safe
begin

text \<open>
  Concrete runs of the plan applier: the safety theorems at work, and the run in which a failed
  application leaves a node overcommitted.
\<close>

section \<open>When an application fails\<close>

text \<open>A node of 1000 MHz that runs one allocation; a plan that stops it; a plan that places another.\<close>

definition run_alloc :: "string \<Rightarrow> int \<Rightarrow> allocation" where
  "run_alloc x port = (ex_alloc x 600 port)\<lparr>a_JobID := ''j'', a_Job := Some (zero_job\<lparr>j_ID := ''j''\<rparr>),
     a_DesiredStatus := AllocDesiredStatusRun, a_ClientStatus := AllocClientStatusPending\<rparr>"

definition run_store :: state_store where
  "run_store = NewStateStore\<lparr>ss_nodes := [(''n1'', ex_node)], ss_allocs := [(''a'', run_alloc ''a'' 80)],
     ss_index := [(''nodes'', 3), (''allocs'', 4)]\<rparr>"

definition stop_plan :: plan where
  "stop_plan = AppendUpdate zero_plan (run_alloc ''a'' 80) AllocDesiredStatusStop '''' ''''"

definition place_plan :: plan where
  "place_plan = AppendAlloc zero_plan (run_alloc ''b'' 81)"

definition stop_result :: plan_result where
  "stop_result = (new_result stop_plan)\<lparr>pr_NodeUpdate := Some (pl_NodeUpdate stop_plan)\<rparr>"

definition place_result :: plan_result where
  "place_result = (new_result place_plan)\<lparr>pr_NodeAllocation := Some (pl_NodeAllocation place_plan)\<rparr>"

lemma stop_evaluates: "evaluatePlan (\<lambda>_. []) [''n1''] s stop_plan = Some (stop_result, [])"
  by (simp add: evaluatePlan_def evaluateNodePlan_def handleResult_def put_nonempty_def finish_plan_def new_result_def
      stop_plan_def stop_result_def AppendUpdate_def zero_plan_def Let_def go_get_def run_alloc_def ex_alloc_def)

lemma ex_single:
  "demand f ex_node [] = opt_dim f None"
  "NodeByID run_store ''n1'' = Some ex_node" "node_Ready ex_node" "lower ''n1'' = ''n1''"
  by (simp_all add: demand_def deltas_of_def ex_node_def zero_node_def run_store_def NodeByID_def node_Ready_def NodeStatusReady_def lower_def)

lemma run_alloc_facts:
  "asks r_CPU (run_alloc x p) = 600" "asks r_MemoryMB (run_alloc x p) = 100" "asks r_DiskMB (run_alloc x p) = 0" "asks r_IOPS (run_alloc x p) = 0"
  "alloc_networks (run_alloc x p) = [zero_network\<lparr>nr_Device := ''eth0'', nr_IP := ''10.0.0.1'', nr_MBits := 10,
     nr_ReservedPorts := [\<lparr>p_Label = ''p'', p_Value = p\<rparr>]\<rparr>]"
  "alloc_deltas (run_alloc x p) \<noteq> None" "\<not> alloc_TerminalStatus (run_alloc x p)" "sane (run_alloc x p)"
  "a_ID (run_alloc x p) = x" "a_NodeID (run_alloc x p) = ''n1''"
  by (simp_all add: asks_def deltas_of_def alloc_deltas_def opt_dim_def alloc_networks_def run_alloc_def ex_alloc_def sane_def dimensions_def
      zero_alloc_def zero_resources_def zero_network_def alloc_TerminalStatus_def AllocDesiredStatusRun_def AllocDesiredStatusStop_def
      AllocDesiredStatusEvict_def AllocClientStatusPending_def AllocClientStatusComplete_def AllocClientStatusFailed_def AllocClientStatusLost_def)

lemma one_fits:
  assumes "valid_port p"
  shows "fits_spec ex_node [run_alloc x p]" "no_overflow ex_node [run_alloc x p]"
proof -
  have r: "n_Reserved ex_node = None" "r_CPU (n_Resources ex_node) = 1000" "r_MemoryMB (n_Resources ex_node) = 1000"
    "r_DiskMB (n_Resources ex_node) = 0" "r_IOPS (n_Resources ex_node) = 0"
    by (simp_all add: ex_node_def zero_node_def zero_resources_def)
  have d: "demand r_CPU ex_node [run_alloc x p] = 600" "demand r_MemoryMB ex_node [run_alloc x p] = 100"
    "demand r_DiskMB ex_node [run_alloc x p] = 0" "demand r_IOPS ex_node [run_alloc x p] = 0"
    by (simp_all add: demand_asks r opt_dim_def run_alloc_facts)
  have n: "claimed_networks ex_node [run_alloc x p] = alloc_networks (run_alloc x p)" by (simp add: claimed_networks_def r)
  have p: "ports_on ip (claimed_networks ex_node [run_alloc x p]) = (if ip = ''10.0.0.1'' then [p] else [])" for ip
    unfolding n run_alloc_facts by (simp add: ports_on_def port_values_def zero_network_def)
  have b: "bandwidth_on ''eth0'' (claimed_networks ex_node [run_alloc x p]) = 10" "node_bandwidth ex_node ''eth0'' = 100"
    unfolding n run_alloc_facts
    by (simp_all add: bandwidth_on_def node_bandwidth_def ex_node_def zero_network_def zero_resources_def go_get_def)
  have dev: "\<forall>m \<in> set (claimed_networks ex_node [run_alloc x p]). nr_Device m = ''eth0''" unfolding n run_alloc_facts by simp
  show "fits_spec ex_node [run_alloc x p]"
    using dev assms by (auto simp: fits_spec_def dimensions_def d r p b list_all_iff collides_def)
  show "no_overflow ex_node [run_alloc x p]"
    using dev by (auto simp: no_overflow_def dimensions_def d b list_all_iff int64_def)
qed

definition stopped_store :: state_store where
  "stopped_store = snd (UpsertPlanResults 5 (plan_request 9 stop_plan stop_result) run_store)"

lemma stop_applies: "UpsertPlanResults 5 (plan_request 9 stop_plan stop_result) run_store = (None, stopped_store)"
proof -
  have "fst (UpsertPlanResults 5 (plan_request 9 stop_plan stop_result) run_store) = None" by code_simp
  then show ?thesis unfolding stopped_store_def by (metis prod.collapse)
qed

lemma port_ok: "valid_port 80" "valid_port 81"
  by (simp_all add: valid_port_def maxValidPort_def)

lemma node_n1: "node_ok ''n1'' ex_node"
  by (simp add: node_ok_def ex_single dimensions_def opt_dim_def claimed_networks_def ex_node_def zero_node_def zero_resources_def)

lemma run_store_nodes: "NodeByID run_store x = Some node \<longleftrightarrow> x = ''n1'' \<and> node = ex_node"
  by (auto simp: NodeByID_def run_store_def)

lemma run_store_ok: "cluster_ok run_store" "fits_all run_store"
proof -
  have a: "AllocByID run_store x = Some a \<longleftrightarrow> x = ''a'' \<and> a = run_alloc ''a'' 80" for x a
    by (auto simp: AllocByID_def run_store_def)
  show "cluster_ok run_store" unfolding cluster_ok_def a run_store_nodes
    using node_n1 run_alloc_facts(8,9) by (auto simp: run_store_def)
  have "AllocsByNodeTerminal run_store ''n1'' False = [run_alloc ''a'' 80]"
    by (simp add: AllocsByNodeTerminal_def rows_def run_store_def run_alloc_facts)
  then show "fits_all run_store" unfolding fits_all_def run_store_nodes using one_fits(1) [OF port_ok(1)] by auto
qed

lemma place_plan_fields: "pl_NodeUpdate place_plan = []" "pl_NodeAllocation place_plan = [(''n1'', [run_alloc ''b'' 81])]"
  by (simp_all add: place_plan_def AppendAlloc_def zero_plan_def run_alloc_facts go_get_def)

lemma plans_ok: "plan_ok stop_plan" "plan_ok place_plan"
proof -
  show "plan_ok place_plan" by (auto simp: plan_ok_def place_plan_fields run_alloc_facts ex_single)
  show "plan_ok stop_plan"
    by (auto simp: plan_ok_def stop_plan_def AppendUpdate_def zero_plan_def go_get_def Let_def)
qed

lemma stopped_facts: "NodeByID stopped_store x = NodeByID run_store x" "AllocsByNodeTerminal stopped_store ''n1'' False = []"
proof -
  show "NodeByID stopped_store x = NodeByID run_store x" using UpsertPlanResults_rows(1) [OF stop_applies] by (simp add: NodeByID_def)
  show "AllocsByNodeTerminal stopped_store ''n1'' False = []" unfolding stopped_store_def by code_simp
qed

lemma stopped_proposed: "proposed stopped_store place_plan ''n1'' = [run_alloc ''b'' 81]"
  by (simp add: proposed_def place_plan_fields stopped_facts Let_def go_get_def)

lemma in_range_examples: "in_range run_store stop_plan" "in_range stopped_store place_plan"
proof -
  have "AllocsByNodeTerminal run_store ''n1'' False = [run_alloc ''a'' 80]"
    by (simp add: AllocsByNodeTerminal_def rows_def run_store_def run_alloc_facts)
  moreover have "a_ID (run_alloc ''a'' 80) = ''a''" by (simp add: run_alloc_facts)
  ultimately have "proposed run_store stop_plan ''n1'' = []"
    by (simp add: proposed_def stop_plan_def AppendUpdate_def zero_plan_def Let_def go_get_def run_alloc_facts)
  moreover have "n_Reserved ex_node = None" by (simp add: ex_node_def zero_node_def)
  ultimately show "in_range run_store stop_plan"
    by (auto simp: in_range_def run_store_nodes no_overflow_def dimensions_def ex_single opt_dim_def int64_def claimed_networks_def)
  show "in_range stopped_store place_plan"
    unfolding in_range_def stopped_facts run_store_nodes using one_fits(2) [OF port_ok(2)] stopped_proposed by auto
qed

lemma place_evaluates: "evaluatePlan (\<lambda>_. []) [''n1''] stopped_store place_plan = Some (place_result, [])"
proof -
  have "evaluateNodePlan stopped_store place_plan ''n1'' [] = Some (Inr True)"
    by (subst evaluateNodePlan_decides)
      (use one_fits [OF port_ok(2)] run_alloc_facts(6) [of "''b''" 81] in \<open>auto simp: pool_ok_def stopped_proposed stopped_facts run_store_nodes run_alloc_facts ex_single simp del: not_None_eq\<close>)
  then show ?thesis
    by (simp add: evaluatePlan_def handleResult_def put_nonempty_def finish_plan_def new_result_def place_plan_fields place_result_def go_get_def Let_def)
qed

text \<open>The run: the placement is verified while the stop is in flight, the stop fails, the placement is applied.\<close>

definition run1 :: applier where
  "run1 = (start_applier run_store)\<lparr>pa_snap := Some run_store, pa_phase := Verified stop_plan stop_result\<rparr>"

definition run2 :: applier where "run2 = planApply_dispatch 5 9 True run1"

definition run3 :: applier where "run3 = run2\<lparr>pa_phase := Verified place_plan place_result\<rparr>"

definition run4 :: applier where "run4 = raft_decides 5 False run3"

definition run5 :: applier where "run5 = planApply_dispatch 6 9 True run4"

definition run6 :: applier where "run6 = raft_decides 6 True run5"

lemma run_verdicts:
  "planApply_verify (\<lambda>_. []) [''n1''] stop_plan (start_applier run_store) = Some run1"
  "planApply_verify (\<lambda>_. []) [''n1''] place_plan run2 = Some run3"
proof -
  have s: "\<not> result_IsNoOp stop_result" "\<not> result_IsNoOp place_result"
    by (simp_all add: result_IsNoOp_def stop_result_def place_result_def place_plan_fields stop_plan_def AppendUpdate_def Let_def)
  show "planApply_verify (\<lambda>_. []) [''n1''] stop_plan (start_applier run_store) = Some run1"
    using s by (simp add: planApply_verify_def current_snapshot_def start_applier_def stop_evaluates run1_def)
  have 2: "run2 = run1\<lparr>pa_log := [(plan_request 9 stop_plan stop_result, Some (stop_plan, stop_result))],
      pa_snap := Some stopped_store, pa_waitCh := OpenCh, pa_phase := Waiting\<rparr>"
    by (simp add: run2_def run1_def planApply_dispatch_def applyPlan_def start_applier_def Let_def stop_applies)
  show "planApply_verify (\<lambda>_. []) [''n1''] place_plan run2 = Some run3"
    using s by (simp add: planApply_verify_def current_snapshot_def 2 place_evaluates run3_def)
qed

lemma run_steps:
  "plan_step False (start_applier run_store) run1" "plan_step False run1 run2" "plan_step False run2 run3"
  "\<exists>f. plan_step f run3 run4" "\<exists>f. plan_step f run4 run5" "\<exists>f. plan_step f run5 run6"
proof -
  have ids: "node_id_list stop_plan = [''n1'']" "node_id_list place_plan = [''n1'']" by code_simp+
  have 2: "run2 = run1\<lparr>pa_log := [(plan_request 9 stop_plan stop_result, Some (stop_plan, stop_result))],
      pa_snap := Some stopped_store, pa_waitCh := OpenCh, pa_phase := Waiting\<rparr>"
    by (simp add: run2_def run1_def planApply_dispatch_def applyPlan_def start_applier_def Let_def stop_applies)
  show "plan_step False (start_applier run_store) run1"
    by (rule plan_step.verify [OF _ run_verdicts(1)])
      (simp_all add: start_applier_def ids pool_ok_def plans_ok current_snapshot_def in_range_examples)
  have "plan_step (list_ex (\<lambda>(_, waiter). waiter = None) (pa_log run2)) run1 run2"
    by (rule plan_step.dispatch [of _ stop_plan stop_result _ 5 9 True]) (simp_all add: run1_def start_applier_def run2_def)
  then show "plan_step False run1 run2" by (simp add: 2)
  show "plan_step False run2 run3"
    by (rule plan_step.verify [OF _ run_verdicts(2)]) (simp_all add: 2 ids pool_ok_def plans_ok current_snapshot_def in_range_examples)
  show "\<exists>f. plan_step f run3 run4" unfolding run4_def
    by (intro exI) (rule plan_step.decide [of _ "plan_request 9 stop_plan stop_result" "Some (stop_plan, stop_result)" "[]"], simp add: run3_def 2)
  have 4: "pa_phase run4 = Verified place_plan place_result" "pa_waitCh run4 = ClosedCh"
    by (simp_all add: run4_def run3_def 2 raft_decides_def asyncPlanWait_def Let_def)
  show "\<exists>f. plan_step f run4 run5" by (intro exI) (rule plan_step.dispatch [OF 4(1) _ run5_def], simp add: 4)
  have "pa_log run5 = (plan_request 9 place_plan place_result, Some (place_plan, place_result)) # []" by code_simp
  then show "\<exists>f. plan_step f run5 run6" unfolding run6_def by (intro exI) (rule plan_step.decide)
qed

text \<open>
  C28: the failure of an application goes unnoticed by the plan behind it. Suppose Raft has one request in
  flight and the next plan was verified meanwhile, against the optimistic snapshot, on which the request is already
  applied. If Raft then fails the request, the loop does not verify the next plan again: once dispatched and
  committed it is applied to the state without the request and reported as applied. In the witness the failed request
  stops an allocation, every node fits up to its failure, and the application of the next plan overcommits the node.
\<close>

theorem failed_application_unnoticed:
  assumes "pa_log w = [(req, Some (p1, r1))]" "pa_phase w = Verified p2 r2"
    "UpsertPlanResults k (plan_request now p2 r2) (pa_fsm w) = (None, s')"
  shows "(p1, RaftFailed) \<in> set (pa_replies (raft_decides j False w)) \<and>
    pa_fsm (raft_decides k True (planApply_dispatch k now True (raft_decides j False w))) = s' \<and>
    (\<exists>r. (p2, Applied r) \<in> set (pa_replies (raft_decides k True (planApply_dispatch k now True (raft_decides j False w)))))"
proof -
  define v where "v = raft_decides j False w"
  have v: "pa_log v = []" "pa_fsm v = pa_fsm w" "pa_replies v = pa_replies w @ [(p1, RaftFailed)]"
    "pa_waitCh v = ClosedCh" "pa_phase v = Verified p2 r2"
    using assms(1,2) by (simp_all add: v_def raft_decides_def asyncPlanWait_def)
  have "planApply_dispatch k now True v = v\<lparr>pa_log := [(plan_request now p2 r2, Some (p2, r2))], pa_snap := Some s',
        pa_waitCh := OpenCh, pa_phase := Waiting\<rparr>"
    using assms(3) by (simp add: v planApply_dispatch_def applyPlan_def option.case_eq_if)
  then show ?thesis unfolding v_def [symmetric] using assms(3)
    by (simp add: v raft_decides_def asyncPlanWait_def) blast
qed

theorem failed_application_unnoticed_witness:
  "(plan_step False)\<^sup>*\<^sup>* (start_applier run_store) run3 \<and> fits_all (pa_fsm run3) \<and>
   (stop_plan, RaftFailed) \<in> set (pa_replies run4) \<and> (\<exists>r. (place_plan, Applied r) \<in> set (pa_replies run6)) \<and>
   \<not> fits_all (pa_fsm run6)"
proof -
  have 2: "run2 = run1\<lparr>pa_log := [(plan_request 9 stop_plan stop_result, Some (stop_plan, stop_result))],
      pa_snap := Some stopped_store, pa_waitCh := OpenCh, pa_phase := Waiting\<rparr>"
    by (simp add: run2_def run1_def planApply_dispatch_def applyPlan_def start_applier_def Let_def stop_applies)
  have fsm: "pa_fsm run3 = run_store" by (simp add: run3_def 2 run1_def start_applier_def)
  let ?s = "snd (UpsertPlanResults 6 (plan_request 9 place_plan place_result) (pa_fsm run3))"
  have log: "pa_log run3 = [(plan_request 9 stop_plan stop_result, Some (stop_plan, stop_result))]"
    "pa_phase run3 = Verified place_plan place_result" by (simp_all add: run3_def 2)
  have "fst (UpsertPlanResults 6 (plan_request 9 place_plan place_result) (pa_fsm run3)) = None" by code_simp
  then have up: "UpsertPlanResults 6 (plan_request 9 place_plan place_result) (pa_fsm run3) = (None, ?s)"
    by (metis prod.collapse)
  have n: "NodeByID (pa_fsm run6) ''n1'' = Some ex_node" and
    d: "demand r_CPU ex_node (AllocsByNodeTerminal (pa_fsm run6) ''n1'' False) = 1200" by code_simp+
  have "r_CPU (n_Resources ex_node) = 1000" by (simp add: ex_node_def)
  with d have "\<not> fits_spec ex_node (AllocsByNodeTerminal (pa_fsm run6) ''n1'' False)"
    by (simp add: fits_spec_def dimensions_def)
  with n have "\<not> fits_all (pa_fsm run6)" unfolding fits_all_def by blast
  moreover have "(plan_step False)\<^sup>*\<^sup>* (start_applier run_store) run3"
    using run_steps(1-3) by (meson converse_rtranclp_into_rtranclp rtranclp.rtrancl_refl)
  ultimately show ?thesis
    using failed_application_unnoticed [OF log up, of 5] run_store_ok
    by (simp add: fsm run4_def [symmetric] run5_def [symmetric] run6_def [symmetric])
qed

section \<open>When nothing fails\<close>

lemma place_in_range: "pool_ok []" "list_all (\<lambda>a. alloc_deltas a \<noteq> None) (proposed stopped_store place_plan ''n1'')"
  "\<forall>node. NodeByID stopped_store ''n1'' = Some node \<longrightarrow> no_overflow node (proposed stopped_store place_plan ''n1'')"
proof -
  show "\<forall>node. NodeByID stopped_store ''n1'' = Some node \<longrightarrow> no_overflow node (proposed stopped_store place_plan ''n1'')"
    using in_range_examples(2) unfolding in_range_def by blast
qed (use run_alloc_facts(6) [of "''b''" 81] in \<open>simp_all add: pool_ok_def stopped_proposed\<close>)

theorem evaluateNodePlan_correct_witness: "evaluateNodePlan stopped_store place_plan ''n1'' [] = Some (Inr True)"
proof -
  have "\<exists>node. NodeByID stopped_store ''n1'' = Some node \<and> node_Ready node \<and> fits_spec node (proposed stopped_store place_plan ''n1'')"
    using one_fits(1) [OF port_ok(2)] by (simp add: stopped_proposed stopped_facts ex_single)
  with evaluateNodePlan_correct [OF place_in_range(1,3,2)] show ?thesis by simp
qed

lemma place_applies: "fst (UpsertPlanResults 6 (plan_request 9 place_plan place_result) stopped_store) = None"
  unfolding stopped_store_def by code_simp

theorem plan_never_overcommits_witness:
  "fits_all (snd (UpsertPlanResults 6 (plan_request 9 place_plan place_result) stopped_store)) \<and>
   AllocByID (snd (UpsertPlanResults 6 (plan_request 9 place_plan place_result) stopped_store)) ''b'' \<noteq> None"
proof -
  have p: "\<forall>x. pool_ok ((\<lambda>_. []) (x :: string))" by (simp add: pool_ok_def)
  have s: "fits_all stopped_store \<and> cluster_ok stopped_store"
    by (rule plan_never_overcommits [OF stop_evaluates plans_ok(1) in_range_examples(1) p run_store_ok(1)
          follows_store_refl run_store_ok stop_applies])
  have "UpsertPlanResults 6 (plan_request 9 place_plan place_result) stopped_store =
      (None, snd (UpsertPlanResults 6 (plan_request 9 place_plan place_result) stopped_store))"
    using place_applies by (metis prod.collapse)
  from plan_never_overcommits [OF place_evaluates plans_ok(2) in_range_examples(2) p conjunct2 [OF s]
      follows_store_refl conjunct2 [OF s] conjunct1 [OF s] this]
  have "fits_all (snd (UpsertPlanResults 6 (plan_request 9 place_plan place_result) stopped_store))" by simp
  moreover have "AllocByID (snd (UpsertPlanResults 6 (plan_request 9 place_plan place_result) stopped_store)) ''b'' \<noteq> None"
    unfolding stopped_store_def by code_simp
  ultimately show ?thesis ..
qed

definition good4 :: applier where "good4 = raft_decides 5 True run3"

definition good5 :: applier where "good5 = planApply_dispatch 6 9 True good4"

definition good6 :: applier where "good6 = raft_decides 6 True good5"

lemma good_steps: "plan_step False run3 good4" "plan_step False good4 good5" "plan_step False good5 good6"
proof -
  have l3: "pa_log run3 = (plan_request 9 stop_plan stop_result, Some (stop_plan, stop_result)) # []"
    and l5: "pa_log good5 = (plan_request 9 place_plan place_result, Some (place_plan, place_result)) # []" by code_simp+
  have "\<not> (\<not> True \<or> fst (UpsertPlanResults 5 (plan_request 9 stop_plan stop_result) (pa_fsm run3)) \<noteq> None)"
    "\<not> (\<not> True \<or> fst (UpsertPlanResults 6 (plan_request 9 place_plan place_result) (pa_fsm good5)) \<noteq> None)" by code_simp+
  then show "plan_step False run3 good4" "plan_step False good5 good6"
    using plan_step.decide [OF l3, of True 5] plan_step.decide [OF l5, of True 6] by (simp_all add: good4_def good6_def)
  have "pa_waitCh good4 \<noteq> OpenCh" "\<not> list_ex (\<lambda>(_, waiter). waiter = None) (pa_log good5)" by code_simp+
  moreover have "pa_phase good4 = Verified place_plan place_result"
    using l3 by (simp add: good4_def raft_decides_def asyncPlanWait_def Let_def run3_def)
  ultimately show "plan_step False good4 good5"
    using plan_step.dispatch [of good4 place_plan place_result good5 6 9 True] by (simp add: good5_def)
qed

theorem planApply_never_overcommits_witness:
  "fits_all (pa_fsm good6) \<and> length (pa_replies good6) = 2"
proof -
  have "(plan_step False)\<^sup>*\<^sup>* (start_applier run_store) good6"
    using run_steps(1-3) good_steps by (meson converse_rtranclp_into_rtranclp rtranclp.rtrancl_refl)
  moreover have "length (pa_replies good6) = 2" by code_simp
  ultimately show ?thesis using planApply_never_overcommits run_store_ok by blast
qed

end
