(* ===== verification/Reconcile_Util.thy ===== *)
theory Reconcile_Util
  imports Alloc_Fit
begin

text \<open>
  \<^verbatim>\<open>scheduler/reconcile_util.go\<close> and the index of an allocation name: sets of allocations as the
  reconciler uses them, and the choice of names for placements, removals and canaries.

  An \<open>allocSet\<close> is an association list from the allocation ID; the sort of \<open>nameOrder\<close>
  leaves the order of equal indexes open, and the model keeps the order of the set. A \<open>uint\<close> is a natural number below \<open>2 ^ 64\<close>,
  with the wrap-around of a subtraction written out. A panic is \<open>None\<close>.
\<close>

section \<open>Allocation names\<close>

definition uint :: "int \<Rightarrow> nat" where
  "uint x = nat (x mod 2 ^ 64)"

definition usub :: "nat \<Rightarrow> nat \<Rightarrow> nat" where
  "usub a b = uint (int a - int b)"

text \<open>\<open>strconv.Atoi\<close> with its error dropped: 0 for a malformed number, the bound for one out of range.\<close>

definition is_digit :: "char \<Rightarrow> bool" where
  "is_digit c \<longleftrightarrow> c \<in> set ''0123456789''"

definition digits_value :: "string \<Rightarrow> nat" where
  "digits_value s = foldl (\<lambda>n c. 10 * n + (of_char c - 48)) 0 s"

definition atoi :: "string \<Rightarrow> int" where
  "atoi s =
     (let (neg, ds) =
            (if s \<noteq> [] \<and> hd s = CHR ''-'' then (True, tl s)
             else if s \<noteq> [] \<and> hd s = CHR ''+'' then (False, tl s)
             else (False, s))
      in if ds = [] \<or> \<not> list_all is_digit ds then 0
         else let n = int (digits_value ds)
              in if neg then max (- n) (- (2 ^ 63)) else min n (2 ^ 63 - 1))"

definition alloc_Index :: "allocation \<Rightarrow> nat" where
  "alloc_Index a =
     (let l = length (a_Name a); prefix = length (a_JobID a) + length (a_TaskGroup a) + 2
      in if l \<le> 3 \<or> l \<le> prefix then 0
         else uint (atoi (drop prefix (take (l - 1) (a_Name a)))))"

section \<open>Sets of allocations\<close>

type_synonym alloc_set = "(string \<times> allocation) list"

type_synonym alloc_matrix = "(string \<times> alloc_set) list"

definition newAllocMatrix :: "job option \<Rightarrow> allocation list \<Rightarrow> alloc_matrix" where
  "newAllocMatrix job allocs =
     (let m = fold (\<lambda>a m. amap_put (a_TaskGroup a) (amap_put (a_ID a) a (amap_get [] m (a_TaskGroup a))) m) allocs []
      in case job of
           None \<Rightarrow> m
         | Some j \<Rightarrow> fold (\<lambda>tg m. if map_of m (tg_Name tg) = None then amap_put (tg_Name tg) [] m else m) (j_TaskGroups j) m)"

definition newAllocSet :: "allocation list \<Rightarrow> alloc_set" where
  "newAllocSet allocs = fold (\<lambda>a s. amap_put (a_ID a) a s) allocs []"

definition nameSet :: "alloc_set \<Rightarrow> string list" where
  "nameSet as = map (\<lambda>(_, a). a_Name a) as"

definition nameOrder :: "alloc_set \<Rightarrow> allocation list" where
  "nameOrder as = sort_key alloc_Index (map snd as)"

definition difference :: "alloc_set \<Rightarrow> alloc_set list \<Rightarrow> alloc_set" where
  "difference as others = filter (\<lambda>(k, _). \<not> list_ex (\<lambda>other. map_of other k \<noteq> None) others) as"

definition alloc_union :: "alloc_set \<Rightarrow> alloc_set list \<Rightarrow> alloc_set" where
  "alloc_union as others = fold (\<lambda>set u. fold (\<lambda>(k, v) u. amap_put k v u) set u) (as # others) []"

definition fromKeys :: "alloc_set \<Rightarrow> string list list \<Rightarrow> alloc_set" where
  "fromKeys as keys =
     fold (\<lambda>k from. case map_of as k of Some a \<Rightarrow> amap_put k a from | None \<Rightarrow> from) (concat keys) []"

text \<open>A node that is gone is a nil entry; an allocation on a tainted node without a job panics.\<close>

fun filterByTainted ::
  "(string \<rightharpoonup> node option) \<Rightarrow> alloc_set \<Rightarrow> (alloc_set \<times> alloc_set \<times> alloc_set) option" where
  "filterByTainted nodes [] = Some ([], [], [])"
| "filterByTainted nodes ((k, a) # as) =
     Option.bind (filterByTainted nodes as) (\<lambda>(untainted, migrate, lost).
       case nodes (a_NodeID a) of
         None \<Rightarrow> Some ((a_ID a, a) # untainted, migrate, lost)
       | Some n \<Rightarrow>
           (case a_Job a of
              None \<Rightarrow> None
            | Some job \<Rightarrow>
                if j_Type job = JobTypeBatch \<and> RanSuccessfully a then Some ((a_ID a, a) # untainted, migrate, lost)
                else case n of
                  None \<Rightarrow> Some (untainted, migrate, (a_ID a, a) # lost)
                | Some node \<Rightarrow>
                    if node_TerminalStatus node then Some (untainted, migrate, (a_ID a, a) # lost)
                    else Some (untainted, (a_ID a, a) # migrate, lost)))"

definition filterByDeployment :: "string \<Rightarrow> alloc_set \<Rightarrow> alloc_set \<times> alloc_set" where
  "filterByDeployment x as = (filter (\<lambda>(_, a). a_DeploymentID a = x) as, filter (\<lambda>(_, a). a_DeploymentID a \<noteq> x) as)"

section \<open>Names in use\<close>

record alloc_name_index =
  ani_job :: string
  ani_taskGroup :: string
  ani_count :: int
  ani_b :: bitmap

fun set_all :: "nat list \<Rightarrow> bitmap \<Rightarrow> bitmap option" where
  "set_all [] b = Some b"
| "set_all (i # is) b = Option.bind (bm_Set b i) (set_all is)"

fun unset_all :: "nat list \<Rightarrow> bitmap \<Rightarrow> bitmap option" where
  "unset_all [] b = Some b"
| "unset_all (i # is) b = Option.bind (bm_Unset b i) (unset_all is)"

abbreviation set_indexes :: "alloc_set \<Rightarrow> nat list" where
  "set_indexes as \<equiv> map (\<lambda>(_, a). alloc_Index a) as"

text \<open>The size of the bitmap: the larger of the sizes and the highest index, rounded up to whole bytes.\<close>

definition bitmap_size :: "alloc_set \<Rightarrow> nat \<Rightarrow> nat" where
  "bitmap_size input minSize =
     (let mx = fold (\<lambda>num m. if num > m then num else m) (set_indexes input) 0;
          minSize1 = (if minSize < length input then length input else minSize);
          mx1 = (if mx < minSize1 then minSize1 else mx);
          mx2 = (if mx1 = 0 then 8 else mx1)
      in if mx2 mod 8 \<noteq> 0 then uint (int mx2 + 8 - int (mx2 mod 8)) else mx2)"

definition bitmapFrom :: "alloc_set \<Rightarrow> nat \<Rightarrow> bitmap option" where
  "bitmapFrom input minSize =
     (case NewBitmap (bitmap_size input minSize) of
        Inl _ \<Rightarrow> None
      | Inr b \<Rightarrow> set_all (set_indexes input) b)"

definition newAllocNameIndex :: "string \<Rightarrow> string \<Rightarrow> int \<Rightarrow> alloc_set \<Rightarrow> alloc_name_index option" where
  "newAllocNameIndex job taskGroup cnt input =
     map_option (\<lambda>b. \<lparr>ani_job = job, ani_taskGroup = taskGroup, ani_count = cnt, ani_b = b\<rparr>)
       (bitmapFrom input (uint cnt))"

abbreviation ani_name :: "alloc_name_index \<Rightarrow> nat \<Rightarrow> string" where
  "ani_name idx i \<equiv> AllocName (ani_job idx) (ani_taskGroup idx) i"

text \<open>The loop of \<open>Highest\<close>, from index \<open>i - 1\<close> downwards.\<close>

fun highest_loop :: "alloc_name_index \<Rightarrow> nat \<Rightarrow> nat \<Rightarrow> string list \<Rightarrow> (string list \<times> alloc_name_index) option" where
  "highest_loop idx n 0 h = Some (h, idx)"
| "highest_loop idx n (Suc i) h =
     (if length h < n
      then Option.bind (bm_Check (ani_b idx) i) (\<lambda>c.
             if c
             then Option.bind (bm_Unset (ani_b idx) i) (\<lambda>b.
                    highest_loop (idx\<lparr>ani_b := b\<rparr>) n i (List.insert (ani_name idx i) h))
             else highest_loop idx n i h)
      else Some (h, idx))"

definition Highest :: "nat \<Rightarrow> alloc_name_index \<Rightarrow> (string list \<times> alloc_name_index) option" where
  "Highest n idx = highest_loop idx n (bm_Size (ani_b idx)) []"

definition ani_Set :: "alloc_set \<Rightarrow> alloc_name_index \<Rightarrow> alloc_name_index option" where
  "ani_Set as idx = map_option (\<lambda>b. idx\<lparr>ani_b := b\<rparr>) (set_all (set_indexes as) (ani_b idx))"

definition ani_Unset :: "alloc_set \<Rightarrow> alloc_name_index \<Rightarrow> alloc_name_index option" where
  "ani_Unset as idx = map_option (\<lambda>b. idx\<lparr>ani_b := b\<rparr>) (unset_all (set_indexes as) (ani_b idx))"

definition UnsetIndex :: "nat \<Rightarrow> alloc_name_index \<Rightarrow> alloc_name_index option" where
  "UnsetIndex i idx = map_option (\<lambda>b. idx\<lparr>ani_b := b\<rparr>) (bm_Unset (ani_b idx) i)"

text \<open>
  One pass over candidate indexes. The answer says whether enough names were found, in which case the
  caller returns, and the value of \<open>remainder\<close> that the pass leaves behind.
\<close>

fun pick_names ::
  "(string \<Rightarrow> bool) \<Rightarrow> nat \<Rightarrow> nat list \<Rightarrow> nat \<Rightarrow> string list \<Rightarrow> alloc_name_index \<Rightarrow>
   (bool \<times> nat \<times> string list \<times> alloc_name_index) option" where
  "pick_names used n [] remainder next idx = Some (False, remainder, next, idx)"
| "pick_names used n (i # is) remainder next idx =
     (if used (ani_name idx i) then pick_names used n is remainder next idx
      else Option.bind (bm_Set (ani_b idx) i) (\<lambda>b.
        let next' = next @ [ani_name idx i]; remainder' = usub n (length next'); idx' = idx\<lparr>ani_b := b\<rparr>
        in if remainder' = 0 then Some (True, remainder', next', idx')
           else pick_names used n is remainder' next' idx'))"

text \<open>The last pass of \<open>NextCanaries\<close>, whose bound shrinks while it runs.\<close>

function overlap_names ::
  "(string \<Rightarrow> bool) \<Rightarrow> nat \<Rightarrow> nat \<Rightarrow> nat \<Rightarrow> string list \<Rightarrow> alloc_name_index \<Rightarrow> (string list \<times> alloc_name_index) option" where
  "overlap_names used n i remainder next idx =
     (if i < remainder
      then if used (ani_name idx i) then overlap_names used n (Suc i) remainder next idx
           else Option.bind (bm_Set (ani_b idx) i) (\<lambda>b.
             let next' = next @ [ani_name idx i]; remainder' = usub n (length next'); idx' = idx\<lparr>ani_b := b\<rparr>
             in if remainder' = 0 then Some (next', idx') else overlap_names used n (Suc i) remainder' next' idx')
      else Some (next, idx))"
  by pat_completeness auto
termination
proof (relation "measure (\<lambda>(used, n, i, remainder, next, idx). max remainder (2 ^ 64) - i)")
  fix used n nx idx b nx' remainder' and idx' :: alloc_name_index and i remainder :: nat
  assume i: "i < remainder" and r: "remainder' = usub n (length nx')" "remainder' \<noteq> 0"
  have "remainder' < 2 ^ 64" unfolding r usub_def uint_def by (simp add: nat_less_iff)
  then show "((used, n, Suc i, remainder', nx', idx'), used, n, i, remainder, nx, idx)
      \<in> measure (\<lambda>(used, n, i, remainder, next, idx). max remainder (2 ^ 64) - i)"
    using i by (auto simp: max_def)
qed auto

declare overlap_names.simps [simp del]

text \<open>
  \<open>NextCanaries\<close>. The first pass declares a \<open>remainder\<close> of its own, so the last pass runs with what the
  second one left in the outer variable.
\<close>

definition NextCanaries ::
  "nat \<Rightarrow> alloc_set \<Rightarrow> alloc_set \<Rightarrow> alloc_name_index \<Rightarrow> (string list \<times> alloc_name_index) option" where
  "NextCanaries n existing destructive idx =
     (let used = (\<lambda>name. name \<in> set (nameSet existing)); top = usub (uint (ani_count idx)) 1 in
      Option.bind (bitmapFrom destructive (uint (ani_count idx))) (\<lambda>dmap.
      Option.bind (bm_IndexesInRange dmap True 0 top) (\<lambda>is1.
      Option.bind (pick_names used n is1 0 [] idx) (\<lambda>(done1, _, next1, idx1).
        if done1 then Some (next1, idx1)
        else
          Option.bind (bm_IndexesInRange (ani_b idx1) False 0 top) (\<lambda>is2.
          Option.bind (pick_names used n is2 0 next1 idx1) (\<lambda>(done2, remainder, next2, idx2).
            if done2 then Some (next2, idx2) else overlap_names used n 0 remainder next2 idx2))))))"

fun append_names :: "nat list \<Rightarrow> string list \<Rightarrow> alloc_name_index \<Rightarrow> (string list \<times> alloc_name_index) option" where
  "append_names [] next idx = Some (next, idx)"
| "append_names (i # is) next idx =
     Option.bind (bm_Set (ani_b idx) i) (\<lambda>b. append_names is (next @ [ani_name idx i]) (idx\<lparr>ani_b := b\<rparr>))"

definition Next :: "nat \<Rightarrow> alloc_name_index \<Rightarrow> (string list \<times> alloc_name_index) option" where
  "Next n idx =
     Option.bind (bm_IndexesInRange (ani_b idx) False 0 (usub (uint (ani_count idx)) 1)) (\<lambda>free.
     Option.bind (pick_names (\<lambda>_. False) n free n [] idx) (\<lambda>(finished, remainder, next, idx').
       if finished then Some (next, idx') else append_names [0..<remainder] next idx'))"

section \<open>The index of a name\<close>

lemma uint_id [simp]: "0 \<le> x \<Longrightarrow> x < 2 ^ 64 \<Longrightarrow> uint x = nat x"
  by (simp add: uint_def)

lemma uint_less: "uint x < 2 ^ 64"
  by (simp add: uint_def nat_less_iff)

lemma usub_le [simp]: "b \<le> a \<Longrightarrow> a < 2 ^ 64 \<Longrightarrow> usub a b = a - b"
  by (simp add: usub_def uint_def nat_diff_distrib)

lemma digits_value_snoc: "digits_value (s @ [c]) = 10 * digits_value s + (of_char c - 48)"
  by (simp add: digits_value_def)

lemma digit_char:
  assumes "d < 10"
  shows "is_digit (char_of (48 + d))" "of_char (char_of (48 + d :: nat)) = 48 + d"
proof -
  have "\<forall>d \<in> set [0..<10]. is_digit (char_of (48 + d :: nat))" by code_simp
  then show "is_digit (char_of (48 + d))" using assms by simp
  show "of_char (char_of (48 + d :: nat)) = 48 + d" using assms by (simp add: of_char_of)
qed

lemma decimal_digits: "decimal n \<noteq> [] \<and> list_all is_digit (decimal n) \<and> digits_value (decimal n) = n"
proof (induction n rule: decimal.induct)
  case (1 n)
  show ?case
  proof (cases "n < 10")
    case True
    then show ?thesis using digit_char [OF True] by (simp add: decimal.simps [of n] digits_value_def)
  next
    case False
    then show ?thesis
      using 1 digit_char [of "n mod 10"] by (simp add: decimal.simps [of n] digits_value_snoc)
  qed
qed

lemma atoi_decimal:
  assumes "n < 2 ^ 63"
  shows "atoi (decimal n) = int n"
proof -
  obtain c s where cs: "decimal n = c # s" using decimal_digits [of n] by (cases "decimal n") auto
  then have "is_digit c" using decimal_digits [of n] by simp
  then have "c \<noteq> CHR ''-''" "c \<noteq> CHR ''+''" by (auto simp: is_digit_def)
  then show ?thesis
    using decimal_digits [of n] assms unfolding atoi_def cs by (simp add: Let_def)
qed

lemma alloc_Index_name:
  assumes "a_Name a = AllocName (a_JobID a) (a_TaskGroup a) i" "i < 2 ^ 63"
  shows "alloc_Index a = i"
proof -
  let ?p = "length (a_JobID a) + length (a_TaskGroup a) + 2"
  have n: "a_Name a = (a_JobID a @ ''.'' @ a_TaskGroup a @ ''['') @ decimal i @ '']''"
    using assms(1) by (simp add: AllocName_def)
  have l: "length (a_Name a) = ?p + length (decimal i) + 1" unfolding n by simp
  have "take (length (a_Name a) - 1) (a_Name a) = (a_JobID a @ ''.'' @ a_TaskGroup a @ ''['') @ decimal i"
    unfolding l unfolding n by simp
  then have d: "drop ?p (take (length (a_Name a) - 1) (a_Name a)) = decimal i" by simp
  have "decimal i \<noteq> []" using decimal_digits by blast
  then have "\<not> (length (a_Name a) \<le> 3 \<or> length (a_Name a) \<le> ?p)" using l by (cases "decimal i") auto
  then show ?thesis unfolding alloc_Index_def Let_def using d atoi_decimal [OF assms(2)] assms(2) by simp
qed

section \<open>Bitmaps of names\<close>

lemma set_all_spec:
  "(\<exists>b'. set_all is b = Some b') \<longleftrightarrow> (\<forall>i \<in> set is. i < 8 * length b)"
  "set_all is b = Some b' \<Longrightarrow> bm_bits b' = bm_bits b \<union> set is \<and> length b' = length b"
proof (induction "is" arbitrary: b)
  case (Cons i "is")
  { case 1
    show ?case
    proof (cases "i < 8 * length b")
      case True
      then obtain c where c: "bm_Set b i = Some c" using bm_Set_Some by blast
      then show ?thesis using Cons.IH(1) [of c] True bm_Set_length [OF c] by simp
    next
      case False
      then show ?thesis using bm_Set_None [of b i] by simp
    qed
  next
    case 2
    then show ?case using Cons.IH(2) bm_Set_bits bm_Set_length by (fastforce simp: bind_eq_Some_conv)
  }
qed auto

abbreviation top_index :: "alloc_set \<Rightarrow> nat" where
  "top_index input \<equiv> fold (\<lambda>num m. if num > m then num else m) (set_indexes input) 0"

lemma fold_top: "fold (\<lambda>num m. if num > m then num else m) xs (m :: nat) = Max (insert m (set xs))"
proof (induction xs arbitrary: m)
  case (Cons x xs)
  have "insert x (insert m (set xs)) = insert m (set (x # xs))" by auto
  moreover have "Max (insert x (insert m (set xs))) = max x (Max (insert m (set xs)))" by simp
  moreover have "Max (insert (if m < x then x else m) (set xs)) = max x (Max (insert m (set xs)))"
    by (cases "set xs = {}") (auto simp: max_def)
  ultimately show ?case using Cons.IH [of "if x > m then x else m"] by simp
qed simp

definition small :: "alloc_set \<Rightarrow> nat \<Rightarrow> bool" where
  "small input minSize \<longleftrightarrow> top_index input < 2 ^ 63 \<and> minSize < 2 ^ 63 \<and> length input < 2 ^ 63"

text \<open>The highest index falls just past the bitmap.\<close>

definition misaligned :: "alloc_set \<Rightarrow> nat \<Rightarrow> bool" where
  "misaligned input minSize \<longleftrightarrow> 0 < top_index input \<and> 8 dvd top_index input \<and>
     minSize \<le> top_index input \<and> length input \<le> top_index input"

lemma round_up:
  fixes n :: nat
  assumes "n mod 8 \<noteq> 0" "n < 2 ^ 63"
  shows "uint (int n + 8 - int (n mod 8)) = n + (8 - n mod 8)" "8 dvd n + (8 - n mod 8)"
proof -
  have le: "n mod 8 < 8" by simp
  then have "int n + 8 - int (n mod 8) = int (n + (8 - n mod 8))" by (simp add: of_nat_diff)
  moreover have "n + (8 - n mod 8) < 2 ^ 64" using assms(2) le by simp
  ultimately show "uint (int n + 8 - int (n mod 8)) = n + (8 - n mod 8)" by (simp add: uint_def)
  show "8 dvd n + (8 - n mod 8)" by presburger
qed

lemma bitmap_size_facts:
  assumes "small input minSize"
  shows "8 dvd bitmap_size input minSize" "0 < bitmap_size input minSize"
    "minSize \<le> bitmap_size input minSize" "length input \<le> bitmap_size input minSize"
    "top_index input < bitmap_size input minSize \<longleftrightarrow> \<not> misaligned input minSize"
proof -
  define m where "m = top_index input"
  define ms where "ms = (if minSize < length input then length input else minSize)"
  define n where "n = (if (if m < ms then ms else m) = 0 then 8 else if m < ms then ms else m)"
  have sz: "bitmap_size input minSize = (if n mod 8 \<noteq> 0 then n + (8 - n mod 8) else n)"
    unfolding bitmap_size_def Let_def m_def [symmetric] ms_def [symmetric] n_def [symmetric]
    using round_up(1) [of n] assms by (auto simp: small_def m_def ms_def n_def)
  have n63: "n < 2 ^ 63" using assms by (auto simp: small_def m_def ms_def n_def)
  show d: "8 dvd bitmap_size input minSize" unfolding sz using round_up(2) [OF _ n63] by auto
  have lt: "n mod 8 < 8" by simp
  have ge: "n \<le> bitmap_size input minSize" unfolding sz using lt by (auto split: if_split)
  moreover have "0 < n" "minSize \<le> n" "length input \<le> n" "m \<le> n" by (auto simp: n_def ms_def)
  ultimately show "0 < bitmap_size input minSize" "minSize \<le> bitmap_size input minSize" "length input \<le> bitmap_size input minSize"
    by simp_all
  have gt: "n mod 8 \<noteq> 0 \<Longrightarrow> n < bitmap_size input minSize" unfolding sz using lt by auto
  have "m < bitmap_size input minSize \<longleftrightarrow> \<not> (0 < m \<and> m mod 8 = 0 \<and> ms \<le> m)"
  proof (cases "0 < m \<and> ms \<le> m")
    case True
    then have "n = m" by (simp add: n_def)
    then show ?thesis using True gt sz by auto
  next
    case False
    then have "m < n" by (auto simp: n_def)
    then show ?thesis using False ge by auto
  qed
  then show "top_index input < bitmap_size input minSize \<longleftrightarrow> \<not> misaligned input minSize"
    unfolding misaligned_def m_def [symmetric] by (auto simp: ms_def dvd_eq_mod_eq_0)
qed

lemma top_index_ge: "i \<in> set (set_indexes input) \<Longrightarrow> i \<le> top_index input"
  unfolding fold_top by (intro Max_ge) auto

lemma top_index_mem: "0 < top_index input \<Longrightarrow> top_index input \<in> set (set_indexes input)"
  unfolding fold_top using Max_in [of "insert 0 (set (set_indexes input))"] by auto

lemma bitmapFrom_cases:
  assumes "small input minSize"
  shows "bitmapFrom input minSize = None \<longleftrightarrow> misaligned input minSize"
    "bitmapFrom input minSize = Some b \<Longrightarrow> bm_bits b = set (set_indexes input) \<and> 8 * length b = bitmap_size input minSize"
proof -
  note f = bitmap_size_facts [OF assms]
  obtain b0 where b0: "NewBitmap (bitmap_size input minSize) = Inr b0" using NewBitmap_ok f(1,2) by blast
  note n = NewBitmap_bits [OF b0]
  have "bitmapFrom input minSize \<noteq> None \<longleftrightarrow> (\<forall>i \<in> set (set_indexes input). i < bitmap_size input minSize)"
    unfolding bitmapFrom_def b0 using set_all_spec(1) [of "set_indexes input" b0] n(2) by simp
  also have "\<dots> \<longleftrightarrow> top_index input < bitmap_size input minSize"
  proof
    assume a: "\<forall>i \<in> set (set_indexes input). i < bitmap_size input minSize"
    show "top_index input < bitmap_size input minSize"
    proof (cases "top_index input = 0")
      case False
      then show ?thesis using bspec [OF a top_index_mem] by blast
    qed (use f(2) in argo)
  next
    assume "top_index input < bitmap_size input minSize"
    then show "\<forall>i \<in> set (set_indexes input). i < bitmap_size input minSize"
      using top_index_ge [of _ input] le_less_trans by blast
  qed
  finally show "bitmapFrom input minSize = None \<longleftrightarrow> misaligned input minSize" using f(5) by blast
  show "bm_bits b = set (set_indexes input) \<and> 8 * length b = bitmap_size input minSize" if "bitmapFrom input minSize = Some b"
    using that set_all_spec(2) [of "set_indexes input" b0 b] n unfolding bitmapFrom_def b0 by simp
qed

section \<open>Choosing names\<close>

lemma decimal_inj: "decimal m = decimal n \<longleftrightarrow> m = n"
  using decimal_digits by metis

lemma AllocName_inj [simp]: "AllocName j g m = AllocName j g n \<longleftrightarrow> m = n"
  by (simp add: AllocName_def decimal_inj)

text \<open>The free indexes below the count, in order, and the names \<open>Next\<close> takes.\<close>

definition free_below :: "alloc_name_index \<Rightarrow> nat list" where
  "free_below idx = filter (\<lambda>i. i \<notin> bm_bits (ani_b idx)) [0..<nat (ani_count idx)]"

lemma usub_zero: "usub n m = 0 \<Longrightarrow> m \<le> n \<Longrightarrow> n < 2 ^ 64 \<Longrightarrow> m = n"
  by simp

lemma pick_names_spec:
  assumes "\<forall>i \<in> set is. i < 8 * length (ani_b idx)" "length nx < n" "n < 2 ^ 64"
  shows "\<exists>b. pick_names used n is rem nx idx =
      (let cand = filter (\<lambda>i. \<not> used (ani_name idx i)) is; m = n - length nx in
       Some (m \<le> length cand, if m \<le> length cand then 0 else if cand = [] then rem else m - length cand,
             nx @ map (ani_name idx) (take m cand), idx\<lparr>ani_b := b\<rparr>)) \<and>
      bm_bits b = bm_bits (ani_b idx) \<union> set (take (n - length nx) (filter (\<lambda>i. \<not> used (ani_name idx i)) is)) \<and>
      length b = length (ani_b idx)"
  using assms
proof (induction "is" arbitrary: rem nx idx)
  case Nil
  then show ?case by (intro exI [of _ "ani_b idx"]) (simp add: Let_def)
next
  case (Cons i "is")
  show ?case
  proof (cases "used (ani_name idx i)")
    case True
    then show ?thesis using Cons.IH [of idx nx rem] Cons.prems by simp
  next
    case False
    from Cons.prems(1) have i: "i < 8 * length (ani_b idx)" by simp
    then obtain b where b: "bm_Set (ani_b idx) i = Some b" using bm_Set_Some by blast
    note bb = bm_Set_bits [OF b] bm_Set_length [OF b]
    let ?nx = "nx @ [ani_name idx i]"
    have u: "usub n (Suc (length nx)) = n - Suc (length nx)" using Cons.prems by simp
    have k: "n - length nx = Suc (n - Suc (length nx))" using Cons.prems(2) by simp
    show ?thesis
    proof (cases "n = Suc (length nx)")
      case True
      then show ?thesis using False b bb u by (intro exI [of _ b]) (simp add: Let_def)
    next
      case neq: False
      then have "length ?nx < n" using Cons.prems(2) by simp
      from Cons.IH [of "idx\<lparr>ani_b := b\<rparr>" ?nx "n - Suc (length nx)"] this Cons.prems bb
      obtain c where c: "pick_names used n is (n - Suc (length nx)) ?nx (idx\<lparr>ani_b := b\<rparr>) =
          (let cand = filter (\<lambda>i. \<not> used (ani_name idx i)) is; m = n - Suc (length nx) in
           Some (m \<le> length cand, if m \<le> length cand then 0 else if cand = [] then n - Suc (length nx) else m - length cand,
             ?nx @ map (ani_name idx) (take m cand), idx\<lparr>ani_b := c\<rparr>))"
        "bm_bits c = bm_bits b \<union> set (take (n - Suc (length nx)) (filter (\<lambda>i. \<not> used (ani_name idx i)) is))"
        "length c = length b"
        by auto
      show ?thesis
        using False b bb u neq Cons.prems(2) c unfolding k
        by (intro exI [of _ c]) (auto simp: Let_def)
    qed
  qed
qed

lemma append_names_spec:
  assumes "\<forall>i \<in> set is. i < 8 * length (ani_b idx)"
  shows "\<exists>b. append_names is nx idx = Some (nx @ map (ani_name idx) is, idx\<lparr>ani_b := b\<rparr>) \<and>
      bm_bits b = bm_bits (ani_b idx) \<union> set is \<and> length b = length (ani_b idx)"
  using assms
proof (induction "is" arbitrary: nx idx)
  case (Nil nx idx)
  then show ?case by (intro exI [of _ "ani_b idx"]) simp
next
  case (Cons i "is")
  then obtain b where b: "bm_Set (ani_b idx) i = Some b" using bm_Set_Some by (metis list.set_intros(1))
  note bb = bm_Set_bits [OF b] bm_Set_length [OF b]
  with Cons.IH [of "idx\<lparr>ani_b := b\<rparr>" "nx @ [ani_name idx i]"] Cons.prems b show ?case by auto
qed

lemma Next_spec:
  assumes "0 < n" "n \<le> 8 * length (ani_b idx)" "n < 2 ^ 64"
    "0 < ani_count idx" "ani_count idx < 2 ^ 63" "nat (ani_count idx) \<le> 8 * length (ani_b idx)"
  shows "\<exists>b. Next n idx = Some (map (ani_name idx) (take n (free_below idx) @ [0..<n - length (free_below idx)]), idx\<lparr>ani_b := b\<rparr>) \<and>
      bm_bits b = bm_bits (ani_b idx) \<union> set (take n (free_below idx) @ [0..<n - length (free_below idx)]) \<and>
      length b = length (ani_b idx)"
proof -
  let ?c = "nat (ani_count idx)" and ?f = "free_below idx"
  have uc: "uint (ani_count idx) = ?c" using assms(4,5) by simp
  have "usub (uint (ani_count idx)) 1 = ?c - 1" unfolding uc using assms(4,5) by simp
  moreover have "min (Suc (?c - 1)) (8 * length (ani_b idx)) = ?c" using assms(4,6) by simp
  ultimately have r: "bm_IndexesInRange (ani_b idx) False 0 (usub (uint (ani_count idx)) 1) = Some ?f"
    unfolding bm_IndexesInRange_eq free_below_def by (metis (full_types))
  have "\<forall>i \<in> set ?f. i < 8 * length (ani_b idx)" using assms(6) by (auto simp: free_below_def)
  from pick_names_spec [of ?f idx "[]" n "\<lambda>_. False" n, OF this] assms(1,3)
  obtain b where b: "pick_names (\<lambda>_. False) n ?f n [] idx =
      Some (n \<le> length ?f, if n \<le> length ?f then 0 else if ?f = [] then n else n - length ?f,
            map (ani_name idx) (take n ?f), idx\<lparr>ani_b := b\<rparr>)"
    "bm_bits b = bm_bits (ani_b idx) \<union> set (take n ?f)" "length b = length (ani_b idx)"
    by (auto simp: Let_def)
  show ?thesis
  proof (cases "n \<le> length ?f")
    case True
    then show ?thesis using r b by (intro exI [of _ b]) (simp add: Next_def)
  next
    case False
    have "\<forall>i \<in> set [0..<n - length ?f]. i < 8 * length (ani_b (idx\<lparr>ani_b := b\<rparr>))" using b(3) assms(2) by auto
    from append_names_spec [OF this, of "map (ani_name idx) (take n ?f)"]
    obtain c where c: "append_names [0..<n - length ?f] (map (ani_name idx) (take n ?f)) (idx\<lparr>ani_b := b\<rparr>) =
        Some (map (ani_name idx) (take n ?f) @ map (ani_name idx) [0..<n - length ?f], idx\<lparr>ani_b := c\<rparr>)"
      "bm_bits c = bm_bits b \<union> set [0..<n - length ?f]" "length c = length b"
      by auto
    have e: "(if ?f = [] then n else n - length ?f) = n - length ?f" by simp
    show ?thesis
      using False r b c by (intro exI [of _ c]) (auto simp: Next_def e)
  qed
qed

lemma idx_with:
  "ani_b (idx\<lparr>ani_b := b\<rparr>) = b" "ani_job (idx\<lparr>ani_b := b\<rparr>) = ani_job idx"
  "ani_taskGroup (idx\<lparr>ani_b := b\<rparr>) = ani_taskGroup idx" "idx\<lparr>ani_b := b, ani_b := c\<rparr> = idx\<lparr>ani_b := c\<rparr>"
  by simp_all

lemma highest_loop_spec:
  assumes "i \<le> 8 * length (ani_b idx)" "\<forall>k < i. ani_name idx k \<notin> set h"
  shows "\<exists>b. highest_loop idx n i h =
      (let top = take (n - length h) (rev (filter (\<lambda>k. k \<in> bm_bits (ani_b idx)) [0..<i]))
       in Some (rev (map (ani_name idx) top) @ h, idx\<lparr>ani_b := b\<rparr>)) \<and>
      bm_bits b = bm_bits (ani_b idx) - set (take (n - length h) (rev (filter (\<lambda>k. k \<in> bm_bits (ani_b idx)) [0..<i]))) \<and>
      length b = length (ani_b idx)"
  using assms
proof (induction i arbitrary: idx h)
  case 0
  then show ?case by (intro exI [of _ "ani_b idx"]) (simp add: Let_def)
next
  case (Suc i)
  let ?bits = "bm_bits (ani_b idx)"
  show ?case
  proof (cases "length h < n")
    case False
    then show ?thesis by (intro exI [of _ "ani_b idx"]) (simp add: Let_def)
  next
    case True
    have chk: "bm_Check (ani_b idx) i = Some (i \<in> ?bits)" using Suc.prems(1) by (simp add: bm_Check_eq)
    show ?thesis
    proof (cases "i \<in> ?bits")
      case False
      then show ?thesis using Suc.IH [of idx h] Suc.prems True chk by simp
    next
      case bit: True
      obtain b where b: "bm_Unset (ani_b idx) i = Some b"
        using Suc.prems(1) by (simp add: bm_Unset_def Let_def)
      note bb = bm_Unset_bits [OF b]
      have new: "ani_name idx i \<notin> set h" using Suc.prems(2) by blast
      have f: "filter (\<lambda>k. k \<in> ?bits - {i}) [0..<i] = filter (\<lambda>k. k \<in> ?bits) [0..<i]"
        by (rule filter_cong) auto
      have k: "n - length h = Suc (n - Suc (length h))" using True by simp
      have "i \<le> 8 * length b" "\<forall>k < i. ani_name idx k \<notin> set (ani_name idx i # h)" using Suc.prems bb(2) by auto
      then obtain c where c: "highest_loop (idx\<lparr>ani_b := b\<rparr>) n i (ani_name idx i # h) =
          Some (rev (map (ani_name idx) (take (n - Suc (length h)) (rev (filter (\<lambda>k. k \<in> ?bits) [0..<i])))) @ ani_name idx i # h,
                idx\<lparr>ani_b := c\<rparr>)"
        "bm_bits c = ?bits - {i} - set (take (n - Suc (length h)) (rev (filter (\<lambda>k. k \<in> ?bits) [0..<i])))"
        "length c = length b"
        using Suc.IH [of "idx\<lparr>ani_b := b\<rparr>" "ani_name idx i # h"] unfolding Let_def
        by (simp only: idx_with bb f list.size add_0_right add_Suc_right simp_thms) blast
      have u: "rev (filter (\<lambda>k. k \<in> ?bits) [0..<Suc i]) = i # rev (filter (\<lambda>k. k \<in> ?bits) [0..<i])"
        using bit by simp
      have step: "highest_loop idx n (Suc i) h = highest_loop (idx\<lparr>ani_b := b\<rparr>) n i (ani_name idx i # h)"
        using True chk bit b new by simp
      have "bm_bits c = ?bits - set (i # take (n - Suc (length h)) (rev (filter (\<lambda>k. k \<in> ?bits) [0..<i])))"
        unfolding c(2) set_simps by blast
      then show ?thesis unfolding step u k take_Suc_Cons c(1) Let_def
        by (intro exI [of _ c] conjI) (simp_all only: c(3) bb list.map rev.simps append_assoc append.simps)
    qed
  qed
qed

text \<open>The \<open>n\<close> highest indexes in use.\<close>

definition highest_used :: "nat \<Rightarrow> alloc_name_index \<Rightarrow> nat list" where
  "highest_used n idx = take n (rev (filter (\<lambda>k. k \<in> bm_bits (ani_b idx)) [0..<8 * length (ani_b idx)]))"

lemma Highest_spec:
  "\<exists>b. Highest n idx = Some (rev (map (ani_name idx) (highest_used n idx)), idx\<lparr>ani_b := b\<rparr>) \<and>
     bm_bits b = bm_bits (ani_b idx) - set (highest_used n idx) \<and> length b = length (ani_b idx)"
  using highest_loop_spec [of "8 * length (ani_b idx)" idx "[]" n]
  by (simp add: Highest_def highest_used_def Let_def)

lemma bits_below: "{k \<in> {0..<8 * length b}. k \<in> bm_bits b} = bm_bits b"
  by (auto simp: bm_bits_def)

lemma finite_bits [simp]: "finite (bm_bits b)"
  by (rule finite_subset [of _ "{..<8 * length b}"]) (auto simp: bm_bits_def)

lemma set_take_drop: "set xs = set (take n xs) \<union> set (drop n xs)"
  using set_append [of "take n xs" "drop n xs"] by simp

lemma highest_used_facts:
  "distinct (highest_used n idx)" "set (highest_used n idx) \<subseteq> bm_bits (ani_b idx)"
  "length (highest_used n idx) = min n (card (bm_bits (ani_b idx)))"
  "\<lbrakk>i \<in> set (highest_used n idx); j \<in> bm_bits (ani_b idx); j \<notin> set (highest_used n idx)\<rbrakk> \<Longrightarrow> j < i"
proof -
  let ?xs = "filter (\<lambda>k. k \<in> bm_bits (ani_b idx)) [0..<8 * length (ani_b idx)]"
  have s: "set ?xs = bm_bits (ani_b idx)" by (auto simp: bm_bits_def)
  have d: "distinct ?xs" by simp
  show "distinct (highest_used n idx)" by (simp add: highest_used_def)
  show "set (highest_used n idx) \<subseteq> bm_bits (ani_b idx)"
    unfolding highest_used_def using set_take_subset [of n "rev ?xs"] s by simp
  show "length (highest_used n idx) = min n (card (bm_bits (ani_b idx)))"
    unfolding highest_used_def using distinct_card [OF d] s by (simp add: min.commute)
  assume i: "i \<in> set (highest_used n idx)" and j: "j \<in> bm_bits (ani_b idx)" "j \<notin> set (highest_used n idx)"
  have srt: "sorted_wrt (>) (rev ?xs)" by (simp add: sorted_wrt_rev sorted_wrt_filter)
  from j s have "j \<in> set (rev ?xs)" by auto
  then have "j \<in> set (take n (rev ?xs)) \<or> j \<in> set (drop n (rev ?xs))"
    unfolding set_take_drop [of "rev ?xs" n] by (rule UnE) blast+
  with j(2) have "j \<in> set (drop n (rev ?xs))" by (simp add: highest_used_def)
  moreover have "sorted_wrt (>) (take n (rev ?xs) @ drop n (rev ?xs))" using srt by simp
  ultimately show "j < i" using i unfolding sorted_wrt_append highest_used_def by blast
qed

end
