(* ===== verification/Reconcile.thy ===== *)
theory Reconcile
  imports Reconcile_Util
begin

text \<open>
  \<^verbatim>\<open>scheduler/reconcile.go\<close>: the reconciler of service and batch jobs, which compares a job with its
  allocations and decides what to place, update, migrate and stop.

  The methods take the reconciler and return it updated; a panic is \<open>None\<close>. The function
  \<open>allocUpdateFn\<close>, which the scheduler passes in, is a field. The iteration order of a Go map is the
  order of its association list; the order of the task groups in \<open>Compute\<close> is a parameter, as is
  the ID of a new deployment. Logging is left out.
\<close>

section \<open>Data\<close>

definition allocNotNeeded :: string where "allocNotNeeded = ''alloc not needed due to job update''"
definition allocMigrating :: string where "allocMigrating = ''alloc is being migrated''"
definition allocUpdating :: string where "allocUpdating = ''alloc is being updated due to job update''"
definition allocLost :: string where "allocLost = ''alloc is lost since its node is down''"
definition allocNodeTainted :: string where "allocNodeTainted = ''alloc not needed as node is tainted''"

definition DescriptionRunningNeedsPromotion :: string where
  "DescriptionRunningNeedsPromotion = ''Deployment is running but requires promotion''"
definition DescriptionSuccessful :: string where "DescriptionSuccessful = ''Deployment completed successfully''"
definition DescriptionStoppedJob :: string where "DescriptionStoppedJob = ''Cancelled because job is stopped''"
definition DescriptionNewerJob :: string where "DescriptionNewerJob = ''Cancelled due to newer version of job''"

record desired_updates =
  du_Ignore :: nat
  du_Place :: nat
  du_Migrate :: nat
  du_Stop :: nat
  du_InPlaceUpdate :: nat
  du_DestructiveUpdate :: nat
  du_Canary :: nat

definition no_updates :: desired_updates where
  "no_updates = \<lparr>du_Ignore = 0, du_Place = 0, du_Migrate = 0, du_Stop = 0, du_InPlaceUpdate = 0,
     du_DestructiveUpdate = 0, du_Canary = 0\<rparr>"

text \<open>\<open>x += uint64(y)\<close>\<close>

definition uadd :: "int \<Rightarrow> nat \<Rightarrow> nat" where
  "uadd y x = uint (int x + y)"

record alloc_place_result =
  ap_name :: string
  ap_canary :: bool
  ap_taskGroup :: task_group
  ap_previousAlloc :: "allocation option"

record alloc_stop_result =
  as_alloc :: allocation
  as_clientStatus :: string
  as_statusDescription :: string

record reconcile_results =
  rr_deployment :: "deployment option"
  rr_deploymentUpdates :: "deployment_status_update list"
  rr_place :: "alloc_place_result list"
  rr_inplaceUpdate :: "allocation option list"
  rr_stop :: "alloc_stop_result list"
  rr_desiredTGUpdates :: "(string \<times> desired_updates) list"
  rr_followupEvalWait :: int

definition no_results :: reconcile_results where
  "no_results = \<lparr>rr_deployment = None, rr_deploymentUpdates = [], rr_place = [], rr_inplaceUpdate = [],
     rr_stop = [], rr_desiredTGUpdates = [], rr_followupEvalWait = 0\<rparr>"

definition Changes :: "reconcile_results \<Rightarrow> int" where
  "Changes r = wrap64 (int (length (rr_place r)) + int (length (rr_inplaceUpdate r)) + int (length (rr_stop r)))"

type_synonym alloc_update_fn = "allocation \<Rightarrow> job \<Rightarrow> task_group \<Rightarrow> bool \<times> bool \<times> allocation option"

record alloc_reconciler =
  r_allocUpdateFn :: alloc_update_fn
  r_batch :: bool
  r_job :: "job option"
  r_jobID :: string
  r_oldDeployment :: "deployment option"
  r_deployment :: "deployment option"
  r_deploymentPaused :: bool
  r_deploymentFailed :: bool
  r_taintedNodes :: "string \<rightharpoonup> node option"
  r_existingAllocs :: "allocation list"
  r_result :: reconcile_results

definition NewAllocReconciler ::
  "alloc_update_fn \<Rightarrow> bool \<Rightarrow> string \<Rightarrow> job option \<Rightarrow> deployment option \<Rightarrow> allocation list \<Rightarrow>
   (string \<rightharpoonup> node option) \<Rightarrow> alloc_reconciler" where
  "NewAllocReconciler allocUpdateFn batch jobID job deployment existingAllocs taintedNodes =
     \<lparr>r_allocUpdateFn = allocUpdateFn, r_batch = batch, r_job = job, r_jobID = jobID,
      r_oldDeployment = None, r_deployment = deployment, r_deploymentPaused = False, r_deploymentFailed = False,
      r_taintedNodes = taintedNodes, r_existingAllocs = existingAllocs, r_result = no_results\<rparr>"

section \<open>Marking results\<close>

definition add_stop :: "alloc_stop_result list \<Rightarrow> alloc_reconciler \<Rightarrow> alloc_reconciler" where
  "add_stop xs r = r\<lparr>r_result := (r_result r)\<lparr>rr_stop := rr_stop (r_result r) @ xs\<rparr>\<rparr>"

definition add_place :: "alloc_place_result list \<Rightarrow> alloc_reconciler \<Rightarrow> alloc_reconciler" where
  "add_place xs r = r\<lparr>r_result := (r_result r)\<lparr>rr_place := rr_place (r_result r) @ xs\<rparr>\<rparr>"

definition add_update :: "deployment_status_update \<Rightarrow> alloc_reconciler \<Rightarrow> alloc_reconciler" where
  "add_update u r = r\<lparr>r_result := (r_result r)\<lparr>rr_deploymentUpdates := rr_deploymentUpdates (r_result r) @ [u]\<rparr>\<rparr>"

definition set_desired :: "string \<Rightarrow> desired_updates \<Rightarrow> alloc_reconciler \<Rightarrow> alloc_reconciler" where
  "set_desired grp dc r =
     r\<lparr>r_result := (r_result r)\<lparr>rr_desiredTGUpdates := amap_put grp dc (rr_desiredTGUpdates (r_result r))\<rparr>\<rparr>"

abbreviation stop_of :: "string \<Rightarrow> string \<Rightarrow> allocation \<Rightarrow> alloc_stop_result" where
  "stop_of clientStatus desc a \<equiv> \<lparr>as_alloc = a, as_clientStatus = clientStatus, as_statusDescription = desc\<rparr>"

abbreviation replace_of :: "task_group \<Rightarrow> allocation \<Rightarrow> alloc_place_result" where
  "replace_of tg a \<equiv> \<lparr>ap_name = a_Name a, ap_canary = False, ap_taskGroup = tg, ap_previousAlloc = Some a\<rparr>"

definition markStop :: "alloc_set \<Rightarrow> string \<Rightarrow> string \<Rightarrow> alloc_reconciler \<Rightarrow> alloc_reconciler" where
  "markStop allocs clientStatus statusDescription r = add_stop (map (stop_of clientStatus statusDescription \<circ> snd) allocs) r"

section \<open>Deployments and stopped jobs\<close>

definition status_update :: "deployment \<Rightarrow> string \<Rightarrow> string \<Rightarrow> deployment_status_update" where
  "status_update d status desc = \<lparr>dsu_DeploymentID = d_ID d, dsu_Status = status, dsu_StatusDescription = desc\<rparr>"

definition cancelDeployments :: "alloc_reconciler \<Rightarrow> alloc_reconciler" where
  "cancelDeployments r =
     (if job_Stopped (r_job r)
      then let r1 = (case r_deployment r of
                       Some d \<Rightarrow> if deployment_Active d
                                 then add_update (status_update d DeploymentStatusCancelled DescriptionStoppedJob) r
                                 else r
                     | None \<Rightarrow> r)
           in r1\<lparr>r_oldDeployment := r_deployment r1, r_deployment := None\<rparr>
      else case (r_deployment r, r_job r) of
        (Some d, Some job) \<Rightarrow>
          (let r1 = (if d_JobCreateIndex d \<noteq> j_CreateIndex job \<or> d_JobVersion d \<noteq> j_Version job
                     then (if deployment_Active d
                           then add_update (status_update d DeploymentStatusCancelled DescriptionNewerJob) r
                           else r)\<lparr>r_oldDeployment := Some d, r_deployment := None\<rparr>
                     else r)
           in if d_Status d = DeploymentStatusSuccessful
              then r1\<lparr>r_oldDeployment := Some d, r_deployment := None\<rparr>
              else r1)
      | _ \<Rightarrow> r)"

text \<open>Stop a whole group: the lost allocations are marked as such.\<close>

definition stop_group :: "alloc_set \<Rightarrow> alloc_reconciler \<Rightarrow> (nat \<times> alloc_reconciler) option" where
  "stop_group as r =
     Option.bind (filterByTainted (r_taintedNodes r) as) (\<lambda>(untainted, migrate, lost).
       Some (length untainted + length migrate + length lost,
             markStop lost AllocClientStatusLost allocLost
               (markStop migrate '''' allocNotNeeded (markStop untainted '''' allocNotNeeded r))))"

fun handleStop :: "alloc_matrix \<Rightarrow> alloc_reconciler \<Rightarrow> alloc_reconciler option" where
  "handleStop [] r = Some r"
| "handleStop ((grp, as) # m) r =
     Option.bind (stop_group as r) (\<lambda>(_, r1).
       handleStop m (set_desired grp (no_updates\<lparr>du_Stop := length as\<rparr>) r1))"

section \<open>One task group\<close>

definition unpromoted_canaries :: "deployment \<Rightarrow> string list" where
  "unpromoted_canaries d = concat (map (\<lambda>(_, s). if ds_Promoted s then [] else ds_PlacedCanaries s) (d_TaskGroups d))"

definition placed_canaries :: "deployment \<Rightarrow> string list" where
  "placed_canaries d = concat (map (\<lambda>(_, s). ds_PlacedCanaries s) (d_TaskGroups d))"

text \<open>The canaries of an older or failed deployment that was not promoted.\<close>

definition stale_canaries :: "alloc_reconciler \<Rightarrow> string list" where
  "stale_canaries r =
     (case r_oldDeployment r of Some d \<Rightarrow> unpromoted_canaries d | None \<Rightarrow> []) @
     (case r_deployment r of
        Some d \<Rightarrow> if d_Status d = DeploymentStatusFailed then unpromoted_canaries d else []
      | None \<Rightarrow> [])"

definition handleGroupCanaries ::
  "alloc_set \<Rightarrow> desired_updates \<Rightarrow> alloc_reconciler \<Rightarrow>
   (alloc_set \<times> alloc_set \<times> desired_updates \<times> alloc_reconciler) option" where
  "handleGroupCanaries all dc r =
     (let stopSet = fromKeys all [stale_canaries r];
          r1 = markStop stopSet '''' allocNotNeeded r;
          dc1 = dc\<lparr>du_Stop := uadd (int (length stopSet)) (du_Stop dc)\<rparr>;
          all1 = difference all [stopSet]
      in case r_deployment r1 of
           None \<Rightarrow> Some ([], all1, dc1, r1)
         | Some d \<Rightarrow>
             (let canaries = fromKeys all1 [placed_canaries d]
              in Option.bind (filterByTainted (r_taintedNodes r1) canaries) (\<lambda>(untainted, migrate, lost).
                   Some (untainted, difference all1 [migrate, lost], dc1,
                         markStop lost AllocClientStatusLost allocLost (markStop migrate '''' allocMigrating r1)))))"

text \<open>The loop over the allocations of the deployment, with its early return.\<close>

fun limit_loop :: "allocation list \<Rightarrow> int \<Rightarrow> int" where
  "limit_loop [] limit = limit"
| "limit_loop (a # as) limit =
     (if ads_IsUnhealthy (a_DeploymentStatus a) then 0
      else limit_loop as (if \<not> ads_IsHealthy (a_DeploymentStatus a) then wrap64 (limit - 1) else limit))"

definition computeLimit ::
  "task_group \<Rightarrow> alloc_set \<Rightarrow> alloc_set \<Rightarrow> alloc_set \<Rightarrow> bool \<Rightarrow> alloc_reconciler \<Rightarrow> int" where
  "computeLimit tg untainted destructive migrate canaryState r =
     (case tg_Update tg of
        None \<Rightarrow> tg_Count tg
      | Some strategy \<Rightarrow>
          if length destructive + length migrate = 0 then tg_Count tg
          else if r_deploymentPaused r \<or> r_deploymentFailed r then 0
          else if canaryState then 0
          else case r_deployment r of
                 None \<Rightarrow> us_MaxParallel strategy
               | Some d \<Rightarrow> limit_loop (map snd (fst (filterByDeployment (d_ID d) untainted))) (us_MaxParallel strategy))"

definition computePlacements ::
  "task_group \<Rightarrow> alloc_name_index \<Rightarrow> alloc_set \<Rightarrow> alloc_set \<Rightarrow>
   (alloc_place_result list \<times> alloc_name_index) option" where
  "computePlacements tg nameIndex untainted migrate =
     (let existing = int (length untainted + length migrate)
      in if existing \<ge> tg_Count tg then Some ([], nameIndex)
         else Option.bind (Next (uint (tg_Count tg - existing)) nameIndex) (\<lambda>(names, nameIndex').
           Some (map (\<lambda>name. \<lparr>ap_name = name, ap_canary = False, ap_taskGroup = tg, ap_previousAlloc = None\<rparr>) names,
                 nameIndex')))"

text \<open>
  The loops of \<open>computeStop\<close>. The first two answer whether enough allocations were found, in which
  case the method returns, and how many are still to be removed.
\<close>

fun stop_same_name ::
  "string list \<Rightarrow> alloc_set \<Rightarrow> int \<Rightarrow> alloc_set \<Rightarrow> alloc_set \<Rightarrow> alloc_reconciler \<Rightarrow>
   bool \<times> int \<times> alloc_set \<times> alloc_set \<times> alloc_reconciler" where
  "stop_same_name names [] remove stop untainted r = (False, remove, stop, untainted, r)"
| "stop_same_name names ((k, a) # as) remove stop untainted r =
     (if a_Name a \<in> set names
      then let stop' = amap_put k a stop; untainted' = amap_del k untainted; remove' = remove - 1;
               r' = add_stop [stop_of '''' allocNotNeeded a] r
           in if remove' = 0 then (True, remove', stop', untainted', r')
              else stop_same_name names as remove' stop' untainted' r'
      else stop_same_name names as remove stop untainted r)"

fun stop_migrating ::
  "string list \<Rightarrow> alloc_set \<Rightarrow> int \<Rightarrow> alloc_set \<Rightarrow> alloc_set \<Rightarrow> alloc_name_index \<Rightarrow> alloc_reconciler \<Rightarrow>
   (bool \<times> int \<times> alloc_set \<times> alloc_set \<times> alloc_name_index \<times> alloc_reconciler) option" where
  "stop_migrating names [] remove stop migrate nameIndex r = Some (False, remove, stop, migrate, nameIndex, r)"
| "stop_migrating names ((k, a) # as) remove stop migrate nameIndex r =
     (if a_Name a \<notin> set names then stop_migrating names as remove stop migrate nameIndex r
      else Option.bind (UnsetIndex (alloc_Index a) nameIndex) (\<lambda>nameIndex'.
        let r' = add_stop [stop_of '''' allocNotNeeded a] r; migrate' = amap_del k migrate;
            stop' = amap_put k a stop; remove' = remove - 1
        in if remove' = 0 then Some (True, remove', stop', migrate', nameIndex', r')
           else stop_migrating names as remove' stop' migrate' nameIndex' r'))"

fun stop_highest ::
  "string list \<Rightarrow> alloc_set \<Rightarrow> alloc_set \<Rightarrow> alloc_reconciler \<Rightarrow> alloc_set \<times> alloc_reconciler" where
  "stop_highest names [] stop r = (stop, r)"
| "stop_highest names ((k, a) # as) stop r =
     (if a_Name a \<in> set names
      then stop_highest names as (amap_put k a stop) (add_stop [stop_of '''' allocNotNeeded a] r)
      else stop_highest names as stop r)"

text \<open>
  \<open>computeStop\<close> deletes from the set of migrating allocations of its caller, so that set is
  returned too. What it deletes from the caller's \<open>untainted\<close> is in the stop set, which the
  caller subtracts.
\<close>

definition computeStop ::
  "task_group \<Rightarrow> alloc_name_index \<Rightarrow> alloc_set \<Rightarrow> alloc_set \<Rightarrow> alloc_set \<Rightarrow> alloc_set \<Rightarrow> bool \<Rightarrow> alloc_reconciler \<Rightarrow>
   (alloc_set \<times> alloc_set \<times> alloc_name_index \<times> alloc_reconciler) option" where
  "computeStop tg nameIndex untainted migrate lost canaries canaryState r =
     (let stop = alloc_union [] [lost];
          r1 = markStop lost AllocClientStatusLost allocLost r;
          untainted1 = (if canaryState then difference untainted [canaries] else untainted);
          remove = wrap64 (int (length untainted1 + length migrate) - tg_Count tg)
      in if remove \<le> 0 then Some (stop, migrate, nameIndex, r1)
         else
           let (done1, remove1, stop1, untainted2, r2) =
                 (if \<not> canaryState \<and> length canaries \<noteq> 0
                  then stop_same_name (nameSet canaries) (difference untainted1 [canaries]) remove stop untainted1 r1
                  else (False, remove, stop, untainted1, r1))
           in if done1 then Some (stop1, migrate, nameIndex, r2)
              else Option.bind
                (if length migrate \<noteq> 0
                 then Option.bind (newAllocNameIndex (r_jobID r) (tg_Name tg) (tg_Count tg) migrate) (\<lambda>mNames.
                      Option.bind (Highest (uint remove1) mNames) (\<lambda>(removeNames, _).
                        stop_migrating removeNames migrate remove1 stop1 migrate nameIndex r2))
                 else Some (False, remove1, stop1, migrate, nameIndex, r2))
                (\<lambda>(done2, remove2, stop2, migrate2, nameIndex2, r3).
                   if done2 then Some (stop2, migrate2, nameIndex2, r3)
                   else Option.bind (Highest (uint remove2) nameIndex2) (\<lambda>(removeNames, nameIndex3).
                     let (stop3, r4) = stop_highest removeNames untainted2 stop2 r3
                     in Some (stop3, migrate2, nameIndex3, r4))))"

text \<open>A job that is nil is passed on to \<open>allocUpdateFn\<close> only after it has been dereferenced.\<close>

fun computeUpdates ::
  "job \<Rightarrow> task_group \<Rightarrow> alloc_set \<Rightarrow> alloc_set \<times> alloc_set \<times> alloc_set \<Rightarrow> alloc_reconciler \<Rightarrow>
   (alloc_set \<times> alloc_set \<times> alloc_set) \<times> alloc_reconciler" where
  "computeUpdates job tg [] sets r = (sets, r)"
| "computeUpdates job tg ((k, a) # as) (ignore, inplace, destructive) r =
     (case r_allocUpdateFn r a job tg of
        (ignoreChange, destructiveChange, inplaceAlloc) \<Rightarrow>
          if ignoreChange then computeUpdates job tg as (amap_put (a_ID a) a ignore, inplace, destructive) r
          else if destructiveChange then computeUpdates job tg as (ignore, inplace, amap_put (a_ID a) a destructive) r
          else computeUpdates job tg as (ignore, amap_put (a_ID a) a inplace, destructive)
                 (r\<lparr>r_result := (r_result r)\<lparr>rr_inplaceUpdate := rr_inplaceUpdate (r_result r) @ [inplaceAlloc]\<rparr>\<rparr>))"

text \<open>The deployment state of a group, and whether the deployment has it.\<close>

definition group_state :: "string \<Rightarrow> task_group \<Rightarrow> alloc_reconciler \<Rightarrow> deployment_state \<times> bool" where
  "group_state grp tg r =
     (case Option.bind (r_deployment r) (\<lambda>d. map_of (d_TaskGroups d) grp) of
        Some s \<Rightarrow> (s, True)
      | None \<Rightarrow>
          (\<lparr>ds_AutoRevert = (case tg_Update tg of Some u \<Rightarrow> us_AutoRevert u | None \<Rightarrow> False), ds_Promoted = False,
            ds_PlacedCanaries = [], ds_DesiredCanaries = 0, ds_DesiredTotal = 0, ds_PlacedAllocs = 0,
            ds_HealthyAllocs = 0, ds_UnhealthyAllocs = 0\<rparr>, False))"

definition in_canary_state :: "deployment_state \<Rightarrow> bool" where
  "in_canary_state s \<longleftrightarrow> ds_DesiredCanaries s \<noteq> 0 \<and> \<not> ds_Promoted s"

definition add_total :: "bool \<Rightarrow> nat \<Rightarrow> deployment_state \<Rightarrow> deployment_state" where
  "add_total existing n s = (if existing then s else s\<lparr>ds_DesiredTotal := wrap64 (ds_DesiredTotal s + int n)\<rparr>)"

definition needs_canary :: "task_group \<Rightarrow> deployment_state \<Rightarrow> alloc_set \<Rightarrow> alloc_set \<Rightarrow> bool" where
  "needs_canary tg s canaries destructive \<longleftrightarrow>
     length destructive \<noteq> 0 \<and>
     (case tg_Update tg of None \<Rightarrow> False | Some strategy \<Rightarrow> int (length canaries) < us_Canary strategy) \<and>
     \<not> ds_Promoted s"

text \<open>Ask for canaries: the \<open>requireCanary\<close> branch.\<close>

definition place_canaries ::
  "task_group \<Rightarrow> bool \<Rightarrow> alloc_set \<Rightarrow> alloc_set \<Rightarrow> alloc_name_index \<Rightarrow> desired_updates \<Rightarrow> deployment_state \<Rightarrow> alloc_reconciler \<Rightarrow>
   (alloc_name_index \<times> desired_updates \<times> deployment_state \<times> alloc_reconciler) option" where
  "place_canaries tg existing canaries destructive nameIndex dc s r =
     (case tg_Update tg of
        None \<Rightarrow> Some (nameIndex, dc, s, r)
      | Some strategy \<Rightarrow>
          if needs_canary tg s canaries destructive \<and> \<not> r_deploymentPaused r \<and> \<not> r_deploymentFailed r
          then let number = min (int (length destructive)) (us_Canary strategy - int (length canaries));
                   dc1 = dc\<lparr>du_Canary := uadd number (du_Canary dc)\<rparr>;
                   s1 = (if existing then s else s\<lparr>ds_DesiredCanaries := us_Canary strategy\<rparr>)
               in Option.bind (NextCanaries (uint number) canaries destructive nameIndex) (\<lambda>(names, nameIndex1).
                    Some (nameIndex1, dc1, s1,
                      add_place (map (\<lambda>name. \<lparr>ap_name = name, ap_canary = True, ap_taskGroup = tg, ap_previousAlloc = None\<rparr>) names) r))
          else Some (nameIndex, dc, s, r))"

text \<open>Place and update: a negative limit makes the slice expression panic.\<close>

definition place_and_update ::
  "task_group \<Rightarrow> alloc_set \<Rightarrow> alloc_place_result list \<Rightarrow> bool \<Rightarrow> int \<Rightarrow> desired_updates \<Rightarrow> alloc_reconciler \<Rightarrow>
   (int \<times> desired_updates \<times> alloc_reconciler) option" where
  "place_and_update tg destructive place canaryState limit dc r =
     (if \<not> r_deploymentPaused r \<and> \<not> r_deploymentFailed r \<and> \<not> canaryState
      then let n = int (length destructive); m = min n limit
           in if m < 0 then None
              else let dc1 = dc\<lparr>du_Place := uadd (int (length place)) (du_Place dc),
                                du_DestructiveUpdate := uadd m (du_DestructiveUpdate dc),
                                du_Ignore := uadd (n - m) (du_Ignore dc)\<rparr>;
                       xs = take (nat m) (nameOrder destructive)
                   in Some (limit - m, dc1,
                        add_place (map (replace_of tg) xs)
                          (add_stop (map (stop_of '''' allocUpdating) xs) (add_place place r)))
      else Some (limit, dc\<lparr>du_Ignore := uadd (int (length destructive)) (du_Ignore dc)\<rparr>, r))"

definition count_migrations :: "alloc_set \<Rightarrow> int \<Rightarrow> desired_updates \<Rightarrow> alloc_reconciler \<Rightarrow> desired_updates" where
  "count_migrations migrate limit dc r =
     (let n = int (length migrate); m = min n limit
      in if \<not> r_deploymentFailed r \<and> \<not> r_deploymentPaused r
         then dc\<lparr>du_Migrate := uadd m (du_Migrate dc), du_Ignore := uadd (n - m) (du_Ignore dc)\<rparr>
         else dc\<lparr>du_Stop := uadd n (du_Stop dc)\<rparr>)"

fun migrate_loop :: "task_group \<Rightarrow> int \<Rightarrow> allocation list \<Rightarrow> int \<Rightarrow> alloc_reconciler \<Rightarrow> bool \<times> alloc_reconciler" where
  "migrate_loop tg limit [] migrated r = (False, r)"
| "migrate_loop tg limit (a # as) migrated r =
     (if r_deploymentFailed r \<or> r_deploymentPaused r
      then migrate_loop tg limit as migrated (add_stop [stop_of '''' allocNodeTainted a] r)
      else if migrated \<ge> limit then (True, r)
      else migrate_loop tg limit as (migrated + 1)
             (add_place [replace_of tg a] (add_stop [stop_of '''' allocMigrating a] r)))"

definition followup_wait :: "task_group \<Rightarrow> bool \<Rightarrow> alloc_reconciler \<Rightarrow> alloc_reconciler" where
  "followup_wait tg followup r =
     (case tg_Update tg of
        None \<Rightarrow> r
      | Some strategy \<Rightarrow>
          if followup \<and> rr_followupEvalWait (r_result r) < us_Stagger strategy
          then r\<lparr>r_result := (r_result r)\<lparr>rr_followupEvalWait := us_Stagger strategy\<rparr>\<rparr> else r)"

definition create_deployment ::
  "string \<Rightarrow> string \<Rightarrow> job \<Rightarrow> task_group \<Rightarrow> deployment_state \<Rightarrow> alloc_reconciler \<Rightarrow> alloc_reconciler" where
  "create_deployment uuid grp job tg s r =
     (if r_deployment r = None \<and> tg_Update tg \<noteq> None \<and> ds_DesiredTotal s \<noteq> 0
      then let d = (NewDeployment uuid job)\<lparr>d_TaskGroups := [(grp, s)]\<rparr>
           in r\<lparr>r_deployment := Some d, r_result := (r_result r)\<lparr>rr_deployment := Some d\<rparr>\<rparr>
      else r)"

definition all_healthy :: "alloc_set \<Rightarrow> alloc_reconciler \<Rightarrow> bool" where
  "all_healthy untainted r =
     (case r_deployment r of
        None \<Rightarrow> True
      | Some d \<Rightarrow> list_all (\<lambda>(_, a). ads_IsHealthy (a_DeploymentStatus a)) (fst (filterByDeployment (d_ID d) untainted)))"

definition computeGroup ::
  "string \<Rightarrow> string \<Rightarrow> alloc_set \<Rightarrow> alloc_reconciler \<Rightarrow> (bool \<times> alloc_reconciler) option" where
  "computeGroup uuid grp all0 r =
     Option.bind (r_job r) (\<lambda>job.
     case LookupTaskGroup job grp of
       None \<Rightarrow>
         Option.bind (stop_group all0 r) (\<lambda>(n, r1).
           Some (True, set_desired grp (no_updates\<lparr>du_Stop := n\<rparr>) r1))
     | Some tg \<Rightarrow>
         let (s, existing) = group_state grp tg r in
         Option.bind (handleGroupCanaries all0 no_updates r) (\<lambda>(canaries, all1, dc1, r1).
         Option.bind (filterByTainted (r_taintedNodes r) all1) (\<lambda>(untainted0, migrate0, lost).
         Option.bind (newAllocNameIndex (r_jobID r) grp (tg_Count tg) (alloc_union untainted0 [migrate0])) (\<lambda>nameIndex0.
         Option.bind (computeStop tg nameIndex0 untainted0 migrate0 lost canaries (in_canary_state s) r1)
           (\<lambda>(stop, migrate, nameIndex1, r2).
         let untainted1 = difference untainted0 [stop];
             untainted = (if in_canary_state s then untainted1 else alloc_union untainted1 [canaries])
         in
         Option.bind (if in_canary_state s then Some nameIndex1 else ani_Set canaries nameIndex1) (\<lambda>nameIndex2.
         let ((ignore, inplace, destructive), r3) = computeUpdates job tg untainted ([], [], []) r2;
             dc2 = dc1\<lparr>du_Stop := uadd (int (length stop)) (du_Stop dc1),
                       du_Ignore := uadd (int (length ignore)) (du_Ignore dc1),
                       du_InPlaceUpdate := uadd (int (length inplace)) (du_InPlaceUpdate dc1)\<rparr>;
             s1 = add_total existing (length destructive + length inplace) s
         in
         Option.bind (place_canaries tg existing canaries destructive nameIndex2 dc2 s1 r3) (\<lambda>(nameIndex3, dc3, s2, r4).
         let limit = computeLimit tg untainted destructive migrate (in_canary_state s2) r4 in
         Option.bind (computePlacements tg nameIndex3 untainted migrate) (\<lambda>(place, nameIndex4).
         let s3 = add_total existing (length place) s2 in
         Option.bind (place_and_update tg destructive place (in_canary_state s2) limit dc3 r4) (\<lambda>(limit1, dc4, r5).
         let dc5 = count_migrations migrate limit1 dc4 r5;
             (followup, r6) = migrate_loop tg limit1 (nameOrder migrate) 0 r5;
             r7 = create_deployment uuid grp job tg s3 (followup_wait tg followup r6);
             complete = (length destructive + length inplace + length place + length migrate = 0 \<and>
                         \<not> needs_canary tg s1 canaries destructive)
         in Some (complete \<and> all_healthy untainted r7, set_desired grp dc5 r7))))))))))"

section \<open>The whole job\<close>

fun compute_groups :: "string \<Rightarrow> alloc_matrix \<Rightarrow> bool \<Rightarrow> alloc_reconciler \<Rightarrow> (bool \<times> alloc_reconciler) option" where
  "compute_groups uuid [] complete r = Some (complete, r)"
| "compute_groups uuid ((grp, as) # m) complete r =
     Option.bind (computeGroup uuid grp as r) (\<lambda>(groupComplete, r1).
       compute_groups uuid m (complete \<and> groupComplete) r1)"

definition detect_paused :: "alloc_reconciler \<Rightarrow> alloc_reconciler" where
  "detect_paused r =
     (case r_deployment r of
        None \<Rightarrow> r
      | Some d \<Rightarrow> r\<lparr>r_deploymentPaused := (d_Status d = DeploymentStatusPaused),
                   r_deploymentFailed := (d_Status d = DeploymentStatusFailed)\<rparr>)"

definition Compute ::
  "(alloc_matrix \<Rightarrow> alloc_matrix) \<Rightarrow> string \<Rightarrow> alloc_reconciler \<Rightarrow> reconcile_results option" where
  "Compute order uuid r =
     (let m = order (newAllocMatrix (r_job r) (r_existingAllocs r));
          r1 = cancelDeployments r
      in if job_Stopped (r_job r1) then map_option r_result (handleStop m r1)
         else Option.bind (compute_groups uuid m True (detect_paused r1)) (\<lambda>(complete, r2).
           let r3 = (case r_deployment r2 of
                       Some d \<Rightarrow> if complete
                                 then add_update (status_update d DeploymentStatusSuccessful DescriptionSuccessful) r2
                                 else r2
                     | None \<Rightarrow> r2);
               res = r_result r3
           in Some (case rr_deployment res of
                      Some d \<Rightarrow> if RequiresPromotion (Some d)
                                then res\<lparr>rr_deployment := Some (d\<lparr>d_StatusDescription := DescriptionRunningNeedsPromotion\<rparr>)\<rparr>
                                else res
                    | None \<Rightarrow> res)))"

end
