(* ===== verification/Reconcile_Correct.thy ===== *)
theory Reconcile_Correct
  imports Reconcile
begin

text \<open>
  What the reconciler promises. A group in good order ends with exactly its count of allocations; a
  rolling update replaces no more allocations at a time than its strategy allows; a deployment that is created knows
  one group; and more pending allocations than the strategy allows make the limit negative.
\<close>

section \<open>Well-formed allocation sets\<close>

text \<open>An allocation set is a map from the ID to the allocation.\<close>

definition alloc_set_ok :: "alloc_set \<Rightarrow> bool" where
  "alloc_set_ok as \<longleftrightarrow> distinct (map fst as) \<and> list_all (\<lambda>(k, a). k = a_ID a) as"

lemma alloc_set_ok_mset:
  "alloc_set_ok as \<longleftrightarrow> distinct (map fst as) \<and> (\<forall>p \<in># mset as. fst p = a_ID (snd p))"
  by (auto simp: alloc_set_ok_def list_all_iff)

lemma distinct_fst_sub: "distinct (map fst as) \<Longrightarrow> mset bs \<subseteq># mset as \<Longrightarrow> distinct (map fst bs)"
proof -
  assume d: "distinct (map fst as)" and s: "mset bs \<subseteq># mset as"
  have "mset (map fst bs) \<subseteq># mset (map fst as)" using image_mset_subseteq_mono [OF s, of fst] by simp
  then obtain cs where "mset (map fst as) = mset (map fst bs) + mset cs"
    by (metis ex_mset mset_subset_eq_exists_conv)
  then have "mset (map fst as) = mset (map fst bs @ cs)" by simp
  then have "distinct (map fst bs @ cs)" using d mset_eq_imp_distinct_iff by blast
  then show ?thesis by simp
qed

lemma alloc_set_ok_sub:
  assumes "alloc_set_ok as" "mset bs \<subseteq># mset as"
  shows "alloc_set_ok bs"
  using assms distinct_fst_sub [of as bs] mset_subset_eqD [OF assms(2)]
  unfolding alloc_set_ok_mset by blast

lemma filterByTainted_split:
  "filterByTainted nodes as = Some (u, m, l) \<Longrightarrow> list_all (\<lambda>(k, a). k = a_ID a) as \<Longrightarrow>
   mset as = mset u + mset m + mset l"
proof (induction as arbitrary: u m l)
  case (Cons p as)
  obtain k a where p: "p = (k, a)" by (cases p)
  from Cons.prems(1) obtain u1 m1 l1 where r: "filterByTainted nodes as = Some (u1, m1, l1)"
    unfolding p by (auto simp: bind_eq_Some_conv)
  have "(u, m, l) = ((a_ID a, a) # u1, m1, l1) \<or> (u, m, l) = (u1, (a_ID a, a) # m1, l1) \<or>
      (u, m, l) = (u1, m1, (a_ID a, a) # l1)"
    using Cons.prems(1) unfolding p filterByTainted.simps r
    by (simp split: option.splits if_splits)
  moreover have "k = a_ID a" "mset as = mset u1 + mset m1 + mset l1"
    using Cons.IH [OF r] Cons.prems(2) p by simp_all
  ultimately show ?case using p by auto
qed simp

lemma filterByTainted_ok:
  "list_all (\<lambda>(_, a). a_Job a \<noteq> None) as \<Longrightarrow> \<exists>u m l. filterByTainted nodes as = Some (u, m, l)"
  by (induction as) (auto split: option.splits)

lemma delete_filter: "AList.delete k as = filter (\<lambda>(k', _). k' \<noteq> k) as"
  by (induction as) auto

lemma fold_delete: "fold AList.delete ks as = filter (\<lambda>(k, _). k \<notin> set ks) as"
  by (induction ks arbitrary: as) (auto simp: delete_filter intro!: filter_cong)

lemma put_new: "k \<notin> fst ` set as \<Longrightarrow> AList.update k v as = as @ [(k, v)]"
  by (induction as) auto

lemma put_set: "set (AList.update k v as) \<subseteq> insert (k, v) (set as)"
  by (induction as) auto

lemma fold_put_new:
  "distinct (map fst xs) \<Longrightarrow> fst ` set xs \<inter> fst ` set acc = {} \<Longrightarrow>
   fold (\<lambda>(k, v) u. AList.update k v u) xs acc = acc @ xs"
proof (induction xs arbitrary: acc)
  case (Cons x xs)
  obtain k v where x: "x = (k, v)" by (cases x)
  have "k \<notin> fst ` set acc" using Cons.prems(2) x by auto
  then show ?case using Cons.IH [of "acc @ [(k, v)]"] Cons.prems x by (auto simp: put_new)
qed simp

lemma union_disjoint:
  assumes "distinct (map fst (as @ bs))"
  shows "alloc_union as [bs] = as @ bs"
  using assms fold_put_new [of as "[]"] fold_put_new [of bs as] by (simp add: alloc_union_def Int_commute)

lemma union_nil: "distinct (map fst as) \<Longrightarrow> alloc_union [] [as] = as"
  using union_disjoint [of "[]" as] by simp

lemma union_nil_right: "distinct (map fst as) \<Longrightarrow> alloc_union as [[]] = as"
  using union_disjoint [of as "[]"] by simp

lemma difference_single: "difference as [bs] = filter (\<lambda>(k, _). k \<notin> fst ` set bs) as"
  by (auto simp: difference_def map_of_eq_None_iff intro!: filter_cong)

text \<open>Keys decide membership in a part of a well-formed set.\<close>

lemma filter_key_part:
  assumes "distinct (map fst as)" "set bs \<subseteq> set as"
  shows "filter (\<lambda>(k, _). k \<notin> fst ` set bs) as = filter (\<lambda>p. p \<notin> set bs) as"
proof (rule filter_cong [OF refl])
  fix p assume p: "p \<in> set as"
  have "p \<in> set bs" if "fst p \<in> fst ` set bs"
  proof -
    from that obtain q where q: "q \<in> set bs" "fst q = fst p" by auto
    then have "q = p" using assms p by (metis (no_types) eq_key_imp_eq_value prod.collapse subsetD)
    then show ?thesis using q by simp
  qed
  moreover have "fst p \<in> fst ` set bs" if "p \<in> set bs" using that by simp
  ultimately show "(case p of (k, _) \<Rightarrow> k \<notin> fst ` set bs) \<longleftrightarrow> p \<notin> set bs" unfolding case_prod_unfold by blast
qed

section \<open>Stopping the surplus\<close>

text \<open>An index that the bitmaps of a group of \<open>cnt\<close> can always hold.\<close>

definition index_fits :: "int \<Rightarrow> allocation \<Rightarrow> bool" where
  "index_fits cnt a \<longleftrightarrow> alloc_Index a < 2 ^ 63 \<and>
     (8 dvd alloc_Index a \<longrightarrow> alloc_Index a = 0 \<or> int (alloc_Index a) < cnt)"

lemma newAllocNameIndex_ok:
  assumes "0 \<le> cnt" "cnt < 2 ^ 63" "length input < 2 ^ 63" "\<forall>p \<in> set input. index_fits cnt (snd p)"
  shows "\<exists>b. newAllocNameIndex j g cnt input = Some \<lparr>ani_job = j, ani_taskGroup = g, ani_count = cnt, ani_b = b\<rparr> \<and>
      bm_bits b = set (set_indexes input) \<and> nat cnt \<le> 8 * length b"
proof -
  have u: "uint cnt = nat cnt" using assms(1,2) by simp
  have top: "top_index input = 0 \<or> (\<exists>p \<in> set input. top_index input = alloc_Index (snd p))"
    using top_index_mem [of input] by fastforce
  then have "top_index input < 2 ^ 63"
  proof (elim disjE bexE)
    fix p assume "p \<in> set input" "top_index input = alloc_Index (snd p)"
    then show ?thesis using bspec [OF assms(4)] unfolding index_fits_def by presburger
  qed simp
  then have s: "small input (nat cnt)" using assms(1-3) by (auto simp: small_def nat_less_iff)
  have "\<not> misaligned input (nat cnt)"
  proof
    assume m: "misaligned input (nat cnt)"
    with top obtain p where p: "p \<in> set input" "top_index input = alloc_Index (snd p)" by (auto simp: misaligned_def)
    then have "index_fits cnt (snd p)" using assms(4) by blast
    then show False using m unfolding misaligned_def p(2) index_fits_def by auto
  qed
  then obtain b where b: "bitmapFrom input (nat cnt) = Some b" using bitmapFrom_cases(1) [OF s] by auto
  then show ?thesis
    using bitmapFrom_cases(2) [OF s b] bitmap_size_facts(3) [OF s] u by (simp add: newAllocNameIndex_def)
qed

lemma add_stop_add_stop [simp]: "add_stop ys (add_stop xs r) = add_stop (xs @ ys) r"
  by (simp add: add_stop_def)

lemma add_stop_nil [simp]: "add_stop [] r = r"
  by (simp add: add_stop_def)

abbreviation stops_of :: "alloc_set \<Rightarrow> alloc_stop_result list" where
  "stops_of as \<equiv> map (stop_of '''' allocNotNeeded \<circ> snd) as"

lemma stop_migrating_spec:
  assumes "0 < rmv" "distinct (map fst (stop @ as))" "\<forall>p \<in> set as. alloc_Index (snd p) < 8 * length (ani_b idx)"
  shows "\<exists>b. stop_migrating names as rmv stop migrate idx r =
      (let hits = filter (\<lambda>p. a_Name (snd p) \<in> set names) as; taken = take (nat rmv) hits
       in Some (nat rmv \<le> length hits, rmv - int (length taken), stop @ taken, fold AList.delete (map fst taken) migrate,
                idx\<lparr>ani_b := b\<rparr>, add_stop (stops_of taken) r)) \<and>
      bm_bits b = bm_bits (ani_b idx) - set (set_indexes (take (nat rmv) (filter (\<lambda>p. a_Name (snd p) \<in> set names) as))) \<and>
      length b = length (ani_b idx)"
  using assms
proof (induction as arbitrary: rmv stop migrate idx r)
  case Nil
  then show ?case by (intro exI [of _ "ani_b idx"]) (simp add: Let_def)
next
  case (Cons p as)
  obtain k a where p: "p = (k, a)" by (cases p)
  show ?case
  proof (cases "a_Name a \<in> set names")
    case False
    then show ?thesis using Cons.IH [of rmv stop idx migrate r] Cons.prems p by simp
  next
    case True
    let ?hits = "filter (\<lambda>p. a_Name (snd p) \<in> set names) as"
    obtain b where b: "bm_Unset (ani_b idx) (alloc_Index a) = Some b"
      using Cons.prems(3) p by (simp add: bm_Unset_def Let_def)
    note bb = bm_Unset_bits [OF b]
    have u: "UnsetIndex (alloc_Index a) idx = Some (idx\<lparr>ani_b := b\<rparr>)" using b by (simp add: UnsetIndex_def)
    have put: "amap_put k a stop = stop @ [p]" using Cons.prems(2) p by (intro put_new [of k stop a, folded p]) auto
    have nr: "nat rmv = Suc (nat (rmv - 1))" using Cons.prems(1) by simp
    have f: "filter (\<lambda>p. a_Name (snd p) \<in> set names) (p # as) = p # ?hits" using True p by simp
    show ?thesis
    proof (cases "rmv = 1")
      case one: True
      then show ?thesis using True p u put bb by (intro exI [of _ b]) (simp add: Let_def)
    next
      case False
      let ?t = "take (nat (rmv - 1)) ?hits"
      have "0 < rmv - 1" "distinct (map fst ((stop @ [p]) @ as))"
        "\<forall>q \<in> set as. alloc_Index (snd q) < 8 * length (ani_b (idx\<lparr>ani_b := b\<rparr>))"
        using Cons.prems False bb(2) by auto
      from Cons.IH [OF this, of "amap_del k migrate" "add_stop (stops_of [p]) r"]
      obtain c where c: "stop_migrating names as (rmv - 1) (stop @ [p]) (amap_del k migrate) (idx\<lparr>ani_b := b\<rparr>) (add_stop (stops_of [p]) r) =
          Some (nat (rmv - 1) \<le> length ?hits, rmv - 1 - int (length ?t), (stop @ [p]) @ ?t,
            fold AList.delete (map fst ?t) (amap_del k migrate), idx\<lparr>ani_b := b, ani_b := c\<rparr>, add_stop (stops_of ?t) (add_stop (stops_of [p]) r))"
        "bm_bits c = bm_bits (ani_b (idx\<lparr>ani_b := b\<rparr>)) - set (set_indexes ?t)" "length c = length (ani_b (idx\<lparr>ani_b := b\<rparr>))"
        unfolding Let_def by blast
      have step: "stop_migrating names (p # as) rmv stop migrate idx r =
          stop_migrating names as (rmv - 1) (stop @ [p]) (amap_del k migrate) (idx\<lparr>ani_b := b\<rparr>) (add_stop (stops_of [p]) r)"
        using True p u put False by (simp add: Let_def)
      have "bm_bits c = bm_bits (ani_b idx) - set (set_indexes (p # ?t))"
        unfolding c(2) idx_with bb p by auto
      then show ?thesis
        unfolding step f c(1) Let_def nr take_Suc_Cons using c(3) bb p Cons.prems(1) by (intro exI [of _ c]) simp
    qed
  qed
qed

lemma stop_highest_spec:
  assumes "distinct (map fst (stop @ as))"
  shows "stop_highest names as stop r =
     (stop @ filter (\<lambda>p. a_Name (snd p) \<in> set names) as,
      add_stop (stops_of (filter (\<lambda>p. a_Name (snd p) \<in> set names) as)) r)"
  using assms
proof (induction as arbitrary: stop r)
  case (Cons p as)
  obtain k a where p: "p = (k, a)" by (cases p)
  have "amap_put k a stop = stop @ [p]" using Cons.prems p by (intro put_new [of k stop a, folded p]) auto
  then show ?case using Cons p by (cases "a_Name a \<in> set names") auto
qed simp

text \<open>The names of the highest indexes hit exactly that many allocations.\<close>

lemma hit_count:
  assumes "\<forall>p \<in> set as. a_Name (snd p) = ani_name idx (alloc_Index (snd p))" "distinct (set_indexes as)"
    "bm_bits (ani_b idx) = set (set_indexes as)"
  shows "length (filter (\<lambda>p. a_Name (snd p) \<in> set (rev (map (ani_name idx) (highest_used n idx)))) as) = min n (length as)"
proof -
  let ?H = "highest_used n idx"
  have h: "filter (\<lambda>p. a_Name (snd p) \<in> set (rev (map (ani_name idx) ?H))) as = filter (\<lambda>p. alloc_Index (snd p) \<in> set ?H) as"
    using assms(1) by (intro filter_cong) auto
  have d: "distinct (map (\<lambda>p. alloc_Index (snd p)) as)" using assms(2) by (simp add: case_prod_unfold)
  have b: "bm_bits (ani_b idx) = set (map (\<lambda>p. alloc_Index (snd p)) as)" using assms(3) by (simp add: case_prod_unfold)
  have "map (\<lambda>p. alloc_Index (snd p)) (filter (\<lambda>p. alloc_Index (snd p) \<in> set ?H) as) =
      filter (\<lambda>i. i \<in> set ?H) (map (\<lambda>p. alloc_Index (snd p)) as)"
    by (simp add: filter_map o_def)
  then have "length (filter (\<lambda>p. alloc_Index (snd p) \<in> set ?H) as) =
      card (set (filter (\<lambda>i. i \<in> set ?H) (map (\<lambda>p. alloc_Index (snd p)) as)))"
    using d distinct_card distinct_filter length_map by metis
  also have "set (filter (\<lambda>i. i \<in> set ?H) (map (\<lambda>p. alloc_Index (snd p)) as)) = set ?H"
    using highest_used_facts(2) [of n idx] b by auto
  also have "card (set ?H) = length ?H" using highest_used_facts(1) distinct_card by blast
  also have "\<dots> = min n (length as)"
    unfolding highest_used_facts(3) b distinct_card [OF d] by simp
  finally show ?thesis unfolding h .
qed

lemma difference_hits:
  assumes "distinct (map fst (u @ m @ l))" "set t \<subseteq> set m"
  shows "difference u [l @ t @ filter P u] = filter (\<lambda>p. \<not> P p) u"
proof -
  have "fst ` set t \<subseteq> fst ` set m" using assms(2) by blast
  moreover have "fst ` set u \<inter> (fst ` set m \<union> fst ` set l) = {}" using assms(1) by auto
  ultimately have "fst p \<notin> fst ` set l" "fst p \<notin> fst ` set t" if "p \<in> set u" for p
    using that by blast+
  then have "filter (\<lambda>(k, _). k \<notin> fst ` set (l @ t @ filter P u)) u = filter (\<lambda>(k, _). k \<notin> fst ` set (filter P u)) u"
    unfolding set_append image_Un case_prod_unfold by (intro filter_cong) blast+
  also have "\<dots> = filter (\<lambda>p. p \<notin> set (filter P u)) u" by (rule filter_key_part) (use assms(1) in auto)
  also have "\<dots> = filter (\<lambda>p. \<not> P p) u" by (intro filter_cong) auto
  finally show ?thesis unfolding difference_single .
qed

lemma delete_taken:
  assumes "distinct (map fst m)" "t = take n (filter P m)"
  shows "mset (fold AList.delete (map fst t) m) + mset t = mset m" "set t \<subseteq> set m"
proof -
  show s: "set t \<subseteq> set m" unfolding assms(2) by (meson filter_is_subset order_trans set_take_subset)
  have d: "distinct m" "distinct t" using assms by (auto simp: distinct_map)
  have "mset t = mset (filter (\<lambda>p. p \<in> set t) m)"
    using s d by (subst set_eq_iff_mset_eq_distinct [symmetric]) auto
  moreover have "fold AList.delete (map fst t) m = filter (\<lambda>p. p \<notin> set t) m"
    using filter_key_part [OF assms(1) s] by (simp add: fold_delete)
  ultimately show "mset (fold AList.delete (map fst t) m) + mset t = mset m"
    using multiset_partition [of "mset m" "\<lambda>p. p \<in> set t"] by (simp add: union_commute)
qed

abbreviation named :: "string \<Rightarrow> string \<Rightarrow> alloc_set \<Rightarrow> bool" where
  "named j g as \<equiv> \<forall>p \<in> set as. a_Name (snd p) = AllocName j g (alloc_Index (snd p))"

text \<open>The migrating allocations go first.\<close>

lemma migrate_phase:
  assumes "0 < rmv" "rmv < 2 ^ 63" "distinct (map fst (stop @ m))" "distinct (set_indexes m)"
    "named (r_jobID r) (tg_Name tg) m" "0 \<le> tg_Count tg" "tg_Count tg < 2 ^ 63" "length m < 2 ^ 63"
    "\<forall>p \<in> set m. index_fits (tg_Count tg) (snd p)" "\<forall>p \<in> set m. alloc_Index (snd p) < 8 * length (ani_b idx)"
  shows "\<exists>t m' b. (if length m \<noteq> 0
       then Option.bind (newAllocNameIndex (r_jobID r) (tg_Name tg) (tg_Count tg) m) (\<lambda>mNames.
            Option.bind (Highest (uint rmv) mNames) (\<lambda>(removeNames, _).
              stop_migrating removeNames m rmv stop m idx r1))
       else Some (False, rmv, stop, m, idx, r1)) =
      Some (nat rmv \<le> length m, rmv - int (length t), stop @ t, m', idx\<lparr>ani_b := b\<rparr>, add_stop (stops_of t) r1) \<and>
    mset m' + mset t = mset m \<and> set t \<subseteq> set m \<and> length t = min (nat rmv) (length m) \<and>
    bm_bits b = bm_bits (ani_b idx) - set (set_indexes t) \<and> length b = length (ani_b idx)"
proof (cases "m = []")
  case True
  then show ?thesis using assms(1) by (intro exI [of _ "[]"] exI [of _ "ani_b idx"]) simp
next
  case False
  obtain b0 where b0: "newAllocNameIndex (r_jobID r) (tg_Name tg) (tg_Count tg) m =
      Some \<lparr>ani_job = r_jobID r, ani_taskGroup = tg_Name tg, ani_count = tg_Count tg, ani_b = b0\<rparr>"
    "bm_bits b0 = set (set_indexes m)"
    using newAllocNameIndex_ok [OF assms(6,7,8,9)] by blast
  let ?i = "\<lparr>ani_job = r_jobID r, ani_taskGroup = tg_Name tg, ani_count = tg_Count tg, ani_b = b0\<rparr>"
  let ?N = "rev (map (ani_name ?i) (highest_used (nat rmv) ?i))"
  have u: "uint rmv = nat rmv" using assms(1,2) by simp
  obtain b1 where h: "Highest (nat rmv) ?i = Some (?N, ?i\<lparr>ani_b := b1\<rparr>)" using Highest_spec by blast
  have c: "length (filter (\<lambda>p. a_Name (snd p) \<in> set ?N) m) = min (nat rmv) (length m)"
    by (rule hit_count) (use assms(4,5) b0(2) in simp_all)
  let ?t = "take (nat rmv) (filter (\<lambda>p. a_Name (snd p) \<in> set ?N) m)"
  obtain b where b: "stop_migrating ?N m rmv stop m idx r1 =
      Some (nat rmv \<le> length (filter (\<lambda>p. a_Name (snd p) \<in> set ?N) m), rmv - int (length ?t), stop @ ?t,
        fold AList.delete (map fst ?t) m, idx\<lparr>ani_b := b\<rparr>, add_stop (stops_of ?t) r1)"
    "bm_bits b = bm_bits (ani_b idx) - set (set_indexes ?t)" "length b = length (ani_b idx)"
    using stop_migrating_spec [OF assms(1,3,10), of ?N m r1] unfolding Let_def by blast
  have "distinct (map fst m)" using assms(3) by simp
  note d = delete_taken [OF this refl [of ?t]]
  have "length ?t = min (nat rmv) (length m)" using c by simp
  moreover have "(nat rmv \<le> length (filter (\<lambda>p. a_Name (snd p) \<in> set ?N) m)) = (nat rmv \<le> length m)" unfolding c by simp
  ultimately show ?thesis
    using False b0(1) h b d u by (intro exI [of _ ?t] exI [of _ "fold AList.delete (map fst ?t) m"] exI [of _ b]) simp
qed

text \<open>Then the ones with the highest names.\<close>

lemma highest_phase:
  assumes "distinct (map fst (u @ m @ l))" "set t = set m" "distinct (map fst t)" "distinct (set_indexes u)"
    "\<forall>p \<in> set u. a_Name (snd p) = ani_name idx (alloc_Index (snd p))" "bm_bits (ani_b idx) = set (set_indexes u)"
  shows "\<exists>names b h. Highest n idx = Some (names, idx\<lparr>ani_b := b\<rparr>) \<and> length b = length (ani_b idx) \<and>
    stop_highest names u (l @ t) r = (l @ t @ h, add_stop (stops_of h) r) \<and>
    mset h + mset (difference u [l @ t @ h]) = mset u \<and> length h = min n (length u)"
proof -
  let ?N = "rev (map (ani_name idx) (highest_used n idx))"
  let ?h = "filter (\<lambda>p. a_Name (snd p) \<in> set ?N) u"
  obtain b where b: "Highest n idx = Some (?N, idx\<lparr>ani_b := b\<rparr>)" "length b = length (ani_b idx)"
    using Highest_spec [of n idx] by auto
  have "distinct (map fst ((l @ t) @ u))" using assms(1-3) by auto
  then have "stop_highest ?N u (l @ t) r = ((l @ t) @ ?h, add_stop (stops_of ?h) r)" by (rule stop_highest_spec)
  moreover have "difference u [l @ t @ ?h] = filter (\<lambda>p. \<not> a_Name (snd p) \<in> set ?N) u"
    by (rule difference_hits [OF assms(1)]) (simp add: assms(2))
  then have "mset ?h + mset (difference u [l @ t @ ?h]) = mset u"
    using multiset_partition [of "mset u" "\<lambda>p. a_Name (snd p) \<in> set ?N"] by simp
  ultimately show ?thesis using b hit_count [OF assms(5,4,6), of n] by auto
qed

lemma computeStop_spec:
  assumes "distinct (map fst (u @ m @ l))" "distinct (set_indexes (u @ m))"
    "named (r_jobID r) (tg_Name tg) (u @ m)" "0 \<le> tg_Count tg" "tg_Count tg < 2 ^ 63" "length (u @ m) < 2 ^ 63"
    "\<forall>p \<in> set m. index_fits (tg_Count tg) (snd p)"
    "ani_job idx = r_jobID r" "ani_taskGroup idx = tg_Name tg" "bm_bits (ani_b idx) = set (set_indexes (u @ m))"
  shows "\<exists>extra m' b. computeStop tg idx u m l [] False r =
      Some (l @ extra, m', idx\<lparr>ani_b := b\<rparr>, add_stop (map (stop_of AllocClientStatusLost allocLost \<circ> snd) l @ stops_of extra) r) \<and>
    mset extra + mset (difference u [l @ extra]) + mset m' = mset u + mset m \<and>
    int (length (difference u [l @ extra]) + length m') = min (tg_Count tg) (int (length (u @ m))) \<and>
    length b = length (ani_b idx)"
proof -
  define rmv where "rmv = int (length u + length m) - tg_Count tg"
  define r1 where "r1 = add_stop (map (stop_of AllocClientStatusLost allocLost \<circ> snd) l) r"
  have w: "wrap64 (int (length u + length m) - tg_Count tg) = rmv"
    unfolding rmv_def using assms(4-6) by (intro wrap64_id) (simp add: int64_def)
  have un: "alloc_union [] [l] = l" using assms(1) by (intro union_nil) simp
  have keep: "difference u [l @ t] = u" if "set t \<subseteq> set m" for t
    using difference_hits [OF assms(1) that, of "\<lambda>_. False"] by simp
  show ?thesis
  proof (cases "rmv \<le> 0")
    case True
    then show ?thesis using w un keep [of "[]"]
      by (intro exI [of _ "[]"] exI [of _ m] exI [of _ "ani_b idx"])
        (simp add: computeStop_def Let_def markStop_def rmv_def)
  next
    case False
    then have pos: "0 < rmv" and lt: "rmv < 2 ^ 63" using assms(4,6) by (auto simp: rmv_def)
    have "alloc_Index (snd p) \<in> bm_bits (ani_b idx)" if "p \<in> set m" for p
      unfolding assms(10) using that by (auto simp: case_prod_unfold)
    then have "\<forall>p \<in> set m. alloc_Index (snd p) < 8 * length (ani_b idx)" by (auto simp: bm_bits_def)
    moreover have "distinct (map fst (l @ m))" "distinct (set_indexes m)" "named (r_jobID r) (tg_Name tg) m" "length m < 2 ^ 63"
      using assms(1-3,6) by auto
    ultimately obtain t m' b where ph: "(if length m \<noteq> 0
       then Option.bind (newAllocNameIndex (r_jobID r) (tg_Name tg) (tg_Count tg) m) (\<lambda>mNames.
            Option.bind (Highest (uint rmv) mNames) (\<lambda>(removeNames, _).
              stop_migrating removeNames m rmv l m idx r1))
       else Some (False, rmv, l, m, idx, r1)) =
      Some (nat rmv \<le> length m, rmv - int (length t), l @ t, m', idx\<lparr>ani_b := b\<rparr>, add_stop (stops_of t) r1)"
      "mset m' + mset t = mset m" "set t \<subseteq> set m" "length t = min (nat rmv) (length m)"
      "bm_bits b = bm_bits (ani_b idx) - set (set_indexes t)" "length b = length (ani_b idx)"
      using migrate_phase [of rmv l m r tg idx r1] pos lt assms(4,5,7) by blast
    have tm: "length m' + length t = length m" using ph(2) by (metis size_mset size_union)
    have cs: "computeStop tg idx u m l [] False r =
        (if nat rmv \<le> length m then Some (l @ t, m', idx\<lparr>ani_b := b\<rparr>, add_stop (stops_of t) r1)
         else Option.bind (Highest (uint (rmv - int (length t))) (idx\<lparr>ani_b := b\<rparr>)) (\<lambda>(removeNames, nameIndex3).
               let (stop3, r4) = stop_highest removeNames u (l @ t) (add_stop (stops_of t) r1)
               in Some (stop3, m', nameIndex3, r4)))"
      using ph(1) False w un unfolding computeStop_def markStop_def r1_def by simp
    show ?thesis
    proof (cases "nat rmv \<le> length m")
      case True
      then show ?thesis using ph tm cs pos keep [OF ph(3)]
        by (intro exI [of _ t] exI [of _ m'] exI [of _ b]) (auto simp: union_ac r1_def rmv_def)
    next
      case big: False
      then have m0: "m' = []" using ph(4) tm by simp
      have tset: "set t = set m" using ph(2) m0 by (metis add_0 mset.simps(1) mset_eq_setD)
      have td: "distinct (map fst t)" using distinct_fst_sub [of m t] ph(2) m0 assms(1) by simp
      have "set (set_indexes t) = set (set_indexes m)" "set (set_indexes u) \<inter> set (set_indexes m) = {}"
        using tset assms(2) by simp_all
      then have bits: "bm_bits (ani_b (idx\<lparr>ani_b := b\<rparr>)) = set (set_indexes u)"
        unfolding idx_with ph(5) assms(10) map_append set_append by blast
      have du: "distinct (set_indexes u)"
        and nu: "\<forall>p \<in> set u. a_Name (snd p) = ani_name (idx\<lparr>ani_b := b\<rparr>) (alloc_Index (snd p))"
        using assms(2,3,8,9) by simp_all
      have n: "uint (rmv - int (length t)) = length u - nat (tg_Count tg)" "nat (tg_Count tg) \<le> length u"
        using big ph(4) pos lt assms(4) by (auto simp: rmv_def nat_diff_distrib)
      obtain names c h where h: "Highest (length u - nat (tg_Count tg)) (idx\<lparr>ani_b := b\<rparr>) = Some (names, idx\<lparr>ani_b := c\<rparr>)"
        "length c = length b" "stop_highest names u (l @ t) (add_stop (stops_of t) r1) = (l @ t @ h, add_stop (stops_of h) (add_stop (stops_of t) r1))"
        "mset h + mset (difference u [l @ t @ h]) = mset u" "length h = min (length u - nat (tg_Count tg)) (length u)"
        using highest_phase [OF assms(1) tset td du nu bits, of "length u - nat (tg_Count tg)" "add_stop (stops_of t) r1"]
        unfolding idx_with by blast
      have "length h + length (difference u [l @ t @ h]) = length u" using h(4) by (metis size_mset size_union)
      then show ?thesis using cs big n h ph(2,6) m0 assms(4) by (intro exI [of _ "t @ h"] exI [of _ m'] exI [of _ c]) (auto simp: r1_def union_ac)
    qed
  qed
qed

section \<open>A group converges to its count\<close>

lemma fromKeys_spec:
  "distinct (map fst (fromKeys as [ks]))" "set (fromKeys as [ks]) \<subseteq> set as"
  "fst ` set (fromKeys as [ks]) = fst ` set as \<inter> set ks"
proof -
  let ?step = "\<lambda>k from. case map_of as k of Some a \<Rightarrow> amap_put k a from | None \<Rightarrow> from"
  have "distinct (map fst (fold ?step ks acc)) \<and> set (fold ?step ks acc) \<subseteq> set as \<and>
      fst ` set (fold ?step ks acc) = fst ` set acc \<union> (fst ` set as \<inter> set ks)"
    if "distinct (map fst acc)" "set acc \<subseteq> set as" for acc
    using that
  proof (induction ks arbitrary: acc)
    case (Cons k ks)
    have "distinct (map fst (?step k acc))" using Cons.prems(1) by (simp split: option.split)
    moreover have "set (?step k acc) \<subseteq> set as"
      using Cons.prems(2) put_set [of k _ acc] by (auto split: option.splits dest!: map_of_SomeD)
    moreover have "fst ` set (?step k acc) = fst ` set acc \<union> (fst ` set as \<inter> {k})"
      by (auto simp: dom_update map_of_eq_None_iff split: option.split dest: map_of_SomeD intro: rev_image_eqI)
    ultimately show ?case using Cons.IH [of "?step k acc"] by auto
  qed auto
  from this [of "[]"] show "distinct (map fst (fromKeys as [ks]))" "set (fromKeys as [ks]) \<subseteq> set as"
    "fst ` set (fromKeys as [ks]) = fst ` set as \<inter> set ks"
    by (simp_all add: fromKeys_def)
qed

text \<open>The allocations that are not stale canaries.\<close>

definition live :: "alloc_reconciler \<Rightarrow> alloc_set \<Rightarrow> alloc_set" where
  "live r all = filter (\<lambda>(k, _). k \<notin> set (stale_canaries r)) all"

lemma handleGroupCanaries_none:
  assumes "alloc_set_ok all" "\<forall>d. r_deployment r = Some d \<longrightarrow> placed_canaries d = []"
  shows "\<exists>s dc'. handleGroupCanaries all dc r = Some ([], live r all, dc', add_stop (stops_of s) r) \<and>
    mset s + mset (live r all) = mset all"
proof -
  let ?s = "fromKeys all [stale_canaries r]"
  note f = fromKeys_spec [of all "stale_canaries r"]
  have d: "distinct (map fst all)" using assms(1) by (simp add: alloc_set_ok_def)
  have l: "difference all [?s] = live r all"
    unfolding difference_single live_def f(3) by (intro filter_cong) (auto intro: rev_image_eqI)
  have "live r all = filter (\<lambda>p. p \<notin> set ?s) all"
    unfolding l [symmetric] difference_single by (rule filter_key_part [OF d f(2)])
  moreover have "mset ?s = mset (filter (\<lambda>p. p \<in> set ?s) all)"
    using d f by (subst set_eq_iff_mset_eq_distinct [symmetric]) (auto simp: distinct_map)
  ultimately have m: "mset ?s + mset (live r all) = mset all"
    using multiset_partition [of "mset all" "\<lambda>p. p \<in> set ?s"] by simp
  have e: "difference as [[], []] = as" "fromKeys as [[]] = []" for as
    by (simp_all add: difference_def fromKeys_def)
  show ?thesis
  proof (cases "r_deployment r")
    case None
    then show ?thesis using m l
      by (intro exI [of _ ?s]) (simp add: handleGroupCanaries_def Let_def markStop_def add_stop_def)
  next
    case (Some dep)
    then have "placed_canaries dep = []" using assms(2) by blast
    then show ?thesis using m l Some e
      by (intro exI [of _ ?s]) (simp add: handleGroupCanaries_def Let_def markStop_def add_stop_def)
  qed
qed

abbreviation with_inplace :: "allocation option list \<Rightarrow> alloc_reconciler \<Rightarrow> alloc_reconciler" where
  "with_inplace xs r \<equiv> r\<lparr>r_result := (r_result r)\<lparr>rr_inplaceUpdate := rr_inplaceUpdate (r_result r) @ xs\<rparr>\<rparr>"

lemma computeUpdates_spec:
  assumes "distinct (map fst (ig @ ip @ de @ as))" "list_all (\<lambda>(k, a). k = a_ID a) as"
  shows "\<exists>ig' ip' de' xs. computeUpdates job tg as (ig, ip, de) r = ((ig @ ig', ip @ ip', de @ de'), with_inplace xs r) \<and>
    mset ig' + mset ip' + mset de' = mset as"
  using assms
proof (induction as arbitrary: ig ip de r)
  case (Cons p as)
  obtain k a where p: "p = (k, a)" by (cases p)
  have k: "a_ID a = k" using Cons.prems(2) p by simp
  have put: "amap_put k a ig = ig @ [p]" "amap_put k a ip = ip @ [p]" "amap_put k a de = de @ [p]"
    using Cons.prems(1) p by (auto simp: put_new)
  obtain ch dch ia where u: "r_allocUpdateFn r a job tg = (ch, dch, ia)" by (cases "r_allocUpdateFn r a job tg")
  have l: "list_all (\<lambda>(k, a). k = a_ID a) as" using Cons.prems(2) by simp
  consider (ig) "ch" | (de) "\<not> ch" "dch" | (ip) "\<not> ch" "\<not> dch" by blast
  then show ?case
  proof cases
    case ig
    have "distinct (map fst ((ig @ [p]) @ ip @ de @ as))" using Cons.prems(1) by auto
    then obtain ig' ip' de' xs where h: "computeUpdates job tg as (ig @ [p], ip, de) r = (((ig @ [p]) @ ig', ip @ ip', de @ de'), with_inplace xs r)"
      "mset ig' + mset ip' + mset de' = mset as" using Cons.IH l by blast
    then show ?thesis using ig put k u p by (intro exI [of _ "p # ig'"] exI [of _ ip'] exI [of _ de'] exI [of _ xs]) simp
  next
    case de
    have "distinct (map fst (ig @ ip @ (de @ [p]) @ as))" using Cons.prems(1) by auto
    then obtain ig' ip' de' xs where h: "computeUpdates job tg as (ig, ip, de @ [p]) r = ((ig @ ig', ip @ ip', (de @ [p]) @ de'), with_inplace xs r)"
      "mset ig' + mset ip' + mset de' = mset as" using Cons.IH l by blast
    then show ?thesis using de put k u p by (intro exI [of _ ig'] exI [of _ ip'] exI [of _ "p # de'"] exI [of _ xs]) simp
  next
    case ip
    have "distinct (map fst (ig @ (ip @ [p]) @ de @ as))" using Cons.prems(1) by auto
    then obtain ig' ip' de' xs where h: "computeUpdates job tg as (ig, ip @ [p], de) (with_inplace [ia] r) =
        ((ig @ ig', (ip @ [p]) @ ip', de @ de'), with_inplace xs (with_inplace [ia] r))"
      "mset ig' + mset ip' + mset de' = mset as" using Cons.IH l by blast
    then show ?thesis using ip put k u p by (intro exI [of _ ig'] exI [of _ "p # ip'"] exI [of _ de'] exI [of _ "ia # xs"]) simp
  qed
next
  case Nil
  then show ?case by (intro exI [of _ "[]"]) simp
qed

lemma add_place_add_place [simp]: "add_place ys (add_place xs r) = add_place (xs @ ys) r"
  by (simp add: add_place_def)

lemma add_stop_add_place [simp]: "add_stop ys (add_place xs r) = add_place xs (add_stop ys r)"
  by (simp add: add_place_def add_stop_def)

lemma add_place_nil [simp]: "add_place [] r = r"
  by (simp add: add_place_def)

lemma add_fields [simp]:
  "r_deployment (add_stop xs r) = r_deployment r" "r_deployment (add_place ys r) = r_deployment r"
  "r_deploymentPaused (add_stop xs r) = r_deploymentPaused r" "r_deploymentPaused (add_place ys r) = r_deploymentPaused r"
  "r_deploymentFailed (add_stop xs r) = r_deploymentFailed r" "r_deploymentFailed (add_place ys r) = r_deploymentFailed r"
  "r_jobID (add_stop xs r) = r_jobID r" "r_jobID (add_place ys r) = r_jobID r"
  "rr_stop (r_result (add_stop xs r)) = rr_stop (r_result r) @ xs" "rr_place (r_result (add_stop xs r)) = rr_place (r_result r)"
  "rr_place (r_result (add_place ys r)) = rr_place (r_result r) @ ys" "rr_stop (r_result (add_place ys r)) = rr_stop (r_result r)"
  by (simp_all add: add_stop_def add_place_def)

text \<open>The steps that close a group add no stop and no placement.\<close>

lemma closing_fields [simp]:
  "rr_stop (r_result (set_desired g dc r)) = rr_stop (r_result r)"
  "rr_place (r_result (set_desired g dc r)) = rr_place (r_result r)"
  "rr_stop (r_result (create_deployment uuid g job tg s r)) = rr_stop (r_result r)"
  "rr_place (r_result (create_deployment uuid g job tg s r)) = rr_place (r_result r)"
  "rr_stop (r_result (followup_wait tg f r)) = rr_stop (r_result r)"
  "rr_place (r_result (followup_wait tg f r)) = rr_place (r_result r)"
  by (simp_all add: set_desired_def create_deployment_def followup_wait_def Let_def split: option.split)

lemma migrate_loop_spec:
  assumes "\<not> r_deploymentFailed r" "\<not> r_deploymentPaused r" "k \<le> limit \<or> as = []"
  shows "migrate_loop tg limit as k r =
    (nat (limit - k) < length as,
     add_place (map (replace_of tg) (take (nat (limit - k)) as))
       (add_stop (map (stop_of '''' allocMigrating) (take (nat (limit - k)) as)) r))"
  using assms
proof (induction as arbitrary: k r)
  case (Cons a as)
  show ?case
  proof (cases "k < limit")
    case True
    then have "nat (limit - k) = Suc (nat (limit - (k + 1)))" by simp
    then show ?thesis using Cons.IH [of "add_place [replace_of tg a] (add_stop [stop_of '''' allocMigrating a] r)" "k + 1"] Cons.prems True
      by simp
  next
    case False
    then show ?thesis using Cons.prems by simp
  qed
qed simp

text \<open>The loop over the deployment's allocations: each one not healthy takes one off the limit.\<close>

abbreviation pending :: "allocation list \<Rightarrow> allocation list" where
  "pending as \<equiv> filter (\<lambda>a. \<not> ads_IsHealthy (a_DeploymentStatus a)) as"

lemma limit_loop_eq:
  assumes "int64 limit" "int64 (limit - int (length (pending as)))"
  shows "limit_loop as limit =
    (if list_ex (\<lambda>a. ads_IsUnhealthy (a_DeploymentStatus a)) as then 0 else limit - int (length (pending as)))"
  using assms
proof (induction as arbitrary: limit)
  case (Cons a as)
  show ?case
  proof (cases "ads_IsHealthy (a_DeploymentStatus a)")
    case True
    then show ?thesis using Cons by simp
  next
    case False
    then have "int64 (limit - 1)" "int64 (limit - 1 - int (length (pending as)))"
      using Cons.prems by (auto simp: int64_def)
    then show ?thesis using Cons.IH [of "limit - 1"] False by simp
  qed
qed simp

lemma computePlacements_spec:
  assumes "ani_count idx = tg_Count tg" "0 \<le> tg_Count tg" "tg_Count tg < 2 ^ 63" "nat (tg_Count tg) \<le> 8 * length (ani_b idx)"
  shows "\<exists>place idx'. computePlacements tg idx u m = Some (place, idx') \<and>
    length place = nat (tg_Count tg) - (length u + length m) \<and> list_all (\<lambda>p. ap_previousAlloc p = None) place"
proof (cases "tg_Count tg \<le> int (length u + length m)")
  case True
  then show ?thesis by (auto simp: computePlacements_def Let_def)
next
  case False
  let ?n = "nat (tg_Count tg) - (length u + length m)"
  have n: "uint (tg_Count tg - int (length u + length m)) = ?n" "0 < ?n" "?n \<le> 8 * length (ani_b idx)" "?n < 2 ^ 64"
    using False assms by (auto simp: nat_diff_distrib)
  have "0 < ani_count idx" "ani_count idx < 2 ^ 63" "nat (ani_count idx) \<le> 8 * length (ani_b idx)" using False assms by auto
  from Next_spec [OF n(2-4) this]
  obtain b where "Next ?n idx = Some (map (ani_name idx) (take ?n (free_below idx) @ [0..<?n - length (free_below idx)]), idx\<lparr>ani_b := b\<rparr>)"
    by blast
  then show ?thesis using False n(1) by (auto simp: computePlacements_def Let_def list_all_iff min_def)
qed

text \<open>
  A group the reconciler can settle: its allocations are named after their indexes, those that are
  not stale canaries have indexes of their own, the deployment is neither paused nor failed nor in a canary
  phase, and no more allocations of the deployment are pending than may be in flight.
\<close>

definition limit_ok :: "task_group \<Rightarrow> alloc_set \<Rightarrow> alloc_reconciler \<Rightarrow> bool" where
  "limit_ok tg all r =
     (case tg_Update tg of
        None \<Rightarrow> True
      | Some u \<Rightarrow>
          0 \<le> us_MaxParallel u \<and> us_MaxParallel u < 2 ^ 63 \<and> us_Canary u \<le> 0 \<and>
          (case r_deployment r of
             None \<Rightarrow> True
           | Some d \<Rightarrow> int (length (filter (\<lambda>(_, a). a_DeploymentID a = d_ID d \<and> \<not> ads_IsHealthy (a_DeploymentStatus a)) all))
                        \<le> us_MaxParallel u))"

definition group_ok :: "string \<Rightarrow> task_group \<Rightarrow> alloc_set \<Rightarrow> alloc_reconciler \<Rightarrow> bool" where
  "group_ok grp tg all r \<longleftrightarrow>
     alloc_set_ok all \<and> length all < 2 ^ 63 \<and>
     list_all (\<lambda>(_, a). a_Job a \<noteq> None \<and> a_Name a = AllocName (r_jobID r) grp (alloc_Index a) \<and>
                        index_fits (tg_Count tg) a) all \<and>
     distinct (set_indexes (live r all)) \<and> 0 \<le> tg_Count tg \<and> tg_Count tg < 2 ^ 63 \<and>
     \<not> r_deploymentPaused r \<and> \<not> r_deploymentFailed r \<and>
     \<not> in_canary_state (fst (group_state grp tg r)) \<and>
     (case r_deployment r of None \<Rightarrow> True | Some d \<Rightarrow> placed_canaries d = []) \<and> limit_ok tg all r"

lemma limit_nonneg:
  assumes "limit_ok tg all r" "mset u \<subseteq># mset all" "\<not> r_deploymentPaused r" "\<not> r_deploymentFailed r" "0 \<le> tg_Count tg"
    "r_deployment r' = r_deployment r" "r_deploymentPaused r' = r_deploymentPaused r" "r_deploymentFailed r' = r_deploymentFailed r"
  shows "0 \<le> computeLimit tg u de m False r'"
proof (cases "tg_Update tg")
  case None
  then show ?thesis using assms(5) by (simp add: computeLimit_def)
next
  case (Some us)
  note l = assms(1) [unfolded limit_ok_def Some option.case]
  show ?thesis
  proof (cases "r_deployment r")
    case None
    then show ?thesis using l assms by (simp add: computeLimit_def Some)
  next
    case dep: (Some d)
    let ?P = "\<lambda>(_ :: string, a). a_DeploymentID a = d_ID d \<and> \<not> ads_IsHealthy (a_DeploymentStatus a)"
    let ?as = "map snd (fst (filterByDeployment (d_ID d) u))"
    have "pending ?as = map snd (filter ?P u)"
      by (simp add: filterByDeployment_def filter_map o_def case_prod_unfold conj_commute)
    then have "length (pending ?as) = size (filter_mset ?P (mset u))" by (simp flip: mset_filter)
    also have "\<dots> \<le> size (filter_mset ?P (mset all))"
      by (rule size_mset_mono, rule multiset_filter_mono, rule assms(2))
    also have "\<dots> = length (filter ?P all)" by (simp flip: mset_filter)
    finally have "int (length (pending ?as)) \<le> us_MaxParallel us" using l dep by auto
    then have "0 \<le> limit_loop ?as (us_MaxParallel us)"
      using l limit_loop_eq [of "us_MaxParallel us" ?as] by (auto simp: int64_def)
    then show ?thesis using dep assms by (simp add: computeLimit_def Some)
  qed
qed

lemma place_canaries_none:
  assumes "limit_ok tg all r0"
  shows "place_canaries tg existing [] de idx dc s r = Some (idx, dc, s, r)"
  using assms by (auto simp: place_canaries_def limit_ok_def needs_canary_def split: option.splits)

lemma in_canary_total [simp]: "in_canary_state (add_total e n s) = in_canary_state s"
  by (simp add: add_total_def in_canary_state_def)

lemma nameOrder_perm: "mset (nameOrder as) = mset (map snd as)" "length (nameOrder as) = length as"
  by (simp_all add: nameOrder_def)

lemma mset_take_sub: "mset (take n xs) \<subseteq># mset xs"
  using mset_append [of "take n xs" "drop n xs"] by simp

lemma place_and_update_spec:
  assumes "\<not> r_deploymentPaused r" "\<not> r_deploymentFailed r" "0 \<le> limit"
  shows "\<exists>xs. (\<forall>dc. \<exists>dc'. place_and_update tg de place False limit dc r =
      Some (limit - int (length xs), dc', add_place (place @ map (replace_of tg) xs) (add_stop (map (stop_of '''' allocUpdating) xs) r))) \<and>
    mset xs \<subseteq># mset (map snd de) \<and> int (length xs) = min (int (length de)) limit"
proof -
  let ?xs = "take (nat (min (int (length de)) limit)) (nameOrder de)"
  have "mset ?xs \<subseteq># mset (map snd de)" unfolding nameOrder_perm(1) [symmetric] by (rule mset_take_sub)
  moreover have "int (length ?xs) = min (int (length de)) limit" using assms(3) by (simp add: nameOrder_perm)
  ultimately show ?thesis using assms by (intro exI [of _ ?xs] conjI allI) (simp_all add: place_and_update_def Let_def)
qed

text \<open>The sets of a settled group, as \<open>computeGroup\<close> finds them one after the other.\<close>

lemma group_sets:
  assumes "group_ok grp tg all r" "tg_Name tg = grp"
  obtains s dc1 u m l i extra m' b where
    "handleGroupCanaries all no_updates r = Some ([], live r all, dc1, add_stop (stops_of s) r)"
    "filterByTainted (r_taintedNodes r) (live r all) = Some (u, m, l)"
    "newAllocNameIndex (r_jobID r) grp (tg_Count tg) (alloc_union u [m]) = Some i"
    "computeStop tg i u m l [] False (add_stop (stops_of s) r) =
       Some (l @ extra, m', i\<lparr>ani_b := b\<rparr>,
             add_stop (map (stop_of AllocClientStatusLost allocLost \<circ> snd) l @ stops_of extra) (add_stop (stops_of s) r))"
    "mset all = mset s + mset l + mset extra + mset (difference u [l @ extra]) + mset m'"
    "int (length (difference u [l @ extra]) + length m') \<le> tg_Count tg"
    "ani_count i = tg_Count tg" "nat (tg_Count tg) \<le> 8 * length b"
proof -
  note g = assms(1) [unfolded group_ok_def]
  have ok: "alloc_set_ok all" and jobs: "list_all (\<lambda>(_, a). a_Job a \<noteq> None) all"
    using g by (auto simp: list_all_iff)
  obtain s dc1 where s: "handleGroupCanaries all no_updates r = Some ([], live r all, dc1, add_stop (stops_of s) r)"
      "mset s + mset (live r all) = mset all"
    using handleGroupCanaries_none [OF ok, of r no_updates] g by (auto split: option.splits)
  have sub: "set (live r all) \<subseteq> set all" by (auto simp: live_def)
  then have "list_all (\<lambda>(_, a). a_Job a \<noteq> None) (live r all)" using jobs by (auto simp: list_all_iff)
  then obtain u m l where uml: "filterByTainted (r_taintedNodes r) (live r all) = Some (u, m, l)"
    using filterByTainted_ok by blast
  have okl: "alloc_set_ok (live r all)" using alloc_set_ok_sub [OF ok] s(2) by (metis mset_subset_eq_add_right)
  then have sp: "mset (live r all) = mset u + mset m + mset l"
    using filterByTainted_split [OF uml] by (simp add: alloc_set_ok_def)
  then have perm: "mset (u @ m @ l) = mset (live r all)" by simp
  have keys: "distinct (map fst (u @ m @ l))"
    using alloc_set_ok_sub [OF okl, of "u @ m @ l"] perm by (simp add: alloc_set_ok_def)
  have "mset (set_indexes (u @ m @ l)) = mset (set_indexes (live r all))" by (simp only: mset_map perm)
  then have "distinct (set_indexes (u @ m @ l))" using mset_eq_imp_distinct_iff g by blast
  then have ind: "distinct (set_indexes (u @ m))" unfolding map_append append_assoc [symmetric] by (simp only: distinct_append)
  have inall: "set (u @ m) \<subseteq> set all" using mset_eq_setD [OF perm] sub by auto
  have named: "named (r_jobID r) grp (u @ m)" and fits: "\<forall>p \<in> set (u @ m). index_fits (tg_Count tg) (snd p)"
    using g inall by (fastforce simp: list_all_iff)+
  have "length s + length (live r all) = length all" using arg_cong [OF s(2), of size] by simp
  then have len: "length (u @ m) < 2 ^ 63" using g mset_eq_length [OF perm] by auto
  have un: "alloc_union u [m] = u @ m" using keys by (intro union_disjoint) auto
  obtain b0 where i: "newAllocNameIndex (r_jobID r) grp (tg_Count tg) (u @ m) =
      Some \<lparr>ani_job = r_jobID r, ani_taskGroup = grp, ani_count = tg_Count tg, ani_b = b0\<rparr>"
      "bm_bits b0 = set (set_indexes (u @ m))" "nat (tg_Count tg) \<le> 8 * length b0"
    using newAllocNameIndex_ok [of "tg_Count tg" "u @ m"] g len fits by blast
  let ?i = "\<lparr>ani_job = r_jobID r, ani_taskGroup = grp, ani_count = tg_Count tg, ani_b = b0\<rparr>"
  obtain extra m' b where cs: "computeStop tg ?i u m l [] False (add_stop (stops_of s) r) =
       Some (l @ extra, m', ?i\<lparr>ani_b := b\<rparr>,
             add_stop (map (stop_of AllocClientStatusLost allocLost \<circ> snd) l @ stops_of extra) (add_stop (stops_of s) r))"
      "mset extra + mset (difference u [l @ extra]) + mset m' = mset u + mset m"
      "int (length (difference u [l @ extra]) + length m') = min (tg_Count tg) (int (length (u @ m)))"
      "length b = length b0"
    using computeStop_spec [OF keys ind, of "add_stop (stops_of s) r" tg ?i] named len fits g i(2) assms(2) by auto
  have "mset all = mset s + mset l + (mset u + mset m)" using s(2) sp by (simp add: union_ac)
  then have "mset all = mset s + mset l + mset extra + mset (difference u [l @ extra]) + mset m'"
    unfolding cs(2) [symmetric] by (simp add: union_ac)
  then show ?thesis using that s(1) uml i cs un by simp
qed

lemma computeGroup_settles:
  assumes "r_job r = Some job" "LookupTaskGroup job grp = Some tg" "group_ok grp tg all r"
  shows "\<exists>c r' stops places. computeGroup uuid grp all r = Some (c, r') \<and>
    rr_stop (r_result r') = rr_stop (r_result r) @ stops \<and> rr_place (r_result r') = rr_place (r_result r) @ places \<and>
    mset (map as_alloc stops) \<subseteq># mset (map snd all) \<and>
    int (length all) - int (length stops) + int (length places) = tg_Count tg"
proof -
  note g = assms(3) [unfolded group_ok_def]
  have nm: "tg_Name tg = grp" using assms(2) by (auto simp: LookupTaskGroup_def find_Some_iff)
  from group_sets [OF assms(3) nm] obtain s dc1 u m l i extra m' b where st:
    "handleGroupCanaries all no_updates r = Some ([], live r all, dc1, add_stop (stops_of s) r)"
    "filterByTainted (r_taintedNodes r) (live r all) = Some (u, m, l)"
    "newAllocNameIndex (r_jobID r) grp (tg_Count tg) (alloc_union u [m]) = Some i"
    "computeStop tg i u m l [] False (add_stop (stops_of s) r) =
       Some (l @ extra, m', i\<lparr>ani_b := b\<rparr>,
             add_stop (map (stop_of AllocClientStatusLost allocLost \<circ> snd) l @ stops_of extra) (add_stop (stops_of s) r))"
    and eq: "mset all = mset s + mset l + mset extra + mset (difference u [l @ extra]) + mset m'"
    and le: "int (length (difference u [l @ extra]) + length m') \<le> tg_Count tg"
    and ix: "ani_count i = tg_Count tg" "nat (tg_Count tg) \<le> 8 * length b" .
  define U where "U = difference u [l @ extra]"
  define S where "S = stops_of s @ map (stop_of AllocClientStatusLost allocLost \<circ> snd) l @ stops_of extra"
  have Usub: "mset U \<subseteq># mset all" unfolding U_def eq by simp
  then have "alloc_set_ok U" using alloc_set_ok_sub g by blast
  then have dU: "distinct (map fst U)" and iU: "list_all (\<lambda>(k, a). k = a_ID a) U" by (simp_all add: alloc_set_ok_def)
  obtain ig ip de xs where up: "computeUpdates job tg U ([], [], []) (add_stop S r) = ((ig, ip, de), with_inplace xs (add_stop S r))"
      "mset ig + mset ip + mset de = mset U"
    using computeUpdates_spec [of "[]" "[]" "[]" U job tg "add_stop S r"] dU iU by auto
  define R where "R = with_inplace xs (add_stop S r)"
  have R: "r_deployment R = r_deployment r" "r_deploymentPaused R = r_deploymentPaused r" "r_deploymentFailed R = r_deploymentFailed r"
    "rr_stop (r_result R) = rr_stop (r_result r) @ S" "rr_place (r_result R) = rr_place (r_result r)"
    by (simp_all add: R_def)
  obtain sd ex where sd: "group_state grp tg r = (sd, ex)" by (cases "group_state grp tg r")
  then have nf: "in_canary_state sd = False" using g by simp
  define limit where "limit = computeLimit tg U de m' False R"
  have lim: "0 \<le> limit" unfolding limit_def by (rule limit_nonneg [of tg all r]) (use g Usub R in auto)
  obtain place i' where pl: "computePlacements tg (i\<lparr>ani_b := b\<rparr>) U m' = Some (place, i')"
      "length place = nat (tg_Count tg) - (length U + length m')"
    using computePlacements_spec [of "i\<lparr>ani_b := b\<rparr>" tg U m'] g ix by auto
  have RP: "\<not> r_deploymentPaused R" "\<not> r_deploymentFailed R" using R g by auto
  from place_and_update_spec [OF RP lim, of tg de place]
  obtain ys where ys: "\<And>dc. \<exists>dc'. place_and_update tg de place False limit dc R =
      Some (limit - int (length ys), dc', add_place (place @ map (replace_of tg) ys) (add_stop (map (stop_of '''' allocUpdating) ys) R))"
      "mset ys \<subseteq># mset (map snd de)" "int (length ys) = min (int (length de)) limit"
    by blast
  define zs where "zs = take (nat (limit - int (length ys))) (nameOrder m')"
  have zsub: "mset zs \<subseteq># mset (map snd m')" unfolding zs_def nameOrder_perm(1) [symmetric] by (rule mset_take_sub)
  define P where "P = place @ map (replace_of tg) ys @ map (replace_of tg) zs"
  define T where "T = map (stop_of '''' allocUpdating) ys @ map (stop_of '''' allocMigrating) zs"
  obtain f where f: "migrate_loop tg (limit - int (length ys)) (nameOrder m') 0
      (add_place (place @ map (replace_of tg) ys) (add_stop (map (stop_of '''' allocUpdating) ys) R)) = (f, add_place P (add_stop T R))"
    using migrate_loop_spec [of "add_place (place @ map (replace_of tg) ys) (add_stop (map (stop_of '''' allocUpdating) ys) R)" 0] RP ys(3)
    by (simp add: P_def T_def zs_def)
  have un: "alloc_union U [[]] = U" by (rule union_nil_right [OF dU])
  have sn: "ani_Set [] (i\<lparr>ani_b := b\<rparr>) = Some (i\<lparr>ani_b := b\<rparr>)" by (simp add: ani_Set_def)
  have cs: "computeStop tg i u m l [] False (add_stop (stops_of s) r) = Some (l @ extra, m', i\<lparr>ani_b := b\<rparr>, add_stop S r)"
    using st(4) by (simp add: S_def)
  have lo: "limit_ok tg all r" using g by simp
  obtain dc4 where dc4: "place_and_update tg de place False limit
      (dc1\<lparr>du_Stop := uadd (int (length (l @ extra))) (du_Stop dc1), du_Ignore := uadd (int (length ig)) (du_Ignore dc1),
           du_InPlaceUpdate := uadd (int (length ip)) (du_InPlaceUpdate dc1)\<rparr>) R =
      Some (limit - int (length ys), dc4, add_place (place @ map (replace_of tg) ys) (add_stop (map (stop_of '''' allocUpdating) ys) R))"
    using ys(1) by blast
  have "\<exists>c dc f sd'. computeGroup uuid grp all r =
      Some (c, set_desired grp dc (create_deployment uuid grp job tg sd' (followup_wait tg f (add_place P (add_stop T R)))))"
    unfolding computeGroup_def assms(1,2) Option.bind.simps option.case sd st(1-3) cs prod.case Let_def
      nf if_False U_def [symmetric] un sn up(1) R_def [symmetric] place_canaries_none [OF lo]
      in_canary_total limit_def [symmetric] pl(1) dc4 f
    by blast
  then obtain c r' where cg: "computeGroup uuid grp all r = Some (c, r')"
      "rr_stop (r_result r') = rr_stop (r_result r) @ S @ T" "rr_place (r_result r') = rr_place (r_result r) @ P"
    by (auto simp: R)
  have "mset (map as_alloc (S @ T)) \<subseteq># mset (map snd all)"
  proof -
    have a: "mset (map as_alloc (S @ T)) = mset (map snd s) + mset (map snd l) + mset (map snd extra) + mset ys + mset zs"
      by (simp add: S_def T_def comp_def)
    have b: "mset (map snd all) = mset (map snd s) + mset (map snd l) + mset (map snd extra) + mset (map snd U) + mset (map snd m')"
      using arg_cong [OF eq, of "image_mset snd"] by (simp add: U_def)
    have "mset de \<subseteq># mset U" unfolding up(2) [symmetric] by simp
    then have "mset (map snd de) \<subseteq># mset (map snd U)" unfolding mset_map by (rule image_mset_subseteq_mono)
    then have "mset ys \<subseteq># mset (map snd U)" using ys(2) subset_mset.order_trans by blast
    then show ?thesis unfolding a b using zsub by (intro subset_mset.add_mono) auto
  qed
  moreover have "int (length all) - int (length (S @ T)) + int (length P) = tg_Count tg"
  proof -
    have "length all = length s + length l + length extra + length U + length m'"
      using arg_cong [OF eq, of size] by (simp add: U_def)
    then show ?thesis using pl(2) le g unfolding S_def T_def P_def U_def by auto
  qed
  ultimately show ?thesis using cg by blast
qed

section \<open>Rolling updates stay within their limit\<close>

text \<open>Two reconcilers that agree on the placements and the deployment.\<close>

definition same_places :: "alloc_reconciler \<Rightarrow> alloc_reconciler \<Rightarrow> bool" where
  "same_places r r' \<longleftrightarrow> rr_place (r_result r') = rr_place (r_result r) \<and> r_deployment r' = r_deployment r \<and>
     r_deploymentPaused r' = r_deploymentPaused r \<and> r_deploymentFailed r' = r_deploymentFailed r \<and>
     r_job r' = r_job r \<and> rr_deployment (r_result r') = rr_deployment (r_result r) \<and> r_allocUpdateFn r' = r_allocUpdateFn r"

lemma same_places_refl [simp]: "same_places r r"
  by (simp add: same_places_def)

lemma same_places_trans: "same_places r r' \<Longrightarrow> same_places r' r'' \<Longrightarrow> same_places r r''"
  by (simp add: same_places_def)

lemma same_places_stop [simp]:
  "same_places r (add_stop xs r') \<longleftrightarrow> same_places r r'" "same_places r (markStop as c d r') \<longleftrightarrow> same_places r r'"
  "same_places r (with_inplace ys r') \<longleftrightarrow> same_places r r'"
  by (simp_all add: same_places_def markStop_def add_stop_def)

lemma bind_SomeE:
  assumes "Option.bind x f = Some y"
  obtains v where "x = Some v" "f v = Some y"
  using assms by (cases x) auto

lemma handleGroupCanaries_same:
  "handleGroupCanaries all dc r = Some (canaries, all1, dc1, r1) \<Longrightarrow> same_places r r1"
  by (auto simp: handleGroupCanaries_def Let_def bind_eq_Some_conv split: option.splits prod.splits)

lemma stop_same_name_same:
  "stop_same_name names as rmv stop u r = (d, rmv', stop', u', r') \<Longrightarrow> same_places r r'"
proof (induction names as rmv stop u r rule: stop_same_name.induct)
  case (2 names k a as rmv stop u r)
  then show ?case
    using same_places_trans [of r "add_stop [stop_of '''' allocNotNeeded a] r" r'] by (auto simp: Let_def split: if_splits)
qed simp

lemma stop_migrating_same:
  "stop_migrating names as rmv stop m idx r = Some (d, rmv', stop', m', idx', r') \<Longrightarrow> same_places r r'"
proof (induction names as rmv stop m idx r rule: stop_migrating.induct)
  case (2 names k a as rmv stop m idx r)
  then show ?case
    using same_places_trans [of r "add_stop [stop_of '''' allocNotNeeded a] r" r']
    by (auto simp: Let_def bind_eq_Some_conv split: if_splits)
qed simp

lemma stop_highest_same: "stop_highest names as stop r = (stop', r') \<Longrightarrow> same_places r r'"
proof (induction names as stop r rule: stop_highest.induct)
  case (2 names k a as stop r)
  then show ?case
    using same_places_trans [of r "add_stop [stop_of '''' allocNotNeeded a] r" r'] by (auto split: if_splits)
qed simp

lemma computeUpdates_same: "computeUpdates job tg as sets r = (sets', r') \<Longrightarrow> same_places r r'"
proof (induction job tg as sets r rule: computeUpdates.induct)
  case (2 job tg k a as ig ip de r)
  obtain x y z where u: "r_allocUpdateFn r a job tg = (x, y, z)" by (cases "r_allocUpdateFn r a job tg")
  show ?case
    using 2 u same_places_trans [of r "with_inplace [z] r" r'] by (auto split: if_splits)
qed simp

lemma computeStop_same:
  assumes "computeStop tg idx u m l canaries cs r = Some (stop, m', idx', r')"
  shows "same_places r r'"
proof -
  let ?r1 = "markStop l AllocClientStatusLost allocLost r"
  let ?u1 = "if cs then difference u [canaries] else u"
  let ?rmv = "wrap64 (int (length ?u1 + length m) - tg_Count tg)"
  obtain d1 rmv1 stop1 u2 r2 where first: "(if \<not> cs \<and> length canaries \<noteq> 0
      then stop_same_name (nameSet canaries) (difference ?u1 [canaries]) ?rmv (alloc_union [] [l]) ?u1 ?r1
      else (False, ?rmv, alloc_union [] [l], ?u1, ?r1)) = (d1, rmv1, stop1, u2, r2)"
    by (metis prod_cases5)
  then have "same_places ?r1 r2" using stop_same_name_same by (metis prod.inject same_places_refl)
  then have r2: "same_places r r2" using same_places_trans [of r ?r1 r2] by simp
  show ?thesis
  proof (cases "?rmv \<le> 0 \<or> d1")
    case True
    then have "r' = ?r1 \<or> r' = r2" using assms first unfolding computeStop_def Let_def by (auto split: if_splits)
    then show ?thesis using r2 by auto
  next
    case False
    let ?mig = "if length m \<noteq> 0
       then Option.bind (newAllocNameIndex (r_jobID r) (tg_Name tg) (tg_Count tg) m) (\<lambda>mNames.
            Option.bind (Highest (uint rmv1) mNames) (\<lambda>(removeNames, _). stop_migrating removeNames m rmv1 stop1 m idx r2))
       else Some (False, rmv1, stop1, m, idx, r2)"
    have eq: "computeStop tg idx u m l canaries cs r = Option.bind ?mig
        (\<lambda>(done2, remove2, stop2, migrate2, nameIndex2, r3).
           if done2 then Some (stop2, migrate2, nameIndex2, r3)
           else Option.bind (Highest (uint remove2) nameIndex2) (\<lambda>(removeNames, nameIndex3).
             let (stop3, r4) = stop_highest removeNames u2 stop2 r3 in Some (stop3, migrate2, nameIndex3, r4)))"
      using False first unfolding computeStop_def Let_def by simp
    from assms [unfolded eq] obtain v where "?mig = Some v" by (rule bind_SomeE)
    then obtain d2 rmv2 stop2 m2 idx2 r3 where mig: "?mig = Some (d2, rmv2, stop2, m2, idx2, r3)"
      by (cases v rule: prod_cases6) blast
    then have "same_places r2 r3"
      by (auto split: if_splits elim!: bind_SomeE intro: stop_migrating_same)
    moreover have "same_places r3 r'"
      using assms unfolding eq mig by (auto simp: Let_def split: if_splits prod.splits elim!: bind_SomeE intro: stop_highest_same)
    ultimately show ?thesis using r2 same_places_trans by blast
  qed
qed

text \<open>The calls of a successful \<open>computeGroup\<close>.\<close>

lemma computeGroup_calls:
  assumes "r_job r = Some job" "LookupTaskGroup job grp = Some tg" "computeGroup uuid grp all0 r = Some (c, r')"
  obtains s existing canaries all1 dc1 r1 u0 m0 l idx0 stop m idx1 r2 U idx2 ig ip de r3 dc2 s1 idx3 dc3 s2 r4 place idx4 limit dc4 r5 f r6 dc5 s3
  where "group_state grp tg r = (s, existing)"
    "handleGroupCanaries all0 no_updates r = Some (canaries, all1, dc1, r1)"
    "filterByTainted (r_taintedNodes r) all1 = Some (u0, m0, l)"
    "computeStop tg idx0 u0 m0 l canaries (in_canary_state s) r1 = Some (stop, m, idx1, r2)"
    "computeUpdates job tg U ([], [], []) r2 = ((ig, ip, de), r3)"
    "place_canaries tg existing canaries de idx2 dc2 s1 r3 = Some (idx3, dc3, s2, r4)"
    "computePlacements tg idx3 U m = Some (place, idx4)"
    "place_and_update tg de place (in_canary_state s2) (computeLimit tg U de m (in_canary_state s2) r4) dc3 r4 = Some (limit, dc4, r5)"
    "migrate_loop tg limit (nameOrder m) 0 r5 = (f, r6)"
    "r' = set_desired grp dc5 (create_deployment uuid grp job tg s3 (followup_wait tg f r6))"
    "U = (if in_canary_state s then difference u0 [stop] else alloc_union (difference u0 [stop]) [canaries])"
    "s1 = add_total existing (length de + length ip) s"
proof -
  obtain s ex where s: "group_state grp tg r = (s, ex)" by (cases "group_state grp tg r")
  note c = assms(3) [unfolded computeGroup_def assms(1,2) Option.bind.simps option.case s prod.case Let_def]
  show thesis
  proof (cases "in_canary_state s")
    case True
    from c [unfolded True if_True Option.bind.simps] show thesis
      apply (elim bind_SomeE)
      apply (clarsimp split: prod.splits elim!: bind_SomeE)
      apply (rule that [OF s])
                apply (assumption | simp add: True)+
      done
  next
    case False
    from c [unfolded False [THEN eq_False [THEN iffD2]] if_False] show thesis
      apply (elim bind_SomeE)
      apply (clarsimp split: prod.splits elim!: bind_SomeE)
      apply (rule that [OF s])
                apply (assumption | simp add: False)+
      done
  qed
qed

lemma length_put: "length (AList.update k v as) \<le> Suc (length as)"
  by (induction as) auto

lemma length_union: "length (alloc_union as [bs]) \<le> length as + length bs"
proof -
  have "length (fold (\<lambda>(k, v) u. AList.update k v u) xs acc) \<le> length acc + length xs" for xs :: alloc_set and acc
  proof (induction xs arbitrary: acc)
    case (Cons x xs)
    obtain k v where "x = (k, v)" by (cases x)
    then show ?case using Cons.IH [of "AList.update k v acc"] length_put [of k v acc] by auto
  qed simp
  from this [of bs "fold (\<lambda>(k, v) u. AList.update k v u) as []"] this [of as "[]"] show ?thesis
    by (simp add: alloc_union_def)
qed

lemma length_fromKeys: "length (fromKeys as [ks]) \<le> length as"
proof -
  have "length (fromKeys as [ks]) = card (fst ` set (fromKeys as [ks]))"
    using fromKeys_spec(1) [of as ks] by (metis distinct_card length_map set_map)
  also have "\<dots> \<le> card (fst ` set as)" by (rule card_mono) (auto simp: fromKeys_spec(3))
  also have "\<dots> \<le> length as" by (meson card_image_le card_length finite_set order_trans)
  finally show ?thesis .
qed

lemma length_difference: "length (difference as xs) \<le> length as"
  by (simp add: difference_def)

lemma length_filterByTainted: "filterByTainted nodes as = Some (u, m, l) \<Longrightarrow> length u + length m + length l = length as"
proof (induction as arbitrary: u m l)
  case (Cons p as)
  obtain k a where p: "p = (k, a)" by (cases p)
  from Cons.prems obtain u1 m1 l1 where r: "filterByTainted nodes as = Some (u1, m1, l1)"
    unfolding p by (auto simp: bind_eq_Some_conv)
  have "(u, m, l) = ((a_ID a, a) # u1, m1, l1) \<or> (u, m, l) = (u1, (a_ID a, a) # m1, l1) \<or>
      (u, m, l) = (u1, m1, (a_ID a, a) # l1)"
    using Cons.prems unfolding p filterByTainted.simps r by (simp split: option.splits if_splits)
  then show ?case using Cons.IH [OF r] by auto
qed simp

lemma length_handleGroupCanaries:
  assumes "handleGroupCanaries all dc r = Some (canaries, all1, dc1, r1)"
  shows "length canaries \<le> length all" "length all1 \<le> length all"
proof -
  let ?a = "difference all [fromKeys all [stale_canaries r]]"
  have a: "length ?a \<le> length all" by (rule length_difference)
  have "length canaries \<le> length all \<and> length all1 \<le> length all"
  proof (cases "r_deployment r")
    case None
    then show ?thesis using assms a by (auto simp: handleGroupCanaries_def Let_def markStop_def)
  next
    case (Some d)
    then obtain u m l where "filterByTainted (r_taintedNodes r) (fromKeys ?a [placed_canaries d]) = Some (u, m, l)"
        "canaries = u" "all1 = difference ?a [m, l]"
      using assms by (auto simp: handleGroupCanaries_def Let_def markStop_def bind_eq_Some_conv add_stop_def)
    then show ?thesis
      using a length_filterByTainted length_fromKeys [of ?a "placed_canaries d"] length_difference [of ?a "[m, l]"] by fastforce
  qed
  then show "length canaries \<le> length all" "length all1 \<le> length all" by auto
qed

lemma computeLimit_le:
  assumes "tg_Update tg = Some us" "0 \<le> us_MaxParallel us" "us_MaxParallel us < 2 ^ 63" "length U < 2 ^ 63" "de \<noteq> [] \<or> m \<noteq> []"
  shows "computeLimit tg U de m cs r \<le> us_MaxParallel us"
proof (cases "r_deployment r")
  case None
  then show ?thesis using assms by (auto simp: computeLimit_def)
next
  case (Some d)
  let ?as = "map snd (fst (filterByDeployment (d_ID d) U))"
  have "length (pending ?as) \<le> length ?as" by (rule length_filter_le)
  also have "\<dots> \<le> length U" by (simp add: filterByDeployment_def)
  finally have "int64 (us_MaxParallel us - int (length (pending ?as)))" "int64 (us_MaxParallel us)"
    using assms(2-4) by (auto simp: int64_def)
  then have "limit_loop ?as (us_MaxParallel us) \<le> us_MaxParallel us" using limit_loop_eq [of "us_MaxParallel us" ?as] assms(2) by auto
  then show ?thesis using assms Some by (auto simp: computeLimit_def)
qed

abbreviation replacements :: "alloc_place_result list \<Rightarrow> alloc_place_result list" where
  "replacements ps \<equiv> filter (\<lambda>p. ap_previousAlloc p \<noteq> None) ps"

lemma place_canaries_places:
  assumes "place_canaries tg existing canaries de idx dc s r = Some (idx', dc', s', r')"
  shows "\<exists>ps. rr_place (r_result r') = rr_place (r_result r) @ ps \<and> replacements ps = []"
    "r_deploymentPaused r' = r_deploymentPaused r" "r_deploymentFailed r' = r_deploymentFailed r"
  using assms by (auto simp: place_canaries_def Let_def filter_empty_conv split: option.splits if_splits elim!: bind_SomeE)

lemma migrate_loop_stopped:
  "r_deploymentFailed r \<or> r_deploymentPaused r \<Longrightarrow>
   rr_place (r_result (snd (migrate_loop tg limit as k r))) = rr_place (r_result r)"
  by (induction as arbitrary: r) auto

lemma place_only:
  assumes "computePlacements tg idx U m = Some (place, idx')"
  shows "replacements place = []"
  using assms by (auto simp: computePlacements_def Let_def filter_empty_conv split: if_splits elim!: bind_SomeE)

lemma update_and_migrate:
  assumes "place_and_update tg de place cs limit0 dc r = Some (limit, dc', r')" "replacements place = []"
    "0 \<le> max_parallel" "de \<noteq> [] \<or> m \<noteq> [] \<Longrightarrow> limit0 \<le> max_parallel" "cs \<Longrightarrow> de \<noteq> [] \<or> m \<noteq> [] \<Longrightarrow> limit0 = 0"
  shows "\<exists>ps. rr_place (r_result (snd (migrate_loop tg limit (nameOrder m) 0 r'))) = rr_place (r_result r) @ ps \<and>
    int (length (replacements ps)) \<le> max_parallel \<and>
    (r_deploymentPaused r \<or> r_deploymentFailed r \<or> cs \<longrightarrow> replacements ps = [])"
proof (cases "r_deploymentPaused r \<or> r_deploymentFailed r")
  case True
  then have "r' = r" using assms(1) by (auto simp: place_and_update_def)
  then show ?thesis using migrate_loop_stopped [of r] True assms(3) by (intro exI [of _ "[]"]) auto
next
  case False
  show ?thesis
  proof (cases cs)
    case True
    then have r': "r' = r" "limit = limit0" using assms(1) False by (auto simp: place_and_update_def)
    have "limit0 = 0 \<or> nameOrder m = []" using assms(5) True by (cases m) (simp_all add: nameOrder_def)
    then show ?thesis using migrate_loop_spec [of r 0 limit "nameOrder m" tg] False r' assms(3) by (intro exI [of _ "[]"]) auto
  next
    case noc: False
    define n where "n = min (int (length de)) limit0"
    define xs where "xs = take (nat n) (nameOrder de)"
    have n: "0 \<le> n" "limit = limit0 - n" "r' = add_place (map (replace_of tg) xs) (add_stop (map (stop_of '''' allocUpdating) xs) (add_place place r))"
      using assms(1) False noc by (auto simp: place_and_update_def Let_def n_def xs_def split: if_splits)
    define zs where "zs = take (nat limit) (nameOrder m)"
    have ml: "snd (migrate_loop tg limit (nameOrder m) 0 r') = add_place (map (replace_of tg) zs) (add_stop (map (stop_of '''' allocMigrating) zs) r')"
      using migrate_loop_spec [of r' 0 limit "nameOrder m" tg] False n unfolding zs_def n_def by auto
    have all: "replacements (map (replace_of tg) as) = map (replace_of tg) as" for as by (induction as) auto
    have "length xs + length zs \<le> nat (max_parallel)"
    proof (cases "de = [] \<and> m = []")
      case True
      then show ?thesis by (simp add: xs_def zs_def nameOrder_def)
    next
      case False
      then have "limit0 \<le> max_parallel" using assms(4) by blast
      moreover have "length xs \<le> nat n" "length zs \<le> nat limit" by (simp_all add: xs_def zs_def)
      moreover have "n \<le> limit0" by (simp add: n_def)
      ultimately show ?thesis using n(1,2) by linarith
    qed
    then show ?thesis using ml n(3) assms(2,3) False noc
      by (intro exI [of _ "place @ map (replace_of tg) xs @ map (replace_of tg) zs"]) (simp add: all)
  qed
qed

lemma computeGroup_within_limit:
  assumes "r_job r = Some job" "LookupTaskGroup job grp = Some tg" "computeGroup uuid grp all0 r = Some (c, r')"
    "tg_Update tg = Some us" "0 \<le> us_MaxParallel us" "us_MaxParallel us < 2 ^ 63" "length all0 < 2 ^ 62"
  shows "\<exists>ps. rr_place (r_result r') = rr_place (r_result r) @ ps \<and> int (length (replacements ps)) \<le> us_MaxParallel us \<and>
    (r_deploymentPaused r \<or> r_deploymentFailed r \<longrightarrow> replacements ps = [])"
proof -
  from computeGroup_calls [OF assms(1-3)]
  obtain s existing canaries all1 dc1 r1 u0 m0 l idx0 stop m idx1 r2 U idx2 ig ip de r3 dc2 s1 idx3 dc3 s2 r4 place idx4 limit dc4 r5 f r6 dc5 s3
  where "group_state grp tg r = (s, existing)" and c: "handleGroupCanaries all0 no_updates r = Some (canaries, all1, dc1, r1)"
    "filterByTainted (r_taintedNodes r) all1 = Some (u0, m0, l)"
    "computeStop tg idx0 u0 m0 l canaries (in_canary_state s) r1 = Some (stop, m, idx1, r2)"
    "computeUpdates job tg U ([], [], []) r2 = ((ig, ip, de), r3)"
    "place_canaries tg existing canaries de idx2 dc2 s1 r3 = Some (idx3, dc3, s2, r4)"
    "computePlacements tg idx3 U m = Some (place, idx4)"
    "place_and_update tg de place (in_canary_state s2) (computeLimit tg U de m (in_canary_state s2) r4) dc3 r4 = Some (limit, dc4, r5)"
    "migrate_loop tg limit (nameOrder m) 0 r5 = (f, r6)"
    "r' = set_desired grp dc5 (create_deployment uuid grp job tg s3 (followup_wait tg f r6))"
    "U = (if in_canary_state s then difference u0 [stop] else alloc_union (difference u0 [stop]) [canaries])"
    "s1 = add_total existing (length de + length ip) s"
    .
  have "same_places r r3"
    using handleGroupCanaries_same [OF c(1)] computeStop_same [OF c(3)] computeUpdates_same [OF c(4)] same_places_trans by blast
  moreover obtain cps where "rr_place (r_result r4) = rr_place (r_result r3) @ cps" "replacements cps = []"
      "r_deploymentPaused r4 = r_deploymentPaused r3" "r_deploymentFailed r4 = r_deploymentFailed r3"
    using place_canaries_places [OF c(5)] by blast
  ultimately have r4: "rr_place (r_result r4) = rr_place (r_result r) @ cps" "replacements cps = []"
      "r_deploymentPaused r4 = r_deploymentPaused r" "r_deploymentFailed r4 = r_deploymentFailed r"
    by (auto simp: same_places_def)
  have "length U \<le> length u0 + length canaries"
    using c(10) length_union [of "difference u0 [stop]" canaries] length_difference [of u0 "[stop]"] by (auto split: if_splits)
  then have lu: "length U < 2 ^ 63"
    using length_handleGroupCanaries [OF c(1)] length_filterByTainted [OF c(2)] assms(7) by auto
  have z: "computeLimit tg U de m (in_canary_state s2) r4 = 0" if "in_canary_state s2" "de \<noteq> [] \<or> m \<noteq> []"
    using that assms(4) by (auto simp: computeLimit_def)
  have lim: "computeLimit tg U de m (in_canary_state s2) r4 \<le> us_MaxParallel us" if "de \<noteq> [] \<or> m \<noteq> []"
    by (rule computeLimit_le [OF assms(4-6) lu that])
  have um: "\<exists>ps. rr_place (r_result (snd (migrate_loop tg limit (nameOrder m) 0 r5))) = rr_place (r_result r4) @ ps \<and>
    int (length (replacements ps)) \<le> us_MaxParallel us \<and>
    (r_deploymentPaused r4 \<or> r_deploymentFailed r4 \<or> in_canary_state s2 \<longrightarrow> replacements ps = [])"
    by (rule update_and_migrate [OF c(7) place_only [OF c(6)] assms(5) lim z])
  then obtain ps where "rr_place (r_result r6) = rr_place (r_result r4) @ ps" "int (length (replacements ps)) \<le> us_MaxParallel us"
      "r_deploymentPaused r4 \<or> r_deploymentFailed r4 \<longrightarrow> replacements ps = []"
    unfolding c(8) snd_conv by blast
  moreover have "rr_place (r_result r') = rr_place (r_result r6)" unfolding c(9) by simp
  ultimately show ?thesis using r4 by (intro exI [of _ "cps @ ps"]) simp
qed

section \<open>A deployment is created once\<close>

definition same_deployment :: "alloc_reconciler \<Rightarrow> alloc_reconciler \<Rightarrow> bool" where
  "same_deployment r r' \<longleftrightarrow> r_job r' = r_job r \<and> r_deployment r' = r_deployment r \<and>
     rr_deployment (r_result r') = rr_deployment (r_result r)"

lemma same_deployment_trans: "same_deployment r r' \<Longrightarrow> same_deployment r' r'' \<Longrightarrow> same_deployment r r''"
  by (simp add: same_deployment_def)

lemma same_deployment_add [simp]:
  "same_deployment r (add_place ps r') \<longleftrightarrow> same_deployment r r'" "same_deployment r (add_stop ss r') \<longleftrightarrow> same_deployment r r'"
  "same_deployment r (set_desired g dc r') \<longleftrightarrow> same_deployment r r'" "same_deployment r (followup_wait tg f r') \<longleftrightarrow> same_deployment r r'"
  "same_deployment r r"
  by (simp_all add: same_deployment_def add_place_def add_stop_def set_desired_def followup_wait_def split: option.split)

lemma same_places_deployment: "same_places r r' \<Longrightarrow> same_deployment r r'"
  by (simp add: same_places_def same_deployment_def)

lemma place_canaries_deployment:
  "place_canaries tg existing canaries de idx dc s r = Some (idx', dc', s', r') \<Longrightarrow> same_deployment r r'"
  by (auto simp: place_canaries_def Let_def split: option.splits if_splits elim!: bind_SomeE)

lemma place_and_update_deployment:
  "place_and_update tg de place cs limit0 dc r = Some (limit, dc', r') \<Longrightarrow> same_deployment r r'"
  by (auto simp: place_and_update_def Let_def split: if_splits)

lemma migrate_loop_deployment: "same_deployment r (snd (migrate_loop tg limit as k r))"
proof (induction as arbitrary: k r)
  case (Cons a as)
  show ?case
    using Cons.IH [of "add_stop [stop_of '''' allocNodeTainted a] r" k]
      Cons.IH [of "add_place [replace_of tg a] (add_stop [stop_of '''' allocMigrating a] r)" "k + 1"]
      same_deployment_trans [of r "add_stop [stop_of '''' allocNodeTainted a] r"]
      same_deployment_trans [of r "add_place [replace_of tg a] (add_stop [stop_of '''' allocMigrating a] r)"]
    by simp
qed simp

text \<open>A group leaves the deployment alone, or creates it with itself as the only group.\<close>

lemma computeGroup_deployment:
  assumes "r_job r = Some job" "computeGroup uuid grp all0 r = Some (c, r')"
  shows "same_deployment r r' \<or>
    r_job r' = r_job r \<and> r_deployment r = None \<and>
    (\<exists>d. r_deployment r' = Some d \<and> rr_deployment (r_result r') = Some d \<and> map fst (d_TaskGroups d) = [grp])"
proof (cases "LookupTaskGroup job grp")
  case None
  then have "same_deployment r r'"
    using assms by (auto simp: computeGroup_def stop_group_def markStop_def elim!: bind_SomeE)
  then show ?thesis ..
next
  case (Some tg)
  from computeGroup_calls [OF assms(1) Some assms(2)]
  obtain s existing canaries all1 dc1 r1 u0 m0 l idx0 stop m idx1 r2 U idx2 ig ip de r3 dc2 s1 idx3 dc3 s2 r4 place idx4 limit dc4 r5 f r6 dc5 s3
  where "group_state grp tg r = (s, existing)" and c: "handleGroupCanaries all0 no_updates r = Some (canaries, all1, dc1, r1)"
    "filterByTainted (r_taintedNodes r) all1 = Some (u0, m0, l)"
    "computeStop tg idx0 u0 m0 l canaries (in_canary_state s) r1 = Some (stop, m, idx1, r2)"
    "computeUpdates job tg U ([], [], []) r2 = ((ig, ip, de), r3)"
    "place_canaries tg existing canaries de idx2 dc2 s1 r3 = Some (idx3, dc3, s2, r4)"
    "computePlacements tg idx3 U m = Some (place, idx4)"
    "place_and_update tg de place (in_canary_state s2) (computeLimit tg U de m (in_canary_state s2) r4) dc3 r4 = Some (limit, dc4, r5)"
    "migrate_loop tg limit (nameOrder m) 0 r5 = (f, r6)"
    "r' = set_desired grp dc5 (create_deployment uuid grp job tg s3 (followup_wait tg f r6))"
    "U = (if in_canary_state s then difference u0 [stop] else alloc_union (difference u0 [stop]) [canaries])"
    "s1 = add_total existing (length de + length ip) s"
    .
  have "same_places r r3"
    using handleGroupCanaries_same [OF c(1)] computeStop_same [OF c(3)] computeUpdates_same [OF c(4)] same_places_trans by blast
  moreover have "same_deployment r5 r6" using migrate_loop_deployment [of r5 tg limit "nameOrder m" 0] c(8) by simp
  ultimately have "same_deployment r r6"
    using same_places_deployment place_canaries_deployment [OF c(5)] place_and_update_deployment [OF c(7)] same_deployment_trans by blast
  then have w: "same_deployment r (followup_wait tg f r6)" by simp
  then show ?thesis
    unfolding c(9) create_deployment_def Let_def by (auto simp: same_deployment_def set_desired_def)
qed

lemma compute_groups_deployment:
  assumes "r_job r = Some job" "rr_deployment (r_result r) = None \<or> (\<exists>d. r_deployment r = Some d \<and> rr_deployment (r_result r) = Some d \<and> length (d_TaskGroups d) = 1)"
    "compute_groups uuid m c r = Some (c', r')"
  shows "rr_deployment (r_result r') = None \<or> (\<exists>d. rr_deployment (r_result r') = Some d \<and> length (d_TaskGroups d) = 1)"
  using assms
proof (induction m arbitrary: c r)
  case (Cons p m)
  obtain g as where p: "p = (g, as)" by (cases p)
  from Cons.prems(3) obtain gc r1 where r1: "computeGroup uuid g as r = Some (gc, r1)" "compute_groups uuid m (c \<and> gc) r1 = Some (c', r')"
    unfolding p by (auto elim!: bind_SomeE)
  have "length (d_TaskGroups d) = 1" if "map fst (d_TaskGroups d) = [g]" for d using arg_cong [OF that, of length] by simp
  then have "r_job r1 = Some job" "rr_deployment (r_result r1) = None \<or> (\<exists>d. r_deployment r1 = Some d \<and> rr_deployment (r_result r1) = Some d \<and> length (d_TaskGroups d) = 1)"
    using computeGroup_deployment [OF Cons.prems(1) r1(1)] Cons.prems(1,2) unfolding same_deployment_def by (auto simp del: not_None_eq)
  then show ?case using Cons.IH r1(2) by blast
qed auto

lemma cancelDeployments_results: "rr_deployment (r_result (cancelDeployments r)) = rr_deployment (r_result r)" "r_job (cancelDeployments r) = r_job r"
  by (simp_all add: cancelDeployments_def add_update_def Let_def split: option.split)

lemma Compute_one_group:
  assumes "Compute order uuid r = Some res" "rr_deployment (r_result r) = None" "rr_deployment res = Some d" "\<not> job_Stopped (r_job r)"
  shows "length (d_TaskGroups d) = 1"
proof -
  let ?r1 = "detect_paused (cancelDeployments r)"
  have d: "rr_deployment (r_result ?r1) = None" "r_job ?r1 = r_job r"
    using assms(2) cancelDeployments_results [of r] by (simp_all add: detect_paused_def split: option.split)
  obtain job where job: "r_job r = Some job" using assms(4) by (auto simp: job_Stopped_def split: option.splits)
  obtain complete r2 where r2: "compute_groups uuid (order (newAllocMatrix (r_job r) (r_existingAllocs r))) True ?r1 = Some (complete, r2)"
      "\<exists>d'. rr_deployment (r_result r2) = Some d' \<and> d_TaskGroups d' = d_TaskGroups d"
    using assms cancelDeployments_results(2) [of r]
    by (auto simp: Compute_def Let_def add_update_def split: option.splits if_splits elim!: bind_SomeE)
  have "r_job ?r1 = Some job" using d job by simp
  from compute_groups_deployment [OF this _ r2(1)] d(1) r2(2) show ?thesis by auto
qed

section \<open>A limit below zero\<close>

lemma tainted_none: "list_all (\<lambda>(k, a). k = a_ID a) as \<Longrightarrow> filterByTainted Map.empty as = Some (as, [], [])"
  by (induction as) auto

lemma computeUpdates_destructive:
  assumes "computeUpdates job tg as (ig, ip, de) r = ((ig', ip', de'), r')"
    "de \<noteq> [] \<or> (\<exists>(k, a) \<in> set as. \<exists>b. r_allocUpdateFn r a job tg = (False, True, b))"
  shows "de' \<noteq> []"
  using assms
proof (induction as arbitrary: ig ip de r)
  case (Cons p as)
  obtain k a where p: "p = (k, a)" by (cases p)
  obtain ch dch ia where u: "r_allocUpdateFn r a job tg = (ch, dch, ia)" by (cases "r_allocUpdateFn r a job tg")
  have ne: "amap_put (a_ID a) a de \<noteq> []" by (cases de) auto
  show ?case
  proof (cases "ch \<or> \<not> dch")
    case True
    then have rest: "de \<noteq> [] \<or> (\<exists>(k, a) \<in> set as. \<exists>b. r_allocUpdateFn r a job tg = (False, True, b))"
      using Cons.prems(2) p u by auto
    show ?thesis
    proof (cases ch)
      case True
      then show ?thesis using Cons.prems(1) p u rest by (intro Cons.IH [of "amap_put (a_ID a) a ig" ip de r]) simp_all
    next
      case ip: False
      then show ?thesis using Cons.prems(1) p u rest True
        by (intro Cons.IH [of ig "amap_put (a_ID a) a ip" de "with_inplace [ia] r"]) simp_all
    qed
  next
    case False
    then show ?thesis using Cons.prems(1) p u ne by (intro Cons.IH [of ig ip "amap_put (a_ID a) a de" r]) simp_all
  qed
qed simp

text \<open>
  A group at or below its count, on sound nodes, without canaries, with an active deployment of which no allocation is
  unhealthy: when more of its allocations are still to become healthy than \<open>MaxParallel\<close>, and one has to be replaced, the
  limit is negative and the slice expression panics.
\<close>

lemma pending_over_limit:
  assumes "r_job r = Some job" "LookupTaskGroup job grp = Some tg" "tg_Update tg = Some us" "alloc_set_ok all"
    "r_taintedNodes r = Map.empty" "r_deployment r = Some d" "\<not> r_deploymentPaused r" "\<not> r_deploymentFailed r"
    "stale_canaries r = []" "placed_canaries d = []" "us_Canary us \<le> 0" "\<not> in_canary_state (fst (group_state grp tg r))"
    "int (length all) \<le> tg_Count tg" "tg_Count tg < 2 ^ 63" "0 \<le> us_MaxParallel us"
    "(k, a) \<in> set all" "r_allocUpdateFn r a job tg = (False, True, b)"
    "\<not> list_ex ads_IsUnhealthy (map a_DeploymentStatus (map snd (fst (filterByDeployment (d_ID d) all))))"
    "us_MaxParallel us < int (length (pending (map snd (fst (filterByDeployment (d_ID d) all)))))"
  shows "computeGroup uuid grp all r = None"
proof (rule ccontr)
  assume "computeGroup uuid grp all r \<noteq> None"
  then obtain c r' where "computeGroup uuid grp all r = Some (c, r')" by auto
  from computeGroup_calls [OF assms(1,2) this]
  obtain s existing canaries all1 dc1 r1 u0 m0 l idx0 stop m idx1 r2 U idx2 ig ip de r3 dc2 s1 idx3 dc3 s2 r4 place idx4 limit dc4 r5 f r6 dc5 s3
  where gs: "group_state grp tg r = (s, existing)" and c: "handleGroupCanaries all no_updates r = Some (canaries, all1, dc1, r1)"
    "filterByTainted (r_taintedNodes r) all1 = Some (u0, m0, l)"
    "computeStop tg idx0 u0 m0 l canaries (in_canary_state s) r1 = Some (stop, m, idx1, r2)"
    "computeUpdates job tg U ([], [], []) r2 = ((ig, ip, de), r3)"
    "place_canaries tg existing canaries de idx2 dc2 s1 r3 = Some (idx3, dc3, s2, r4)"
    "computePlacements tg idx3 U m = Some (place, idx4)"
    "place_and_update tg de place (in_canary_state s2) (computeLimit tg U de m (in_canary_state s2) r4) dc3 r4 = Some (limit, dc4, r5)"
    "migrate_loop tg limit (nameOrder m) 0 r5 = (f, r6)"
    "r' = set_desired grp dc5 (create_deployment uuid grp job tg s3 (followup_wait tg f r6))"
    "U = (if in_canary_state s then difference u0 [stop] else alloc_union (difference u0 [stop]) [canaries])"
    "s1 = add_total existing (length de + length ip) s"
    .
  have ids: "list_all (\<lambda>(k, a). k = a_ID a) all" "distinct (map fst all)" using assms(4) by (auto simp: alloc_set_ok_def)
  have nf: "\<not> in_canary_state s" using assms(12) gs by simp
  have "live r all = all" by (simp add: live_def assms(9))
  then have 1: "canaries = []" "all1 = all"
    using handleGroupCanaries_none [OF assms(4), of r no_updates] c(1) assms(6,10) by auto
  then have 2: "u0 = all" "m0 = []" "l = []" using c(2) tainted_none [OF ids(1)] by (simp_all add: assms(5))
  have w: "wrap64 (int (length all) - tg_Count tg) = int (length all) - tg_Count tg"
    using assms(13,14) by (intro wrap64_id) (simp add: int64_def)
  have 3: "stop = []" "m = []"
    using c(3) nf assms(13) by (simp_all add: 1 2 computeStop_def Let_def w union_nil)
  have U: "U = all" using c(10) nf ids(2) by (simp add: 1 2 3 difference_single union_nil_right)
  have r3: "same_places r r2" "same_places r r3"
    using handleGroupCanaries_same [OF c(1)] computeStop_same [OF c(3)] computeUpdates_same [OF c(4)] same_places_trans by blast+
  have "r_allocUpdateFn r2 = r_allocUpdateFn r" using r3(1) by (simp add: same_places_def)
  then have de: "de \<noteq> []"
    using computeUpdates_destructive [OF c(4)] assms(16,17) U by fastforce
  have 4: "s2 = s1" "r4 = r3" using c(5) assms(3,11) 1 by (auto simp: place_canaries_def needs_canary_def)
  have nf2: "\<not> in_canary_state s2" using nf by (simp add: 4 c(11))
  let ?as = "map snd (fst (filterByDeployment (d_ID d) all))"
  have len: "length ?as \<le> length all" by (simp add: filterByDeployment_def)
  have "computeLimit tg U de m (in_canary_state s2) r4 = limit_loop ?as (us_MaxParallel us)"
    using assms(3,6,7,8) r3(2) de nf2 by (simp add: computeLimit_def U 4 same_places_def)
  also have "\<dots> = us_MaxParallel us - int (length (pending ?as))"
  proof -
    have "length (pending ?as) \<le> length all" using len length_filter_le le_trans by blast
    then show ?thesis using assms(13-15,18,19) by (subst limit_loop_eq) (auto simp: int64_def list_ex_iff)
  qed
  finally have "computeLimit tg U de m (in_canary_state s2) r4 < 0" using assms(19) by simp
  then show False using c(7) nf2 r3(2) assms(7,8) by (simp add: place_and_update_def Let_def 4 same_places_def split: if_splits)
qed

end
