(* ===== verification/Reconcile_Runs.thy ===== *)
theory Reconcile_Runs
  imports Reconcile_Correct
begin

text \<open>
  The properties of the reconciler, with runs that show them at work and runs in which it fails: a
  bitmap that is one byte short, an update limit below zero, and a deployment that knows one group of
  several.
\<close>

section \<open>Types\<close>

lemma list_all_put: "list_all P m \<Longrightarrow> P (k, v) \<Longrightarrow> list_all P (AList.update k v m)"
  by (induction m) auto

lemma put_ok: "alloc_set_ok as \<Longrightarrow> alloc_set_ok (AList.update (a_ID a) a as)"
  by (simp add: alloc_set_ok_def list_all_put)

text \<open>A row of the matrix: a well-formed set of allocations of the group.\<close>

definition matrix_ok :: "alloc_matrix \<Rightarrow> bool" where
  "matrix_ok m \<longleftrightarrow> distinct (map fst m) \<and> list_all (\<lambda>(g, s). alloc_set_ok s \<and> list_all (\<lambda>(_, a). a_TaskGroup a = g) s) m"

lemma matrix_put:
  assumes "matrix_ok m" "alloc_set_ok s" "list_all (\<lambda>(_, a). a_TaskGroup a = g) s"
  shows "matrix_ok (AList.update g s m)"
  using assms by (simp add: matrix_ok_def list_all_put)

lemma matrix_row:
  assumes "matrix_ok m"
  shows "alloc_set_ok (amap_get [] m g)" "list_all (\<lambda>(_, a). a_TaskGroup a = g) (amap_get [] m g)"
  using assms by (auto simp: matrix_ok_def go_get_def list_all_iff alloc_set_ok_def split: option.split dest!: map_of_SomeD)

lemma newAllocMatrix_ok: "matrix_ok (newAllocMatrix job allocs)"
proof -
  have add: "matrix_ok (AList.update (a_TaskGroup a) (AList.update (a_ID a) a (amap_get [] m (a_TaskGroup a))) m)" if "matrix_ok m" for a m
    using matrix_row [OF that, of "a_TaskGroup a"] by (intro matrix_put [OF that] put_ok list_all_put) simp_all
  have f1: "matrix_ok (fold (\<lambda>a m. AList.update (a_TaskGroup a) (AList.update (a_ID a) a (amap_get [] m (a_TaskGroup a))) m) as m)"
    if "matrix_ok m" for as :: "allocation list" and m
    using that by (induction as arbitrary: m) (auto simp: add)
  have f2: "matrix_ok (fold (\<lambda>tg m. if map_of m (tg_Name tg) = None then AList.update (tg_Name tg) [] m else m) tgs m)"
    if "matrix_ok m" for tgs :: "task_group list" and m
    using that by (induction tgs arbitrary: m) (auto simp: matrix_put alloc_set_ok_def)
  have "matrix_ok []" by (simp add: matrix_ok_def)
  then show ?thesis using f1 f2 by (cases job) (simp_all add: newAllocMatrix_def Let_def)
qed

lemma map_of_fold_put: "map_of (fold (\<lambda>(k, v) u. AList.update k v u) xs acc) = map_of acc ++ map_of (rev xs)"
  by (induction xs arbitrary: acc) (auto simp: update_conv' map_add_upd_left)

lemma map_of_union:
  assumes "\<forall>s \<in> set (as # others). distinct (map fst s)"
  shows "map_of (alloc_union as others) = fold (\<lambda>s m. m ++ map_of s) (as # others) Map.empty"
proof -
  have "map_of (fold (\<lambda>s u. fold (\<lambda>(k, v) u. AList.update k v u) s u) ss acc) = fold (\<lambda>s m. m ++ map_of s) ss (map_of acc)"
    if "\<forall>s \<in> set ss. distinct (map fst s)" for ss :: "alloc_set list" and acc
    using that
  proof (induction ss arbitrary: acc)
    case (Cons s ss)
    have "distinct (map fst (rev s))" "distinct (map fst s)" using Cons.prems by (simp_all flip: rev_map)
    then have "map_of (rev s) = map_of s" by (metis map_of_inject_set set_rev)
    then show ?case using Cons by (simp add: map_of_fold_put)
  qed simp
  from this [OF assms, of "[]"] show ?thesis by (simp add: alloc_union_def)
qed

lemma map_of_difference: "map_of (difference as others) = map_of as |` (- (\<Union>s \<in> set others. dom (map_of s)))"
proof -
  let ?S = "\<Union>s \<in> set others. dom (map_of s)"
  have "difference as others = filter (\<lambda>(k, _). k \<notin> ?S) as"
    by (auto simp: difference_def list_ex_iff dom_def intro!: filter_cong)
  moreover have "map_of (filter (\<lambda>(k, _). k \<notin> S) as) = map_of as |` (- S)" for S
    by (induction as) (auto simp: restrict_map_def fun_eq_iff)
  ultimately show ?thesis by (simp only:)
qed

lemma map_of_fromKeys: "map_of (fromKeys as keys) = map_of as |` set (concat keys)"
proof -
  have "map_of (fold (\<lambda>k from. case map_of as k of Some a \<Rightarrow> AList.update k a from | None \<Rightarrow> from) ks acc) =
      map_of acc ++ (map_of as |` set ks)" for ks acc
  proof (induction ks arbitrary: acc)
    case (Cons k ks)
    then show ?case
      by (cases "map_of as k") (auto simp: update_conv' restrict_map_def map_add_def fun_eq_iff split: option.split)
  qed simp
  then show ?thesis by (simp add: fromKeys_def)
qed

text \<open>What becomes of an allocation, by the node it is on.\<close>

datatype fate = Stays | Migrates | IsLost

definition node_fate :: "(string \<rightharpoonup> node option) \<Rightarrow> allocation \<Rightarrow> fate" where
  "node_fate nodes a =
     (if nodes (a_NodeID a) = None \<or> (map_option j_Type (a_Job a) = Some JobTypeBatch \<and> RanSuccessfully a) then Stays
      else if (\<exists>node. nodes (a_NodeID a) = Some (Some node) \<and> \<not> node_TerminalStatus node) then Migrates else IsLost)"

lemma filterByTainted_filters:
  "filterByTainted nodes as = Some (u, m, l) \<Longrightarrow> list_all (\<lambda>(k, a). k = a_ID a) as \<Longrightarrow>
   u = filter (\<lambda>(_, a). node_fate nodes a = Stays) as \<and> m = filter (\<lambda>(_, a). node_fate nodes a = Migrates) as \<and>
   l = filter (\<lambda>(_, a). node_fate nodes a = IsLost) as"
proof (induction as arbitrary: u m l)
  case (Cons p as)
  obtain k a where p: "p = (k, a)" by (cases p)
  from Cons.prems(1) obtain u1 m1 l1 where r: "filterByTainted nodes as = Some (u1, m1, l1)"
    unfolding p by (auto simp: bind_eq_Some_conv)
  have "k = a_ID a" "list_all (\<lambda>(k, a). k = a_ID a) as" using Cons.prems(2) p by auto
  moreover have "(u, m, l) = (case node_fate nodes a of Stays \<Rightarrow> ((a_ID a, a) # u1, m1, l1)
      | Migrates \<Rightarrow> (u1, (a_ID a, a) # m1, l1) | IsLost \<Rightarrow> (u1, m1, (a_ID a, a) # l1))"
    using Cons.prems(1) unfolding p filterByTainted.simps r
    by (auto simp: node_fate_def split: option.splits if_splits)
  ultimately show ?case using Cons.IH [OF r] p by (auto split: fate.splits)
qed simp

lemma map_of_part:
  "distinct (map fst as) \<Longrightarrow> map_of (filter (\<lambda>(_, a). P a) as) k = Some a \<longleftrightarrow> map_of as k = Some a \<and> P a"
  by (subst map_of_eq_Some_iff) (auto simp: distinct_map_filter)

text \<open>
  C40: Allocation sets behave as finite maps from ID to allocation: difference, union and selection by keys are the
  map operations, for any number of further arguments. The split by tainted node is exact: with its keys, the untainted part
  holds the allocations whose node is not tainted or that are finished batch work, the migrating part those on a node that is
  draining, and the lost part those on a node that is down or gone.
\<close>

theorem alloc_sets_refine_maps:
  assumes "alloc_set_ok as" "list_all alloc_set_ok others" "filterByTainted nodes as = Some (untainted, migrate, lost)"
  shows "map_of (difference as others) = map_of as |` (- (\<Union>s \<in> set others. dom (map_of s))) \<and>
    map_of (alloc_union as others) = fold (\<lambda>s m. m ++ map_of s) others (map_of as) \<and>
    map_of (fromKeys as keys) = map_of as |` set (concat keys) \<and>
    (map_of untainted k = Some a \<longleftrightarrow> map_of as k = Some a \<and> node_fate nodes a = Stays) \<and>
    (map_of migrate k = Some a \<longleftrightarrow> map_of as k = Some a \<and> node_fate nodes a = Migrates) \<and>
    (map_of lost k = Some a \<longleftrightarrow> map_of as k = Some a \<and> node_fate nodes a = IsLost)"
proof -
  have ids: "list_all (\<lambda>(k, a). k = a_ID a) as" and d: "distinct (map fst as)" using assms(1) by (auto simp: alloc_set_ok_def)
  have "\<forall>s \<in> set (as # others). distinct (map fst s)" using assms(1,2) by (auto simp: alloc_set_ok_def list_all_iff)
  from map_of_union [OF this] have "map_of (alloc_union as others) = fold (\<lambda>s m. m ++ map_of s) others (map_of as)" by simp
  moreover note filterByTainted_filters [OF assms(3) ids]
  ultimately show ?thesis
    by (simp add: map_of_difference map_of_fromKeys map_of_part [OF d] del: fold_simps)
qed

section \<open>Runs\<close>

text \<open>A job with one group of \<open>n\<close> allocations that is updated one at a time.\<close>

definition ex_strategy :: update_strategy where
  "ex_strategy = \<lparr>us_Stagger = 30, us_MaxParallel = 1, us_HealthCheck = ''checks'', us_MinHealthyTime = 10,
     us_HealthyDeadline = 300, us_AutoRevert = False, us_Canary = 0\<rparr>"

definition ex_group :: "string \<Rightarrow> int \<Rightarrow> task_group" where
  "ex_group g n = zero_task_group\<lparr>tg_Name := g, tg_Count := n, tg_Update := Some ex_strategy\<rparr>"

definition ex_job :: "nat \<Rightarrow> task_group list \<Rightarrow> job" where
  "ex_job v tgs = zero_job\<lparr>j_ID := ''j'', j_Type := JobTypeService, j_Version := v, j_TaskGroups := tgs\<rparr>"

definition ex_alloc :: "string \<Rightarrow> nat \<Rightarrow> job \<Rightarrow> string \<Rightarrow> allocation" where
  "ex_alloc k i job dep = zero_alloc\<lparr>a_ID := k, a_Name := AllocName ''j'' ''g'' i, a_JobID := ''j'', a_TaskGroup := ''g'',
     a_NodeID := ''n'', a_Job := Some job, a_DeploymentID := dep\<rparr>"

text \<open>Allocations of another version of the job have to be replaced.\<close>

definition by_version :: alloc_update_fn where
  "by_version a job tg = (map_option j_Version (a_Job a) = Some (j_Version job), True, None)"

definition ex_reconciler :: "job \<Rightarrow> deployment option \<Rightarrow> allocation list \<Rightarrow> alloc_reconciler" where
  "ex_reconciler job d allocs = NewAllocReconciler by_version False ''j'' (Some job) d allocs (\<lambda>_. None)"

definition old_job :: job where "old_job = ex_job 0 [ex_group ''g'' 2]"
definition new_job :: job where "new_job = ex_job 1 [ex_group ''g'' 4]"

text \<open>The deployment of a first round over the group, and of one over two groups.\<close>

definition ex_state :: "int \<Rightarrow> deployment_state" where
  "ex_state n = \<lparr>ds_AutoRevert = False, ds_Promoted = False, ds_PlacedCanaries = [], ds_DesiredCanaries = 0,
     ds_DesiredTotal = n, ds_PlacedAllocs = 0, ds_HealthyAllocs = 0, ds_UnhealthyAllocs = 0\<rparr>"

definition ex_deployment :: deployment where
  "ex_deployment = (NewDeployment ''d'' new_job)\<lparr>d_TaskGroups := [(''g'', ex_state 4)]\<rparr>"

abbreviation first_round :: alloc_reconciler where
  "first_round \<equiv> ex_reconciler new_job None [ex_alloc ''a'' 0 old_job '''', ex_alloc ''b'' 1 old_job '''']"

abbreviation second_round :: alloc_reconciler where
  "second_round \<equiv> ex_reconciler new_job (Some ex_deployment)
     [ex_alloc ''b'' 1 old_job '''', ex_alloc ''x'' 2 new_job ''d'', ex_alloc ''y'' 3 new_job ''d'', ex_alloc ''z'' 0 new_job ''d'']"

text \<open>
  A job that is changed and scaled up in one go, with one update at a time, makes the reconciler panic: the
  first round replaces one of two allocations and places two more, and in the next one the three
  allocations that are not healthy yet put the limit below zero, so that \<open>nameOrder()[:min]\<close> is out of range.
\<close>

lemma scale_up_update_panics:
  "map_option (\<lambda>res. (map ap_name (rr_place res), map as_alloc (rr_stop res), rr_deployment res)) (Compute id ''d'' first_round) =
     Some (map (AllocName ''j'' ''g'') [2, 3, 0], [ex_alloc ''a'' 0 old_job ''''], Some ex_deployment) \<and>
   Compute id ''e'' second_round = None"
  by (rule conjI; code_simp)

lemma ex_index: "i < 2 ^ 63 \<Longrightarrow> alloc_Index (ex_alloc k i job dep) = i"
  by (rule alloc_Index_name) (simp_all add: ex_alloc_def)

section \<open>Properties\<close>

text \<open>
  C34: A task group in good order (\<open>group_ok\<close>) converges in one round: \<open>computeGroup\<close> returns, every allocation it stops is
  one of the group, none is stopped twice, and what is kept together with what is placed is exactly the count of the group. In
  good order means: the deployment is neither paused nor failed, has no placed canaries and is not in its canary phase, and the
  update strategy asks for no canaries; the allocations carry their job and the name of their index, those that are not
  stale canaries have different indexes, and no index is a nonzero multiple of eight from the count on, for which the bitmap
  would be a byte short; at most \<open>MaxParallel\<close> allocations of the deployment are not healthy yet; the count is not
  negative, and it, \<open>MaxParallel\<close> and the number of allocations are below \<open>2 ^ 63\<close>.
\<close>

theorem computeGroup_converges:
  assumes "r_job r = Some job" "LookupTaskGroup job grp = Some tg" "group_ok grp tg all r"
  shows "\<exists>c r' stops places. computeGroup uuid grp all r = Some (c, r') \<and>
    rr_stop (r_result r') = rr_stop (r_result r) @ stops \<and> rr_place (r_result r') = rr_place (r_result r) @ places \<and>
    mset (map as_alloc stops) \<subseteq># mset (map snd all) \<and>
    int (length all) - int (length stops) + int (length places) = tg_Count tg"
  by (rule computeGroup_settles [OF assms])

text \<open>
  C37: The reconciler panics when a deployment has more allocations that are not healthy yet than \<open>MaxParallel\<close> and an
  update is left to do. For a group within its count, on sound nodes, without canaries, with an active deployment none of
  whose allocations is unhealthy: if more of these are pending than \<open>MaxParallel\<close> and some allocation of the group has to be
  replaced, then the limit is negative and \<open>nameOrder()[:min]\<close> is out of range. Lemma \<open>scale_up_update_panics\<close> is a run that
  gets there: a job that is changed and scaled up in one go.
\<close>

theorem pending_over_limit_panics:
  assumes "r_job r = Some job" "LookupTaskGroup job grp = Some tg" "tg_Update tg = Some us" "alloc_set_ok all"
    "r_taintedNodes r = Map.empty" "r_deployment r = Some d" "\<not> r_deploymentPaused r" "\<not> r_deploymentFailed r"
    "stale_canaries r = []" "placed_canaries d = []" "us_Canary us \<le> 0" "\<not> in_canary_state (fst (group_state grp tg r))"
    "int (length all) \<le> tg_Count tg" "tg_Count tg < 2 ^ 63" "0 \<le> us_MaxParallel us"
    "(k, a) \<in> set all" "r_allocUpdateFn r a job tg = (False, True, b)"
    "\<not> list_ex ads_IsUnhealthy (map a_DeploymentStatus (map snd (fst (filterByDeployment (d_ID d) all))))"
    "us_MaxParallel us < int (length (pending (map snd (fst (filterByDeployment (d_ID d) all)))))"
  shows "computeGroup uuid grp all r = None"
  by (rule pending_over_limit [OF assms])

text \<open>
  C35: A rolling update stays within its strategy: in one round \<open>computeGroup\<close> replaces, for an update or a
  migration, at most \<open>MaxParallel\<close> allocations of the group, and none while the deployment is paused or failed.
\<close>

theorem rolling_update_bounded:
  assumes "r_job r = Some job" "LookupTaskGroup job grp = Some tg" "computeGroup uuid grp all0 r = Some (c, r')"
    "tg_Update tg = Some us" "0 \<le> us_MaxParallel us" "us_MaxParallel us < 2 ^ 63" "length all0 < 2 ^ 62"
  shows "\<exists>ps. rr_place (r_result r') = rr_place (r_result r) @ ps \<and>
    int (length (filter (\<lambda>p. ap_previousAlloc p \<noteq> None) ps)) \<le> us_MaxParallel us \<and>
    (r_deploymentPaused r \<or> r_deploymentFailed r \<longrightarrow> filter (\<lambda>p. ap_previousAlloc p \<noteq> None) ps = [])"
  by (rule computeGroup_within_limit [OF assms])

text \<open>
  C38: A deployment that \<open>Compute\<close> creates holds the state of one task group only, however many groups of
  the job are deployed with it.
\<close>

theorem created_deployment_has_one_group:
  assumes "Compute order uuid (NewAllocReconciler upd batch jobID (Some job) d0 allocs nodes) = Some res"
    "rr_deployment res = Some d" "\<not> j_Stop job"
  shows "length (d_TaskGroups d) = 1"
  by (rule Compute_one_group [OF assms(1) _ assms(2)])
    (use assms(3) in \<open>simp_all add: NewAllocReconciler_def no_results_def job_Stopped_def\<close>)

text \<open>
  C36: \<open>bitmapFrom\<close> panics exactly when the highest index is a positive multiple of eight that neither the
  minimum size nor the number of allocations exceeds: the bitmap then ends just below that index. Otherwise the bits of
  the bitmap are the indexes of the allocations.
\<close>

theorem bitmapFrom_panics_iff:
  assumes "\<forall>p \<in> set input. alloc_Index (snd p) < 2 ^ 63" "minSize < 2 ^ 63" "length input < 2 ^ 63"
  shows "(bitmapFrom input minSize = None \<longleftrightarrow>
      (\<exists>p \<in> set input. 0 < alloc_Index (snd p) \<and> 8 dvd alloc_Index (snd p) \<and> minSize \<le> alloc_Index (snd p) \<and>
         length input \<le> alloc_Index (snd p) \<and> (\<forall>q \<in> set input. alloc_Index (snd q) \<le> alloc_Index (snd p)))) \<and>
    (\<forall>b. bitmapFrom input minSize = Some b \<longrightarrow> bm_bits b = (\<lambda>p. alloc_Index (snd p)) ` set input)"
proof -
  have mem: "top_index input \<in> (\<lambda>p. alloc_Index (snd p)) ` set input" if "0 < top_index input"
    using top_index_mem [OF that] by (simp add: case_prod_unfold)
  have ge: "alloc_Index (snd p) \<le> top_index input" if "p \<in> set input" for p
    by (rule top_index_ge) (use that in \<open>auto simp: case_prod_unfold\<close>)
  have "top_index input < 2 ^ 63" using mem assms(1) by (cases "0 < top_index input") auto
  then have s: "small input minSize" using assms(2,3) by (simp add: small_def)
  have top: "alloc_Index (snd p) = top_index input"
    if "p \<in> set input" "0 < alloc_Index (snd p)" "\<forall>q \<in> set input. alloc_Index (snd q) \<le> alloc_Index (snd p)" for p
  proof -
    have "0 < top_index input" using ge [OF that(1)] that(2) by simp
    then show ?thesis using mem ge [OF that(1)] that(3) by fastforce
  qed
  have "misaligned input minSize \<longleftrightarrow>
      (\<exists>p \<in> set input. 0 < alloc_Index (snd p) \<and> 8 dvd alloc_Index (snd p) \<and> minSize \<le> alloc_Index (snd p) \<and>
         length input \<le> alloc_Index (snd p) \<and> (\<forall>q \<in> set input. alloc_Index (snd q) \<le> alloc_Index (snd p)))"
  proof
    assume m: "misaligned input minSize"
    then obtain p where p: "p \<in> set input" "top_index input = alloc_Index (snd p)"
      using mem by (auto simp: misaligned_def)
    then show "\<exists>p \<in> set input. 0 < alloc_Index (snd p) \<and> 8 dvd alloc_Index (snd p) \<and> minSize \<le> alloc_Index (snd p) \<and>
         length input \<le> alloc_Index (snd p) \<and> (\<forall>q \<in> set input. alloc_Index (snd q) \<le> alloc_Index (snd p))"
      using m ge unfolding misaligned_def p(2) by blast
  next
    assume "\<exists>p \<in> set input. 0 < alloc_Index (snd p) \<and> 8 dvd alloc_Index (snd p) \<and> minSize \<le> alloc_Index (snd p) \<and>
         length input \<le> alloc_Index (snd p) \<and> (\<forall>q \<in> set input. alloc_Index (snd q) \<le> alloc_Index (snd p))"
    then obtain p where p: "p \<in> set input" "0 < alloc_Index (snd p)" "8 dvd alloc_Index (snd p)" "minSize \<le> alloc_Index (snd p)"
        "length input \<le> alloc_Index (snd p)" "\<forall>q \<in> set input. alloc_Index (snd q) \<le> alloc_Index (snd p)" by blast
    then show "misaligned input minSize" unfolding misaligned_def top [OF p(1,2,6), symmetric] by blast
  qed
  then show ?thesis using bitmapFrom_cases [OF s] by (auto simp: case_prod_unfold)
qed

text \<open>
  C39: The name index hands out names in order: \<open>Next(n)\<close> returns exactly \<open>n\<close> names, first those of the free
  indexes below the count from the lowest up, then, when these are used up, overlapping ones from zero, and marks them used.
\<close>

theorem Next_names:
  assumes "0 < n" "n \<le> bm_Size (ani_b idx)" "n < 2 ^ 64"
    "0 < ani_count idx" "ani_count idx < 2 ^ 63" "nat (ani_count idx) \<le> bm_Size (ani_b idx)"
  shows "\<exists>is b. Next n idx = Some (map (AllocName (ani_job idx) (ani_taskGroup idx)) is, idx\<lparr>ani_b := b\<rparr>) \<and>
    length is = n \<and> is = take n (filter (\<lambda>i. i \<notin> bm_bits (ani_b idx)) [0..<nat (ani_count idx)]) @
      [0..<n - length (filter (\<lambda>i. i \<notin> bm_bits (ani_b idx)) [0..<nat (ani_count idx)])] \<and>
    bm_bits b = bm_bits (ani_b idx) \<union> set is"
proof -
  let ?is = "take n (free_below idx) @ [0..<n - length (free_below idx)]"
  obtain b where "Next n idx = Some (map (ani_name idx) ?is, idx\<lparr>ani_b := b\<rparr>)" "bm_bits b = bm_bits (ani_b idx) \<union> set ?is"
    using Next_spec [of n idx] assms by auto
  then show ?thesis by (intro exI [of _ ?is] exI [of _ b]) (auto simp: free_below_def min_def)
qed

text \<open>
  The index in the name of an allocation survives the round trip through \<open>AllocName\<close> and \<open>Index\<close>, for every
  job, group and index that fits an \<open>int\<close>.
\<close>

theorem alloc_name_round_trip:
  assumes "a_Name a = AllocName (a_JobID a) (a_TaskGroup a) i" "i < 2 ^ 63"
  shows "alloc_Index a = i"
  by (rule alloc_Index_name [OF assms])

section \<open>Runs of the properties\<close>

abbreviation ex_set :: alloc_set where
  "ex_set \<equiv> [(''a'', ex_alloc ''a'' 0 old_job ''''), (''b'', ex_alloc ''b'' 1 old_job '''')]"

lemma ex_group_ok: "group_ok ''g'' (ex_group ''g'' 4) ex_set (ex_reconciler new_job None [])"
proof -
  have "alloc_Index (ex_alloc ''a'' 0 old_job '''') = 0" "alloc_Index (ex_alloc ''b'' 1 old_job '''') = 1"
    by (simp_all add: ex_index)
  then show ?thesis
    by (simp add: group_ok_def alloc_set_ok_def live_def stale_canaries_def ex_reconciler_def NewAllocReconciler_def
        index_fits_def in_canary_state_def group_state_def limit_ok_def ex_group_def ex_strategy_def ex_alloc_def)
qed

lemma ex_lookup: "r_job (ex_reconciler new_job None []) = Some new_job" "LookupTaskGroup new_job ''g'' = Some (ex_group ''g'' 4)"
  by (simp_all add: ex_reconciler_def NewAllocReconciler_def new_job_def ex_job_def LookupTaskGroup_def ex_group_def)

theorem computeGroup_converges_witness:
  "group_ok ''g'' (ex_group ''g'' 4) ex_set (ex_reconciler new_job None []) \<and>
   (\<exists>c r' stops places. computeGroup ''d'' ''g'' ex_set (ex_reconciler new_job None []) = Some (c, r') \<and>
     rr_stop (r_result r') = stops \<and> rr_place (r_result r') = places \<and>
     mset (map as_alloc stops) \<subseteq># mset (map snd ex_set) \<and> 2 - int (length stops) + int (length places) = 4)"
  using computeGroup_converges [OF ex_lookup ex_group_ok, of "''d''"] ex_group_ok
  by (simp add: ex_reconciler_def NewAllocReconciler_def no_results_def ex_group_def)

lemma ex_runs: "computeGroup ''d'' ''g'' ex_set (ex_reconciler new_job None []) \<noteq> None"
  using computeGroup_settles [OF ex_lookup ex_group_ok, of "''d''"] by auto

theorem rolling_update_bounded_witness:
  "\<exists>c r' ps. computeGroup ''d'' ''g'' ex_set (ex_reconciler new_job None []) = Some (c, r') \<and> rr_place (r_result r') = ps \<and>
     length (filter (\<lambda>p. ap_previousAlloc p \<noteq> None) ps) \<le> 1"
proof -
  obtain c r' where r: "computeGroup ''d'' ''g'' ex_set (ex_reconciler new_job None []) = Some (c, r')" using ex_runs by auto
  show ?thesis
    using rolling_update_bounded [OF ex_lookup r, of ex_strategy] r
    by (simp add: ex_group_def ex_strategy_def ex_reconciler_def NewAllocReconciler_def no_results_def)
qed

abbreviation pending_set :: alloc_set where
  "pending_set \<equiv> [(''b'', ex_alloc ''b'' 1 old_job ''''), (''x'', ex_alloc ''x'' 2 new_job ''d''), (''y'', ex_alloc ''y'' 3 new_job ''d''),
     (''z'', ex_alloc ''z'' 0 new_job ''d'')]"

theorem pending_over_limit_panics_witness:
  "amap_get [] (newAllocMatrix (r_job second_round) (r_existingAllocs second_round)) ''g'' = pending_set \<and>
   computeGroup ''e'' ''g'' pending_set second_round = None"
proof -
  have "newAllocMatrix (r_job second_round) (r_existingAllocs second_round) = [(''g'', pending_set)]"
    by (simp add: newAllocMatrix_def ex_reconciler_def NewAllocReconciler_def ex_alloc_def go_get_def new_job_def ex_job_def ex_group_def)
  moreover have "computeGroup ''e'' ''g'' pending_set second_round = None"
    by (rule pending_over_limit_panics [where job = new_job and tg = "ex_group ''g'' 4" and us = ex_strategy and d = ex_deployment
          and k = "''b''" and a = "ex_alloc ''b'' 1 old_job ''''" and b = None])
      (simp_all add: ex_reconciler_def NewAllocReconciler_def new_job_def old_job_def ex_job_def LookupTaskGroup_def ex_group_def
        ex_strategy_def alloc_set_ok_def stale_canaries_def ex_deployment_def NewDeployment_def placed_canaries_def ex_state_def
        in_canary_state_def group_state_def by_version_def ex_alloc_def filterByDeployment_def zero_alloc_def
        unpromoted_canaries_def ads_IsUnhealthy_def ads_IsHealthy_def)
  ultimately show ?thesis by (simp add: go_get_def)
qed

definition two_groups :: job where "two_groups = ex_job 0 [ex_group ''g'' 1, ex_group ''h'' 1]"

lemma two_groups_run:
  "map_option (\<lambda>res. map ap_name (rr_place res)) (Compute id ''d'' (ex_reconciler two_groups None [])) =
     Some [AllocName ''j'' ''g'' 0, AllocName ''j'' ''h'' 0]"
  "map_option (\<lambda>res. rr_deployment res \<noteq> None) (Compute id ''d'' (ex_reconciler two_groups None [])) = Some True"
  by code_simp+

theorem created_deployment_has_one_group_witness:
  "\<exists>res d. Compute id ''d'' (ex_reconciler two_groups None []) = Some res \<and>
     map ap_name (rr_place res) = [AllocName ''j'' ''g'' 0, AllocName ''j'' ''h'' 0] \<and>
     rr_deployment res = Some d \<and> length (d_TaskGroups d) = 1"
proof -
  obtain res where res: "Compute id ''d'' (ex_reconciler two_groups None []) = Some res"
      "map ap_name (rr_place res) = [AllocName ''j'' ''g'' 0, AllocName ''j'' ''h'' 0]" "rr_deployment res \<noteq> None"
    using two_groups_run by auto
  then obtain d where d: "rr_deployment res = Some d" by auto
  have "\<not> j_Stop two_groups" by (simp add: two_groups_def ex_job_def zero_job_def)
  from created_deployment_has_one_group [OF res(1) [unfolded ex_reconciler_def] d this] show ?thesis
    using res d by (intro exI [of _ res] exI [of _ d]) simp
qed

theorem bitmapFrom_panics_iff_witness: "bitmapFrom [(''a'', ex_alloc ''a'' 8 old_job '''')] 2 = None"
  using bitmapFrom_panics_iff [of "[(''a'', ex_alloc ''a'' 8 old_job '''')]" 2] by (simp add: ex_index)

theorem Next_names_witness:
  "\<exists>b. Next 2 \<lparr>ani_job = ''j'', ani_taskGroup = ''g'', ani_count = 3, ani_b = [1]\<rparr> =
     Some ([AllocName ''j'' ''g'' 1, AllocName ''j'' ''g'' 2], \<lparr>ani_job = ''j'', ani_taskGroup = ''g'', ani_count = 3, ani_b = b\<rparr>)"
proof -
  let ?i = "\<lparr>ani_job = ''j'', ani_taskGroup = ''g'', ani_count = 3, ani_b = [1]\<rparr> :: alloc_name_index"
  have "bm_bits [1 :: 8 word] = {0}" by (auto simp: bm_bits_def bit_1_iff)
  moreover have "[0..<3] = [0, 1, 2 :: nat]" by (simp add: upt_rec)
  ultimately have "filter (\<lambda>i. i \<notin> bm_bits [1 :: 8 word]) [0..<nat 3] = [1, 2]" by simp
  then show ?thesis using Next_names [of 2 ?i] by simp blast
qed

theorem alloc_name_round_trip_witness: "alloc_Index (ex_alloc ''a'' 41 old_job '''') = 41"
  using alloc_name_round_trip [of "ex_alloc ''a'' 41 old_job ''''" 41] by (simp add: ex_alloc_def)

theorem alloc_sets_refine_maps_witness:
  "filterByTainted (\<lambda>_. Some None) ex_set = Some ([], [], ex_set) \<and>
   node_fate (\<lambda>_. Some None) (ex_alloc ''a'' 0 old_job '''') = IsLost \<and>
   map_of (difference ex_set [ex_set]) = Map.empty \<and> map_of (alloc_union ex_set [ex_set]) = map_of ex_set \<and>
   map_of (fromKeys ex_set [[''a'']]) ''b'' = None"
proof -
  have ok: "alloc_set_ok ex_set" "list_all alloc_set_ok [ex_set]" by (simp_all add: alloc_set_ok_def ex_alloc_def)
  have "j_Type old_job \<noteq> JobTypeBatch" by code_simp
  then have f: "filterByTainted (\<lambda>_. Some None) ex_set = Some ([], [], ex_set)"
    by (simp add: ex_alloc_def)
  have "map_of ex_set ++ map_of ex_set = map_of ex_set" by (rule ext) (simp add: map_add_def split: option.split)
  moreover have "map_of ex_set ''a'' = Some (ex_alloc ''a'' 0 old_job '''')" by simp
  ultimately show ?thesis
    using alloc_sets_refine_maps [OF ok f, of "[[''a'']]" "''a''" "ex_alloc ''a'' 0 old_job ''''"] f by simp
qed

end
