(* ===== verification/Spec2Isabelle.thy ===== *)
theory Spec2Isabelle
  imports Prelude Go_Heap Bitmap Resources Structs Network Alloc_Fit
    Eval_Broker Eval_Broker_Inv Eval_Broker_Run Eval_Broker_System
    Blocked_Evals Plan_Queue Time_Table State_Store Store_Relation State_Store_Index Job_Versions
    Plan_Apply Plan_Apply_Safe Plan_Apply_Runs
    Reconcile_Util Reconcile Reconcile_Correct Reconcile_Runs
begin

text \<open>
  A verification library for the scheduling core of the Nomad server: the path of an evaluation from the broker through
  the reconciler, the plan queue and the plan applier into the replicated state.

  \<^bold>\<open>The parts and how they interact.\<close> An evaluation says that a job needs attention. The leader keeps
  evaluations in the broker, which hands them to scheduler workers one per job at a time. A worker reconciles
  the job with its allocations and submits a plan, which waits in the plan queue until the applier verifies it against a
  snapshot and commits it through Raft to the state store. An evaluation that found no room is kept by
  the tracker of blocked evaluations and goes back to the broker when capacity changes. The time table relates Raft
  indexes to times for garbage collection.

  \<^bold>\<open>Theories and sources\<close> (paths under \<^verbatim>\<open>src/\<close>).

  \<^item> \<^verbatim>\<open>Prelude\<close>: lookup with a zero value, 64-bit wrap-around, shared lemmas and simplification
    collections. \<^verbatim>\<open>Go_Heap\<close>: the array heap of \<^verbatim>\<open>container/heap\<close> with the locale \<open>heap_order\<close>, in which a
    push and a pop keep the heap and a pop is minimal; it is interpreted for the ready queues and the blocked queues
    of the broker and for the plan queue.
  \<^item> \<^verbatim>\<open>Bitmap\<close> (\<^verbatim>\<open>nomad/structs/bitmap.go\<close>), \<^verbatim>\<open>Resources\<close> and \<^verbatim>\<open>Structs\<close>
    (\<^verbatim>\<open>nomad/structs/structs.go\<close>): bitmaps on bytes with the locale \<open>bitset\<close> of their laws, resource
    vectors, and the records of jobs, nodes, allocations, evaluations, deployments and plans with their predicates.
  \<^item> \<^verbatim>\<open>Network\<close> (\<^verbatim>\<open>nomad/structs/network.go\<close>): \<open>NetworkIndex\<close> as the record \<open>network_index\<close>;
    \<open>AddReserved\<close>, \<open>AddAllocs\<close>, \<open>yieldIP\<close>, \<open>AssignNetwork\<close>. Shown: a collision is reported exactly when
    there is one; an offer can be reserved; the search ends when no network has an empty mask; an error means that no address would do.
  \<^item> \<^verbatim>\<open>Alloc_Fit\<close> (\<^verbatim>\<open>nomad/structs/funcs.go\<close>): \<open>RemoveAllocs\<close>, \<open>FilterTerminalAllocs\<close>,
    \<open>AllocsFit\<close>, which answers yes exactly when the specification \<open>fits_spec\<close> holds.
  \<^item> \<^verbatim>\<open>Eval_Broker\<close>, \<^verbatim>\<open>Eval_Broker_Inv\<close>, \<^verbatim>\<open>Eval_Broker_Run\<close>, \<^verbatim>\<open>Eval_Broker_System\<close>
    (\<^verbatim>\<open>nomad/eval_broker.go\<close>): the record \<open>eval_broker\<close> with every method, timers and their callbacks; the
    invariant and its preservation by each method; the broker as a step relation with one step per critical
    section. The guarantees (conservation, one evaluation per job, best first, redelivery, exact statistics, no panic)
    are for orderly runs, in which the broker is enabled only when it is idle; a wait timer that is left over from
    a time when it was disabled breaks them, which is a theorem as well.
  \<^item> \<^verbatim>\<open>Blocked_Evals\<close> (\<^verbatim>\<open>nomad/blocked_evals.go\<close>): the tracker on top of the broker. No wake-up is
    lost, one evaluation per job, \<open>unblock\<close> implements its set-level specification, and tracker and broker together lose no
    evaluation.
  \<^item> \<^verbatim>\<open>Plan_Queue\<close> (\<^verbatim>\<open>nomad/plan_queue.go\<close>, \<^verbatim>\<open>nomad/plan_apply_pool.go\<close>): plans in order
    of priority; every future is answered once. \<^verbatim>\<open>Time_Table\<close> (\<^verbatim>\<open>nomad/timetable.go\<close>): the
    bounded table, its binary search and its serialisation.
  \<^item> \<^verbatim>\<open>State_Store\<close> (\<^verbatim>\<open>nomad/state/state_store.go\<close>): the tables as association lists in the record
    \<open>state_store\<close>, each transaction with its error paths. \<^verbatim>\<open>Store_Relation\<close> has the locale of relations that the shared
    writes respect; \<^verbatim>\<open>State_Store_Index\<close> interprets it for the index of a table, \<^verbatim>\<open>Plan_Apply_Safe\<close> for a
    frame condition. \<^verbatim>\<open>Job_Versions\<close>: the version history of jobs, its bound, and where it fails.
  \<^item> \<^verbatim>\<open>Plan_Apply\<close>, \<^verbatim>\<open>Plan_Apply_Safe\<close>, \<^verbatim>\<open>Plan_Apply_Runs\<close>
    (\<^verbatim>\<open>nomad/plan_apply.go\<close>): the verification of a plan, the request, and the loop that overlaps the
    verification of a plan with the application of the one before. No node is overcommitted as long as no
    application fails; when one fails, the plan verified behind it is applied nevertheless.
  \<^item> \<^verbatim>\<open>Reconcile_Util\<close>, \<^verbatim>\<open>Reconcile\<close>, \<^verbatim>\<open>Reconcile_Correct\<close>, \<^verbatim>\<open>Reconcile_Runs\<close>
    (\<^verbatim>\<open>scheduler/reconcile_util.go\<close>, \<^verbatim>\<open>scheduler/reconcile.go\<close>): allocation sets, the choice of names, and
    the reconciliation of each task group. A group in good order ends at its count, a rolling update stays within
    \<open>MaxParallel\<close>, and the conditions under which the bitmap or the update limit make the code panic are exact or
    sufficient, as stated.

  \<^bold>\<open>Conventions.\<close> A method is a function of the state record that returns the new one. A panic is \<open>None\<close>; an error
  is a constructor of an error type. A map that is ranged over is an association list, in the order of the list
  unless the order is an argument. Go's \<open>int\<close> is an \<open>int\<close> with the wrap-around written as \<open>wrap64\<close> where it can matter, \<open>uint\<close>
  a \<open>nat\<close> below \<open>2 ^ 64\<close>, bytes are words. Time, random numbers, UUIDs, the order of answers and of map ranges, the CIDR
  parser and the comparison function the scheduler passes to the reconciler are arguments. Pointers are values: the code
  copies what it stores, and where it does not (the shared evaluation of the broker, the sets that \<open>computeStop\<close> changes for its
  caller) the theory says how the model deals with it. No loop needs fuel: \<open>yieldIP\<close> is a
  \<open>partial_function\<close> whose result is proved to exist when no mask is empty, the other loops are structural or come with a measure.

  \<^bold>\<open>Not modelled.\<close> Feasibility and ranking of nodes (third-party version and expression libraries, floating-point scores);
  Raft, Serf, RPC, HTTP and the goroutines of the leader, which appear as steps in any order; the deployment watcher; the client agent;
  validation, copying and diffing of structs; of the state store the watch sets, whole-table iterators, periodic launches,
  Vault accessors and the restore of a snapshot. In the runs of the plan applier only clients that end
  allocations write to the state besides it.
\<close>

end
